(* ===== verification/Py_Prelude.thy ===== *)
theory Py_Prelude
  imports Main "HOL-Library.Multiset" "HOL-Library.AList" "HOL-Library.Sublist"
begin

text \<open>
  The fragment of Python and of its standard library that the modelled scripts use.

  \<^item> A statement that may raise returns a value of type \<open>'a res\<close>: \<open>Inl e\<close> is the
    exception \<open>e\<close>, \<open>Inr x\<close> a normal result. \<open>res_bind\<close> sequences two such
    computations, as a sequence of Python statements does.
  \<^item> A dictionary is an association list in insertion order: \<open>map_of\<close> looks a key up,
    \<open>AList.update\<close> stores (in place when the key is there, at the end otherwise) and
    \<open>AList.delete\<close> is the \<^verbatim>\<open>del\<close> statement.
  \<^item> Strings are lists of characters; the string and path functions below are the
    methods of \<^verbatim>\<open>str\<close> and of \<^verbatim>\<open>os.path\<close> (POSIX) the scripts call.

  The collections \<open>res_simps\<close> and \<open>py_list_simps\<close> gather the rewrite rules the component
  theories share.
\<close>

named_theorems res_simps
named_theorems py_list_simps

section \<open>Exceptions\<close>

datatype py_error =
    IndexError | KeyError | ValueError | ZeroDivisionError
  | UnboundLocalError | AttributeError | NameError | AssertionError | TypeError
  | RuntimeError | OSError | OverflowError | NotImplementedError | PyException string | SystemExit int

type_synonym 'a res = "py_error + 'a"

definition res_bind :: "'e + 'a \<Rightarrow> ('a \<Rightarrow> 'e + 'b) \<Rightarrow> 'e + 'b" where
  "res_bind r f = (case r of Inl e \<Rightarrow> Inl e | Inr x \<Rightarrow> f x)"

fun res_fold :: "('a \<Rightarrow> 's \<Rightarrow> 'e + 's) \<Rightarrow> 'a list \<Rightarrow> 's \<Rightarrow> 'e + 's" where
  "res_fold f [] s = Inr s"
| "res_fold f (x # xs) s = res_bind (f x s) (res_fold f xs)"

section \<open>Lists\<close>

text \<open>\<^verbatim>\<open>xs[i]\<close> with Python's negative indices, and \<^verbatim>\<open>xs[a:b]\<close> with its clamping.\<close>

definition py_index :: "'a list \<Rightarrow> int \<Rightarrow> 'a res" where
  "py_index xs i =
     (if i < - int (length xs) \<or> int (length xs) \<le> i then Inl IndexError
      else if i < 0 then Inr (xs ! (length xs - nat (- i)))
      else Inr (xs ! nat i))"

definition slice_bound :: "nat \<Rightarrow> int \<Rightarrow> nat" where
  "slice_bound n i = nat (min (int n) (if i < 0 then max 0 (int n + i) else i))"

definition py_slice :: "'a list \<Rightarrow> int \<Rightarrow> int \<Rightarrow> 'a list" where
  "py_slice xs a b =
     drop (slice_bound (length xs) a) (take (slice_bound (length xs) b) xs)"

text \<open>\<^verbatim>\<open>list.remove\<close> deletes the first occurrence only (\<open>remove1\<close>); a stable sort by an
  integer key is \<open>sort_key\<close>.\<close>

section \<open>Strings and paths\<close>

definition starts_with :: "string \<Rightarrow> string \<Rightarrow> bool" where
  "starts_with s p = prefix p s"

definition ends_with :: "string \<Rightarrow> string \<Rightarrow> bool" where
  "ends_with s p = suffix p s"

text \<open>\<^verbatim>\<open>sub in s\<close> for strings.\<close>

definition str_contains :: "string \<Rightarrow> string \<Rightarrow> bool" where
  "str_contains s sub = sublist sub s"

fun str_split :: "char \<Rightarrow> string \<Rightarrow> string list" where
  "str_split c [] = [[]]"
| "str_split c (x # xs) =
     (if x = c then [] # str_split c xs
      else (case str_split c xs of [] \<Rightarrow> [[x]] | w # ws \<Rightarrow> (x # w) # ws))"

text \<open>\<^verbatim>\<open>s.split(c, 1)\<close>: one or two pieces.\<close>

definition str_split1 :: "char \<Rightarrow> string \<Rightarrow> string list" where
  "str_split1 c s =
     (if c \<in> set s then [takeWhile (\<lambda>x. x \<noteq> c) s, tl (dropWhile (\<lambda>x. x \<noteq> c) s)] else [s])"

fun str_join :: "string \<Rightarrow> string list \<Rightarrow> string" where
  "str_join sep [] = []"
| "str_join sep [x] = x"
| "str_join sep (x # y # ys) = x @ sep @ str_join sep (y # ys)"

definition py_spaces :: "char list" where
  "py_spaces = [CHR '' '', CHR 0x09, CHR 0x0A, CHR 0x0B, CHR 0x0C, CHR 0x0D,
     CHR 0x1C, CHR 0x1D, CHR 0x1E, CHR 0x1F, CHR 0x85, CHR 0xA0]"

definition str_strip_chars :: "char list \<Rightarrow> string \<Rightarrow> string" where
  "str_strip_chars cs s =
     rev (dropWhile (\<lambda>c. c \<in> set cs) (rev (dropWhile (\<lambda>c. c \<in> set cs) s)))"

definition str_strip :: "string \<Rightarrow> string" where
  "str_strip s = str_strip_chars py_spaces s"

text \<open>\<^verbatim>\<open>upper\<close>, \<^verbatim>\<open>lower\<close> and \<^verbatim>\<open>capitalize\<close> on ASCII.\<close>

definition upper_char :: "char \<Rightarrow> char" where
  "upper_char c = (let k = (of_char c :: nat) in if 97 \<le> k \<and> k \<le> 122 then char_of (k - 32) else c)"

definition lower_char :: "char \<Rightarrow> char" where
  "lower_char c = (let k = (of_char c :: nat) in if 65 \<le> k \<and> k \<le> 90 then char_of (k + 32) else c)"

definition str_upper :: "string \<Rightarrow> string" where
  "str_upper s = map upper_char s"

definition str_capitalize :: "string \<Rightarrow> string" where
  "str_capitalize s = (case s of [] \<Rightarrow> [] | c # cs \<Rightarrow> upper_char c # map lower_char cs)"

text \<open>The interpreter, where a script behaves differently under the two versions of the language.\<close>

datatype python = Python2 | Python3

definition newline :: string where
  "newline = [CHR 0x0A]"

definition os_sep :: char where
  "os_sep = CHR ''/''"

definition path_join :: "string \<Rightarrow> string \<Rightarrow> string" where
  "path_join a b =
     (if b \<noteq> [] \<and> hd b = os_sep then b
      else if a = [] \<or> last a = os_sep then a @ b
      else a @ [os_sep] @ b)"

definition path_basename :: "string \<Rightarrow> string" where
  "path_basename p = rev (takeWhile (\<lambda>c. c \<noteq> os_sep) (rev p))"

text \<open>The head of \<^verbatim>\<open>os.path.split\<close>: everything up to the last separator, without the
  trailing separators unless it is all separators.\<close>

definition path_dirname :: "string \<Rightarrow> string" where
  "path_dirname p =
     (let head = rev (dropWhile (\<lambda>c. c \<noteq> os_sep) (rev p))
      in if list_all (\<lambda>c. c = os_sep) head then head
         else rev (dropWhile (\<lambda>c. c = os_sep) (rev head)))"

section \<open>Numbers as text\<close>

definition digit_char :: "nat \<Rightarrow> char" where
  "digit_char d = char_of (48 + d)"

fun nat_digits :: "nat \<Rightarrow> string" where
  "nat_digits n = (if n < 10 then [digit_char n] else nat_digits (n div 10) @ [digit_char (n mod 10)])"

declare nat_digits.simps [simp del]

text \<open>\<^verbatim>\<open>str(i)\<close> and \<^verbatim>\<open>"%d" % i\<close>.\<close>

definition int_str :: "int \<Rightarrow> string" where
  "int_str i = (if i < 0 then ''-'' @ nat_digits (nat (- i)) else nat_digits (nat i))"

definition is_digit :: "char \<Rightarrow> bool" where
  "is_digit c = (48 \<le> (of_char c :: nat) \<and> (of_char c :: nat) \<le> 57)"

definition digit_val :: "char \<Rightarrow> nat" where
  "digit_val c = (of_char c :: nat) - 48"

text \<open>\<^verbatim>\<open>int(s)\<close> on a string matched by \<^verbatim>\<open>[0-9]+\<close>.\<close>

definition nat_of_digits :: "string \<Rightarrow> nat" where
  "nat_of_digits s = foldl (\<lambda>a c. 10 * a + digit_val c) 0 s"

text \<open>\<^verbatim>\<open>int(s)\<close> on a decimal number, blanks around it allowed.\<close>

definition py_int :: "string \<Rightarrow> int res" where
  "py_int s =
     (let t = str_strip s;
          (neg, ds) = (case t of c # cs \<Rightarrow> if c = CHR ''-'' then (True, cs)
                                 else if c = CHR ''+'' then (False, cs) else (False, t)
                       | [] \<Rightarrow> (False, []))
      in if ds \<noteq> [] \<and> list_all is_digit ds
         then Inr (if neg then - int (nat_of_digits ds) else int (nat_of_digits ds))
         else Inl ValueError)"

section \<open>Laws\<close>

lemma res_bind_Inr [simp]: "res_bind (Inr x) f = f x"
  by (simp add: res_bind_def)

lemma res_bind_Inl [simp]: "res_bind (Inl e) f = Inl e"
  by (simp add: res_bind_def)

lemma res_bind_eq_Inr [res_simps]: "(res_bind r f = Inr y) = (\<exists>x. r = Inr x \<and> f x = Inr y)"
  by (cases r) auto

lemma res_bind_eq_Inl [res_simps]:
  "(res_bind r f = Inl e) = (r = Inl e \<or> (\<exists>x. r = Inr x \<and> f x = Inl e))"
  by (cases r) auto

lemma case_SomeE:
  assumes "case x of None \<Rightarrow> False | Some s \<Rightarrow> P s"
  obtains s where "x = Some s" "P s"
  using assms by (cases x) auto

lemma case_InrE:
  assumes "case x of Inl _ \<Rightarrow> False | Inr s \<Rightarrow> P s"
  obtains s where "x = Inr s" "P s"
  using assms by (cases x) auto

lemma res_fold_append:
  "res_fold f (xs @ ys) s = res_bind (res_fold f xs s) (res_fold f ys)"
proof (induction xs arbitrary: s)
  case (Cons x xs)
  then show ?case by (cases "f x s") auto
qed simp

lemma res_fold_invariant:
  assumes "res_fold f xs s = Inr t" and "P s"
    and "\<And>x u v. x \<in> set xs \<Longrightarrow> P u \<Longrightarrow> f x u = Inr v \<Longrightarrow> P v"
  shows "P t"
  using assms
proof (induction xs arbitrary: s)
  case (Cons x xs)
  then obtain u where "f x s = Inr u" "res_fold f xs u = Inr t"
    by (auto simp: res_simps)
  with Cons show ?case by (metis list.set_intros)
qed simp

lemma py_index_nat [py_list_simps]:
  "py_index xs (int i) = (if i < length xs then Inr (xs ! i) else Inl IndexError)"
  by (simp add: py_index_def)

lemma py_index_neg [py_list_simps]:
  "0 < i \<Longrightarrow> py_index xs (- int i) =
    (if i \<le> length xs then Inr (xs ! (length xs - i)) else Inl IndexError)"
  by (simp add: py_index_def)

lemma slice_bound_nat [py_list_simps]: "slice_bound n (int k) = min n k"
  by (simp add: slice_bound_def)

lemma py_slice_nat [py_list_simps]:
  "py_slice xs (int a) (int b) = drop (min (length xs) a) (take (min (length xs) b) xs)"
  by (simp add: py_slice_def py_list_simps)

lemma str_split_not_Nil [simp]: "str_split c s \<noteq> []"
  by (induction s) (auto split: list.splits)

lemma str_join_split: "str_join [c] (str_split c s) = s"
proof (induction s)
  case (Cons x xs)
  obtain w ws where w: "str_split c xs = w # ws"
    by (cases "str_split c xs") auto
  with Cons show ?case by (cases ws) auto
qed simp

lemma str_split_no_sep: "w \<in> set (str_split c s) \<Longrightarrow> c \<notin> set w"
proof (induction s arbitrary: w)
  case (Cons x xs)
  then show ?case by (cases "str_split c xs") (auto split: if_splits)
qed simp

lemma str_split_append_sep:
  "c \<notin> set a \<Longrightarrow> str_split c (a @ c # b) = a # str_split c b"
  by (induction a) auto

lemma str_split_none: "c \<notin> set a \<Longrightarrow> str_split c a = [a]"
  by (induction a) auto

lemma str_split_join:
  assumes "\<forall>w \<in> set ws. c \<notin> set w" and "ws \<noteq> []"
  shows "str_split c (str_join [c] ws) = ws"
  using assms
proof (induction "[c]" ws rule: str_join.induct)
  case (2 x)
  then show ?case by (simp add: str_split_none)
next
  case (3 x y ys)
  then show ?case by (simp add: str_split_append_sep)
qed simp

lemma digit_char_of [simp]: "d < 10 \<Longrightarrow> is_digit (digit_char d)"
  by (simp add: is_digit_def digit_char_def)

lemma digit_val_digit_char [simp]: "d < 10 \<Longrightarrow> digit_val (digit_char d) = d"
  by (simp add: digit_val_def digit_char_def)

lemma nat_of_digits_snoc: "nat_of_digits (s @ [c]) = 10 * nat_of_digits s + digit_val c"
  by (simp add: nat_of_digits_def)

lemma nat_of_digits_digits [simp]: "nat_of_digits (nat_digits n) = n"
proof (induction n rule: nat_digits.induct)
  case (1 n)
  show ?case
  proof (cases "n < 10")
    case True
    then show ?thesis by (simp add: nat_digits.simps [of n] nat_of_digits_def)
  next
    case False
    with 1 have "nat_of_digits (nat_digits (n div 10)) = n div 10" by simp
    with False show ?thesis by (simp add: nat_digits.simps [of n] nat_of_digits_snoc)
  qed
qed

lemma nat_digits_digits: "c \<in> set (nat_digits n) \<Longrightarrow> is_digit c"
proof (induction n rule: nat_digits.induct)
  case (1 n)
  then show ?case by (subst (asm) nat_digits.simps) (auto split: if_splits)
qed

lemma nat_digits_not_Nil [simp]: "nat_digits n \<noteq> []"
  by (subst nat_digits.simps) simp

lemma AList_update_map_of [simp]: "map_of (AList.update k v d) = (map_of d)(k \<mapsto> v)"
  by (simp add: update_conv')

lemma AList_update_keys:
  "map fst (AList.update k v d) = (if k \<in> fst ` set d then map fst d else map fst d @ [k])"
  by (induction d) auto

text \<open>A path component: not empty and without a separator.\<close>

definition path_component :: "string \<Rightarrow> bool" where
  "path_component c \<longleftrightarrow> c \<noteq> [] \<and> os_sep \<notin> set c"

lemma foldl_path_join:
  assumes "\<forall>c\<in>set cs. path_component c" "p \<noteq> []" "last p \<noteq> os_sep"
  shows "foldl path_join p cs = p @ concat (map (\<lambda>c. os_sep # c) cs)"
  using assms
proof (induction cs arbitrary: p)
  case (Cons c cs)
  then have c: "c \<noteq> []" "hd c \<noteq> os_sep" "last c \<noteq> os_sep"
    by (auto simp: path_component_def) (metis hd_in_set, metis last_in_set)
  then have "path_join p c = p @ os_sep # c" using Cons.prems by (simp add: path_join_def)
  with Cons c show ?case by simp
qed simp

lemma str_join_concat:
  "str_join [s] (c # cs) = c @ concat (map (\<lambda>c. s # c) cs)"
  by (induction cs arbitrary: c) simp_all

end
