(* ===== verification/Rad_Seq.thy ===== *)
theory Rad_Seq
  imports Py_Prelude
begin

text \<open>
  The sequence functions of \<^verbatim>\<open>bindings/python/rad_util.py\<close>: rotations (used by the cycle
  finder of \<^verbatim>\<open>topsort.py\<close>), permutations, duplicate removal, common prefixes and suffixes,
  transposition, dictionary reversal and the option dictionary. The module is Python 2:
  \<^verbatim>\<open>zip\<close>, \<^verbatim>\<open>map\<close> and \<^verbatim>\<open>dict.keys\<close> return lists, and the order of \<^verbatim>\<open>dict.keys\<close> is not
  specified, so it is an argument \<open>key_order\<close> of the model.

  The locale \<open>rotation_test\<close> is the interface the cycle finder relies on.
\<close>

section \<open>Operations\<close>

text \<open>\<^verbatim>\<open>reverse\<close>\<close>

definition reverse_str :: "string \<Rightarrow> string" where
  "reverse_str input_string = rev input_string"

text \<open>\<^verbatim>\<open>transpose\<close>: \<^verbatim>\<open>zip(*matrix)\<close> stops at the shortest row.\<close>

definition transpose_rows :: "'a list list \<Rightarrow> 'a list list" where
  "transpose_rows matrix =
     (case matrix of [] \<Rightarrow> []
      | r # rs \<Rightarrow> map (\<lambda>j. map (\<lambda>row. row ! j) matrix) [0..<foldr min (map length rs) (length r)])"

text \<open>\<^verbatim>\<open>permutations\<close>: the first item inserted at every position of every permutation of the
  rest.\<close>

definition insert_at :: "nat \<Rightarrow> 'a \<Rightarrow> 'a list \<Rightarrow> 'a list" where
  "insert_at i item xs = take i xs @ item # drop i xs"

fun permutations :: "'a list \<Rightarrow> 'a list list" where
  "permutations (item # x # xs) =
     concat (map (\<lambda>sub_list. map (\<lambda>i. insert_at i item sub_list) [0..<length (item # x # xs)])
       (permutations (x # xs)))"
| "permutations xs = [xs]"

text \<open>\<^verbatim>\<open>uniquify\<close>. The dictionary \<^verbatim>\<open>d\<close> of the fast path raises \<^verbatim>\<open>TypeError\<close> at the first
  unhashable item, and the slow path is then run on the whole sequence.\<close>

fun uniq_ordered :: "'a list \<Rightarrow> 'a list \<Rightarrow> 'a list" where
  "uniq_ordered d [] = []"
| "uniq_ordered d (x # xs) =
     (if x \<in> set d then uniq_ordered d xs else x # uniq_ordered (d @ [x]) xs)"

fun uniq_keys :: "'a list \<Rightarrow> 'a list \<Rightarrow> 'a list" where
  "uniq_keys d [] = d"
| "uniq_keys d (x # xs) = uniq_keys (if x \<in> set d then d else d @ [x]) xs"

fun uniq_slow :: "'a list \<Rightarrow> 'a list \<Rightarrow> 'a list" where
  "uniq_slow result [] = result"
| "uniq_slow result (x # xs) =
     uniq_slow (if x \<notin> set result then result @ [x] else result) xs"

definition uniquify ::
    "('a list \<Rightarrow> 'a list) \<Rightarrow> ('a \<Rightarrow> bool) \<Rightarrow> 'a list \<Rightarrow> bool \<Rightarrow> 'a list" where
  "uniquify key_order hashable seq preserve_order =
     (if list_all hashable seq
      then (if preserve_order then uniq_ordered [] seq else key_order (uniq_keys [] seq))
      else uniq_slow [] seq)"

text \<open>\<^verbatim>\<open>reverse_dict\<close>\<close>

definition reverse_dict :: "('k \<times> 'v) list \<Rightarrow> ('v \<times> 'k) list" where
  "reverse_dict d = fold (\<lambda>(key, value) result. AList.update value key result) d []"

text \<open>\<^verbatim>\<open>find_common_fixes\<close>: one loop from the front, one from the back; both stop at the length
  of the shorter string.\<close>

function fixes_front :: "'a list \<Rightarrow> 'a list \<Rightarrow> nat \<Rightarrow> nat \<Rightarrow> 'a list \<Rightarrow> 'a list" where
  "fixes_front s1 s2 common_len i pre =
     (if i < common_len
      then if s1 ! i \<noteq> s2 ! i then pre
           else fixes_front s1 s2 common_len (i + 1) (pre @ [s1 ! i])
      else pre)"
  by pat_completeness auto
termination
  by (relation "measure (\<lambda>(s1, s2, n, i, p). n - i)") auto

function fixes_back :: "'a list \<Rightarrow> 'a list \<Rightarrow> nat \<Rightarrow> nat \<Rightarrow> 'a list \<Rightarrow> 'a list" where
  "fixes_back s1 s2 common_len i suf =
     (if i < common_len + 1
      then if s1 ! (length s1 - i) \<noteq> s2 ! (length s2 - i) then suf
           else fixes_back s1 s2 common_len (i + 1) (suf @ [s1 ! (length s1 - i)])
      else suf)"
  by pat_completeness auto
termination
  by (relation "measure (\<lambda>(s1, s2, n, i, p). n + 1 - i)") auto

declare fixes_front.simps [simp del] fixes_back.simps [simp del]

definition find_common_fixes :: "'a list \<Rightarrow> 'a list \<Rightarrow> 'a list \<times> 'a list" where
  "find_common_fixes s1 s2 =
     (let common_len = min (length s1) (length s2)
      in (fixes_front s1 s2 common_len 0 [], rev (fixes_back s1 s2 common_len 1 [])))"

text \<open>\<^verbatim>\<open>is_rotated\<close>: \<^verbatim>\<open>seq2[0]\<close> raises on two empty sequences.\<close>

definition is_rotated :: "'a list \<Rightarrow> 'a list \<Rightarrow> bool res" where
  "is_rotated seq1 seq2 =
     (if length seq1 \<noteq> length seq2 then Inr False
      else res_bind (py_index seq2 0) (\<lambda>head_item.
        let start_indexes = filter (\<lambda>index1. seq1 ! index1 = head_item) [0..<length seq1];
            double_seq1 = seq1 @ seq1
        in Inr (list_ex (\<lambda>index1. take (length seq1) (drop index1 double_seq1) = seq2)
                  start_indexes)))"

text \<open>\<^verbatim>\<open>get_args\<close>: leading dashes are removed, \<^verbatim>\<open>option=value\<close> is split at every \<^verbatim>\<open>=\<close>.\<close>

datatype arg_value = ArgNone | ArgStr string | ArgList "string list"

definition get_arg :: "string \<Rightarrow> (string \<times> arg_value) list \<times> string list
    \<Rightarrow> (string \<times> arg_value) list \<times> string list" where
  "get_arg arg = (\<lambda>(d, args).
     if starts_with arg ''-''
     then let parts = str_split CHR ''='' (dropWhile (\<lambda>c. c = CHR ''-'') arg)
          in (AList.update (hd parts)
                (if length parts = 2 then ArgStr (parts ! 1) else ArgNone) d, args)
     else (d, args @ [arg]))"

definition get_args :: "string list \<Rightarrow> (string \<times> arg_value) list" where
  "get_args argv =
     (let (d, args) = fold get_arg argv ([], []) in AList.update ''args'' (ArgList args) d)"

section \<open>Rotations\<close>

text \<open>The contract the cycle finder relies on: on non-empty sequences the test never raises and
  decides whether one sequence is a rotation of the other.\<close>

locale rotation_test =
  fixes rot :: "'a list \<Rightarrow> 'a list \<Rightarrow> bool res"
  assumes rot_spec: "ys \<noteq> [] \<Longrightarrow> rot xs ys = Inr (\<exists>n. rotate n xs = ys)"
begin

lemma rot_refl: "xs \<noteq> [] \<Longrightarrow> rot xs xs = Inr True"
  by (auto simp: rot_spec intro: exI [of _ 0])

lemma rot_sym:
  assumes "ys \<noteq> []" and "rot xs ys = Inr True"
  shows "rot ys xs = Inr True"
proof -
  from assms obtain n where n: "rotate n xs = ys" by (auto simp: rot_spec)
  with assms have ne: "xs \<noteq> []" by auto
  let ?m = "length xs - n mod length xs"
  have "rotate ?m (rotate (n mod length xs) xs) = rotate (?m + n mod length xs) xs"
    by (simp add: rotate_rotate)
  also have "\<dots> = xs" using ne by (simp add: less_imp_le)
  finally have "rotate ?m ys = xs" using n by (simp add: rotate_conv_mod [symmetric])
  then show ?thesis using ne by (auto simp: rot_spec)
qed

lemma rot_trans:
  assumes "ys \<noteq> []" "zs \<noteq> []" "rot xs ys = Inr True" "rot ys zs = Inr True"
  shows "rot xs zs = Inr True"
  using assms by (auto simp: rot_spec rotate_rotate)

end

lemma double_window:
  assumes "i < length xs"
  shows "take (length xs) (drop i (xs @ xs)) = rotate i xs"
  using assms by (simp add: rotate_drop_take)

lemma hd_rotate: "i < length xs \<Longrightarrow> hd (rotate i xs) = xs ! i"
  by (metis hd_rotate_conv_nth list.size(3) mod_less not_less_zero)

lemma is_rotated_spec:
  assumes "ys \<noteq> []"
  shows "is_rotated xs ys = Inr (\<exists>n. rotate n xs = ys)"
proof (cases "length xs = length ys")
  case False
  then show ?thesis by (auto simp: is_rotated_def)
next
  case True
  with assms have ne: "xs \<noteq> []" by auto
  have "(\<exists>n. rotate n xs = ys) \<longleftrightarrow> (\<exists>i < length xs. rotate i xs = ys)"
    by (metis length_greater_0_conv mod_less_divisor ne rotate_conv_mod)
  also have "\<dots> \<longleftrightarrow> (\<exists>i < length xs. xs ! i = ys ! 0 \<and> take (length xs) (drop i (xs @ xs)) = ys)"
    using assms by (metis double_window hd_conv_nth hd_rotate)
  finally show ?thesis
    using True assms by (auto simp: is_rotated_def py_index_def Let_def list_ex_iff)
qed

interpretation rot: rotation_test is_rotated
  by unfold_locales (rule is_rotated_spec)

lemma is_rotated_empty: "is_rotated [] [] = Inl IndexError"
  by (simp add: is_rotated_def py_index_def)

section \<open>Permutations\<close>

lemma mset_insert_at: "mset (insert_at i x xs) = add_mset x (mset xs)"
proof -
  have "mset (take i xs) + mset (drop i xs) = mset xs"
    by (metis append_take_drop_id mset_append)
  then show ?thesis by (simp add: insert_at_def)
qed

lemma insert_at_surj:
  assumes "mset ys = add_mset x (mset zs)"
  shows "\<exists>i us. i \<le> length us \<and> mset us = mset zs \<and> ys = insert_at i x us"
proof -
  from assms have "x \<in> set ys" by (metis set_mset_mset union_single_eq_member)
  then obtain a b where ys: "ys = a @ x # b" by (auto simp: in_set_conv_decomp)
  with assms have "mset (a @ b) = mset zs" by simp
  moreover have "ys = insert_at (length a) x (a @ b)" by (simp add: ys insert_at_def)
  ultimately show ?thesis by (metis le_add1 length_append)
qed

lemma set_permutations: "set (permutations xs) = {ys. mset ys = mset xs}"
proof (induction xs rule: permutations.induct)
  case (1 item x xs)
  let ?r = "x # xs"
  have len: "us \<in> set (permutations ?r) \<Longrightarrow> length us = length ?r" for us
    using 1 by (metis (mono_tags) mem_Collect_eq size_mset)
  show ?case
  proof (intro set_eqI iffI)
    fix ys assume "ys \<in> set (permutations (item # x # xs))"
    then obtain us i where "us \<in> set (permutations ?r)" "ys = insert_at i item us"
      by auto
    with 1 show "ys \<in> {ys. mset ys = mset (item # x # xs)}"
      by (auto simp: mset_insert_at)
  next
    fix ys assume "ys \<in> {ys. mset ys = mset (item # x # xs)}"
    then obtain i us where i: "i \<le> length us" "mset us = mset ?r" "ys = insert_at i item us"
      using insert_at_surj [of ys item ?r] by auto
    with 1 have us: "us \<in> set (permutations ?r)" by simp
    with i len have "i < length (item # x # xs)" by fastforce
    with us i show "ys \<in> set (permutations (item # x # xs))"
      by (auto intro!: bexI [of _ us] image_eqI [of _ _ i] simp del: upt_Suc)
  qed
qed auto

lemma length_permutations: "length (permutations xs) = fact (length xs)"
proof (induction xs rule: permutations.induct)
  case (1 item x xs)
  have "length (permutations (item # x # xs)) = length (item # x # xs) * length (permutations (x # xs))"
    by (simp add: length_concat comp_def sum_list_triv del: upt_Suc)
  with 1 show ?case by simp
qed auto

lemma insert_at_inj:
  assumes "x \<notin> set us" "x \<notin> set vs" "i \<le> length us" "j \<le> length vs"
    and "insert_at i x us = insert_at j x vs"
  shows "i = j \<and> us = vs"
proof -
  from assms have "take i us = take j vs \<and> drop i us = drop j vs"
    unfolding insert_at_def
    by (metis append_Cons_eq_iff in_set_dropD in_set_takeD)
  with assms show ?thesis
    by (metis append_take_drop_id length_take min.absorb2)
qed

lemma distinct_permutations:
  assumes "distinct xs" shows "distinct (permutations xs)"
  using assms
proof (induction xs rule: permutations.induct)
  case (1 item x xs)
  let ?r = "x # xs" and ?n = "length (item # x # xs)"
  let ?f = "\<lambda>us. map (\<lambda>i. insert_at i item us) [0..<?n]"
  have props: "item \<notin> set us \<and> length us = length ?r" if "us \<in> set (permutations ?r)" for us
  proof -
    from that have "mset us = mset ?r" by (simp add: set_permutations)
    then show ?thesis using "1.prems" by (metis distinct.simps(2) mset_eq_setD mset_eq_length)
  qed
  have inj: "i = j \<and> us = vs"
    if "us \<in> set (permutations ?r)" "vs \<in> set (permutations ?r)" "i < ?n" "j < ?n"
      "insert_at i item us = insert_at j item vs" for i j us vs
    using that props [of us] props [of vs] by (intro insert_at_inj [of item us vs i j]) auto
  have "distinct (concat (map ?f (permutations ?r)))"
  proof (rule distinct_concat)
    have "inj_on ?f (set (permutations ?r))"
    proof (rule inj_onI)
      fix us vs
      assume a: "us \<in> set (permutations ?r)" "vs \<in> set (permutations ?r)" "?f us = ?f vs"
      have "insert_at 0 item us = insert_at 0 item vs"
        using a(3) by (metis (no_types, lifting) nth_map length_upt minus_nat.diff_0 length_greater_0_conv
            list.distinct(1) nth_upt plus_nat.add_0)
      with a inj [of us vs 0 0] show "us = vs" by simp
    qed
    with 1 show "distinct (map ?f (permutations ?r))"
      by (simp add: distinct_map del: upt_Suc)
  next
    fix ys assume "ys \<in> set (map ?f (permutations ?r))"
    then obtain us where us: "us \<in> set (permutations ?r)" "ys = ?f us" by auto
    have "inj_on (\<lambda>i. insert_at i item us) (set [0..<?n])"
      by (rule inj_onI) (use inj [OF us(1) us(1)] in auto)
    then show "distinct ys" using us by (simp add: distinct_map del: upt_Suc)
  next
    fix ys zs
    assume "ys \<in> set (map ?f (permutations ?r))" "zs \<in> set (map ?f (permutations ?r))" "ys \<noteq> zs"
    then obtain us vs where us: "us \<in> set (permutations ?r)" "ys = ?f us"
      and vs: "vs \<in> set (permutations ?r)" "zs = ?f vs" and "us \<noteq> vs" by auto
    then have "insert_at i item us \<noteq> insert_at j item vs" if "i < ?n" "j < ?n" for i j
      using inj [OF us(1) vs(1) that] by blast
    then show "set ys \<inter> set zs = {}" unfolding us(2) vs(2) by (auto simp del: upt_Suc)
  qed
  then show ?case by (simp del: upt_Suc)
qed auto

section \<open>Duplicate removal\<close>

lemma uniq_ordered_cong: "set d = set d' \<Longrightarrow> uniq_ordered d zs = uniq_ordered d' zs"
proof (induction zs arbitrary: d d')
  case (Cons x zs)
  show ?case
    using Cons.prems Cons.IH [OF Cons.prems] Cons.IH [of "d @ [x]" "d' @ [x]"] by simp
qed simp

lemma uniq_ordered_append:
  "uniq_ordered d (xs @ ys) = uniq_ordered d xs @ uniq_ordered (d @ xs) ys"
proof (induction xs arbitrary: d)
  case (Cons a xs)
  have "uniq_ordered (d @ a # xs) ys = uniq_ordered ((d @ [a]) @ xs) ys" by simp
  moreover have "uniq_ordered (d @ a # xs) ys = uniq_ordered (d @ xs) ys" if "a \<in> set d"
    using that by (intro uniq_ordered_cong) auto
  ultimately show ?case using Cons [of d] Cons [of "d @ [a]"] by simp
qed simp

lemma uniq_ordered_spec:
  "uniq_ordered d xs = filter (\<lambda>x. x \<notin> set d) (rev (remdups (rev xs)))"
  by (induction xs rule: rev_induct) (auto simp: uniq_ordered_append)

lemma uniq_keys_spec: "uniq_keys d xs = d @ uniq_ordered d xs"
  by (induction xs arbitrary: d) auto

lemma uniq_slow_spec: "uniq_slow d xs = d @ uniq_ordered d xs"
  by (induction xs arbitrary: d) auto

lemmas uniq_specs = uniq_ordered_spec uniq_keys_spec uniq_slow_spec

section \<open>Common prefixes and suffixes\<close>

lemma fixes_front_spec:
  assumes "i \<le> n" "n \<le> length s1" "n \<le> length s2" "take i s1 = take i s2" "pre = take i s1"
  shows "\<exists>k. i \<le> k \<and> k \<le> n \<and> fixes_front s1 s2 n i pre = take k s1
    \<and> take k s1 = take k s2 \<and> (k < n \<longrightarrow> s1 ! k \<noteq> s2 ! k)"
  using assms
proof (induction s1 s2 n i pre rule: fixes_front.induct)
  case (1 s1 s2 n i pre)
  show ?case
  proof (cases "i < n \<and> s1 ! i = s2 ! i")
    case True
    with "1.prems" have t: "take (i + 1) s1 = take (i + 1) s2" "pre @ [s1 ! i] = take (i + 1) s1"
      by (auto simp: take_Suc_conv_app_nth)
    with True 1 obtain k where "i + 1 \<le> k" "k \<le> n"
      "fixes_front s1 s2 n (i + 1) (pre @ [s1 ! i]) = take k s1"
      "take k s1 = take k s2" "k < n \<longrightarrow> s1 ! k \<noteq> s2 ! k"
      by force
    moreover from True have "fixes_front s1 s2 n i pre = fixes_front s1 s2 n (i + 1) (pre @ [s1 ! i])"
      by (simp add: fixes_front.simps [of s1 s2 n i pre])
    ultimately show ?thesis by (intro exI [of _ k]) simp
  next
    case False
    then have "fixes_front s1 s2 n i pre = pre"
      by (auto simp: fixes_front.simps [of s1 s2 n i pre])
    with False "1.prems" show ?thesis by (intro exI [of _ i]) auto
  qed
qed

lemma fixes_front_start:
  assumes "n = min (length s1) (length s2)"
  obtains k where "k \<le> n" "fixes_front s1 s2 n 0 [] = take k s1" "take k s1 = take k s2"
    "k < n \<longrightarrow> s1 ! k \<noteq> s2 ! k"
proof -
  have "n \<le> length s1" "n \<le> length s2" using assms by simp_all
  then show thesis using fixes_front_spec [of 0 n s1 s2 "[]"] that by force
qed

lemma fixes_back_front:
  assumes "n \<le> length s1" "n \<le> length s2"
  shows "fixes_back s1 s2 n (Suc i) suf = fixes_front (rev s1) (rev s2) n i suf"
  using assms
proof (induction "rev s1" "rev s2" n i suf rule: fixes_front.induct)
  case (1 n i suf)
  show ?case
  proof (cases "i < n")
    case True
    with "1.prems" have "rev s1 ! i = s1 ! (length s1 - Suc i)" "rev s2 ! i = s2 ! (length s2 - Suc i)"
      by (auto simp: rev_nth)
    with True 1 show ?thesis
      by (subst fixes_back.simps, subst fixes_front.simps) auto
  next
    case False
    then show ?thesis by (subst fixes_back.simps, subst fixes_front.simps) simp
  qed
qed

lemma longest_common_take:
  assumes "k \<le> min (length s1) (length s2)" "take k s1 = take k s2"
    and "k < min (length s1) (length s2) \<longrightarrow> s1 ! k \<noteq> s2 ! k"
  shows "prefix p s1 \<and> prefix p s2 \<longleftrightarrow> prefix p (take k s1)"
proof
  assume p: "prefix p s1 \<and> prefix p s2"
  then have "length p \<le> min (length s1) (length s2)" by (simp add: prefix_length_le)
  moreover have "p = take (length p) s1" "p = take (length p) s2"
    using p by (auto simp: prefix_def)
  ultimately have "length p \<le> k"
    using assms(3) by (metis linorder_not_le nth_take order_less_le_trans)
  then show "prefix p (take k s1)"
    using \<open>p = take (length p) s1\<close> by (metis take_is_prefix take_take min.absorb1)
next
  assume "prefix p (take k s1)"
  then show "prefix p s1 \<and> prefix p s2"
    using assms(2) by (metis prefix_order.trans take_is_prefix)
qed

section \<open>Transposition and dictionaries\<close>

lemma foldr_min_const: "\<forall>r \<in> set rs. length r = n \<Longrightarrow> foldr min (map length rs) n = n"
  by (induction rs) auto

lemma transpose_rect:
  assumes "\<forall>r \<in> set m. length r = n" "m \<noteq> []"
  shows "transpose_rows m = map (\<lambda>j. map (\<lambda>row. row ! j) m) [0..<n]"
  using assms by (cases m) (auto simp: transpose_rows_def foldr_min_const)

lemma reverse_dict_fold:
  "map_of (fold (\<lambda>(key, value) result. AList.update value key result) d r) v =
     (case map_of (rev (map (\<lambda>(k, v). (v, k)) d)) v of None \<Rightarrow> map_of r v | Some k \<Rightarrow> Some k)"
proof (induction d arbitrary: r)
  case (Cons a d)
  then show ?case by (cases a) (auto split: option.splits simp: map_add_def)
qed simp

lemma get_args_fold:
  "snd (fold get_arg argv (d, args)) = args @ filter (\<lambda>a. \<not> starts_with a ''-'') argv"
  by (induction argv arbitrary: d args) (auto simp: get_arg_def Let_def)

lemma transpose_involution:
  assumes "m \<noteq> []" "0 < n" "\<forall>r \<in> set m. length r = n"
  shows "transpose_rows (transpose_rows m) = m"
proof -
  let ?t = "map (\<lambda>j. map (\<lambda>row. row ! j) m) [0..<n]"
  have t: "transpose_rows m = ?t" using assms by (simp add: transpose_rect)
  have "transpose_rows ?t = map (\<lambda>i. map (\<lambda>row. row ! i) ?t) [0..<length m]"
    using assms by (intro transpose_rect) auto
  also have "\<dots> = map (\<lambda>i. m ! i) [0..<length m]"
    using assms by (intro map_cong refl) (auto intro: nth_equalityI)
  finally show ?thesis by (simp add: t map_nth)
qed

lemma reverse_dict_lookup:
  assumes "distinct (map snd d)"
  shows "map_of (reverse_dict d) v = Some k \<longleftrightarrow> (k, v) \<in> set d"
proof -
  let ?r = "rev (map (\<lambda>(k, v). (v, k)) d)"
  have "map_of (reverse_dict d) v = map_of ?r v"
    by (simp add: reverse_dict_def reverse_dict_fold split: option.splits)
  moreover have "distinct (map fst ?r)"
    using assms by (simp add: comp_def case_prod_unfold flip: rev_map)
  ultimately show ?thesis by (auto simp: map_of_eq_Some_iff)
qed

lemma get_args_positional:
  "map_of (get_args argv) ''args'' = Some (ArgList (filter (\<lambda>a. \<not> starts_with a ''-'') argv))"
  using get_args_fold [of argv "[]" "[]"] by (simp add: get_args_def split_beta)

section \<open>Properties\<close>

text \<open>\<^verbatim>\<open>is_rotated(seq1, seq2)\<close> answers exactly whether the second sequence is a rotation
  of the first, except on two empty sequences, where reading the head item raises
  \<^verbatim>\<open>IndexError\<close>.\<close>

theorem is_rotated_correct:
  "is_rotated seq1 seq2 =
     (if seq1 = [] \<and> seq2 = [] then Inl IndexError else Inr (\<exists>n. rotate n seq1 = seq2))"
proof (cases "seq2 = []")
  case True
  then show ?thesis by (cases "seq1 = []") (auto simp: py_index_def is_rotated_def)
next
  case False
  then show ?thesis using rot.rot_spec by auto
qed

text \<open>\<^verbatim>\<open>permutations(input_list)\<close> lists exactly the rearrangements of the list, \<^verbatim>\<open>n!\<close> of
  them, without repetition when the items are distinct.\<close>

theorem permutations_correct:
  "set (permutations xs) = {ys. mset ys = mset xs}
   \<and> length (permutations xs) = fact (length xs)
   \<and> (distinct xs \<longrightarrow> distinct (permutations xs))"
  by (simp add: set_permutations length_permutations distinct_permutations)

theorem permutations_correct_witness:
  "distinct [1 :: nat, 2, 3] \<and> length (permutations [1 :: nat, 2, 3]) = 6
   \<and> distinct (permutations [1 :: nat, 2, 3]) \<and> [3, 1, 2] \<in> set (permutations [1 :: nat, 2, 3])"
  using permutations_correct [of "[1 :: nat, 2, 3]"] by (auto simp: fact_numeral)

text \<open>\<^verbatim>\<open>uniquify\<close> returns every item of the sequence exactly once on each of its three
  paths, and the order-preserving path and the path for unhashable items keep the first
  occurrences in their order.\<close>

theorem uniquify_correct:
  assumes "mset (key_order (uniq_keys [] seq)) = mset (uniq_keys [] seq)"
  shows "distinct (uniquify key_order hashable seq preserve_order)
    \<and> set (uniquify key_order hashable seq preserve_order) = set seq
    \<and> (preserve_order \<or> \<not> list_all hashable seq
        \<longrightarrow> uniquify key_order hashable seq preserve_order = rev (remdups (rev seq)))"
proof -
  have k: "uniq_keys [] seq = rev (remdups (rev seq))" by (simp add: uniq_specs)
  have "distinct (key_order (uniq_keys [] seq))" "set (key_order (uniq_keys [] seq)) = set seq"
    using assms by (metis k distinct_remdups distinct_rev mset_eq_imp_distinct_iff,
        metis assms k mset_eq_setD set_remdups set_rev)
  then show ?thesis by (auto simp: uniquify_def uniq_specs)
qed

theorem uniquify_correct_witness:
  "mset (rev (uniq_keys [] [3 :: nat, 3, 1, 2])) = mset (uniq_keys [] [3, 3, 1, 2])
   \<and> set (uniquify rev (\<lambda>_. True) [3 :: nat, 3, 1, 2] False) = {1, 2, 3}
   \<and> distinct (uniquify rev (\<lambda>_. True) [3 :: nat, 3, 1, 2] False)"
  using uniquify_correct [of rev "[3 :: nat, 3, 1, 2]" "\<lambda>_. True" False] by auto

text \<open>\<^verbatim>\<open>find_common_fixes(s1, s2)\<close> returns the longest common prefix and the longest common
  suffix of the two strings.\<close>

theorem find_common_fixes_longest:
  "(prefix p s1 \<and> prefix p s2 \<longleftrightarrow> prefix p (fst (find_common_fixes s1 s2)))
   \<and> (suffix q s1 \<and> suffix q s2 \<longleftrightarrow> suffix q (snd (find_common_fixes s1 s2)))"
proof
  let ?n = "min (length s1) (length s2)"
  obtain k where k: "k \<le> ?n" "fixes_front s1 s2 ?n 0 [] = take k s1" "take k s1 = take k s2"
    "k < ?n \<longrightarrow> s1 ! k \<noteq> s2 ! k"
    by (rule fixes_front_start [OF refl])
  show "prefix p s1 \<and> prefix p s2 \<longleftrightarrow> prefix p (fst (find_common_fixes s1 s2))"
    using longest_common_take [OF k(1,3,4)] k(2) by (simp add: find_common_fixes_def)
  obtain j where j: "j \<le> ?n" "fixes_front (rev s1) (rev s2) ?n 0 [] = take j (rev s1)"
    "take j (rev s1) = take j (rev s2)" "j < ?n \<longrightarrow> rev s1 ! j \<noteq> rev s2 ! j"
    by (rule fixes_front_start [of ?n "rev s1" "rev s2"]) auto
  have "prefix (rev q) (rev s1) \<and> prefix (rev q) (rev s2) \<longleftrightarrow> prefix (rev q) (take j (rev s1))"
    using j by (intro longest_common_take) auto
  then show "suffix q s1 \<and> suffix q s2 \<longleftrightarrow> suffix q (snd (find_common_fixes s1 s2))"
    using j(2) fixes_back_front [of ?n s1 s2 0 "[]"]
    by (simp add: find_common_fixes_def suffix_to_prefix)
qed

end
