(* ===== verification/Find_Cycles.thy ===== *)
theory Find_Cycles
  imports Rad_Seq
begin

text \<open>
  \<^verbatim>\<open>find_cycles\<close> of \<^verbatim>\<open>bindings/python/topsort.py\<close>: a generator of the cycles of a graph given
  as a dictionary from each item to its children. The model returns the list of the cycles in
  the order they are yielded. \<open>cycles_loop\<close> is the \<^verbatim>\<open>while paths\<close> loop over the stack of simple
  paths; it terminates because every pushed path contains one more child of the graph.
  The duplicate check rests on the interface \<open>rotation_test\<close> of \<^verbatim>\<open>is_rotated\<close>.

  The theorems: only elementary cycles are yielded, no two of them are rotations of one
  another, and every elementary cycle of the graph is yielded up to rotation.
\<close>

section \<open>The generator\<close>

type_synonym 'a graph = "('a \<times> 'a list) list"

text \<open>The loop over the cycles found so far, left at the first rotation.\<close>

fun dup_cycle :: "'a list list \<Rightarrow> 'a list \<Rightarrow> bool res" where
  "dup_cycle [] cycle = Inr False"
| "dup_cycle (other_cycle # rest) cycle =
     res_bind (is_rotated other_cycle cycle) (\<lambda>is_dup.
       if is_dup then Inr True else dup_cycle rest cycle)"

text \<open>The body of \<^verbatim>\<open>for child in children\<close>; the state is (cycles, paths, visited nodes).\<close>

fun visit_child ::
    "'a list \<Rightarrow> 'a \<Rightarrow> 'a list list \<times> 'a list list \<times> 'a list
      \<Rightarrow> ('a list list \<times> 'a list list \<times> 'a list) res" where
  "visit_child path child (cycles, paths, visited) =
     (if child \<in> set path
      then let cycle = dropWhile (\<lambda>x. x \<noteq> child) path
           in res_bind (dup_cycle cycles cycle) (\<lambda>is_dup.
                Inr (if is_dup then cycles else cycles @ [cycle], paths, visited))
      else Inr (cycles, paths @ [path @ [child]], List.insert child visited))"

declare visit_child.simps [simp del]

text \<open>The weight of a stack, which every iteration lowers: a path weighs the more the fewer
  children of the graph it contains.\<close>

definition all_children :: "'a graph \<Rightarrow> 'a set" where
  "all_children G = (\<Union>cs \<in> snd ` set G. set cs)"

definition max_branch :: "'a graph \<Rightarrow> nat" where
  "max_branch G = sum_list (map (\<lambda>e. length (snd e)) G)"

definition path_weight :: "'a graph \<Rightarrow> 'a list \<Rightarrow> nat" where
  "path_weight G path = (max_branch G + 1) ^ card (all_children G - set path)"

definition stack_weight :: "'a graph \<Rightarrow> 'a list list \<Rightarrow> nat" where
  "stack_weight G paths = sum_list (map (path_weight G) paths)"

lemma visit_children_paths:
  "res_fold (visit_child path) cs (cycles, paths, visited) = Inr (cycles', paths', visited') \<Longrightarrow>
     paths' = paths @ map (\<lambda>c. path @ [c]) (filter (\<lambda>c. c \<notin> set path) cs)"
proof (induction cs arbitrary: cycles paths visited)
  case (Cons c cs)
  from Cons.prems obtain s where s: "visit_child path c (cycles, paths, visited) = Inr s"
    "res_fold (visit_child path) cs s = Inr (cycles', paths', visited')"
    by (auto simp: res_simps)
  obtain cy ps vs where "s = (cy, ps, vs)" by (cases s)
  with s Cons.IH [of cy ps vs] show ?case
    by (auto simp: visit_child.simps Let_def res_simps split: if_splits)
qed simp

lemma children_bounds:
  assumes "map_of G x = Some cs"
  shows "length cs \<le> max_branch G" and "set cs \<subseteq> all_children G"
proof -
  have "(x, cs) \<in> set G" using assms by (rule map_of_SomeD)
  then show "length cs \<le> max_branch G"
    unfolding max_branch_def by (force intro: member_le_sum_list)
  show "set cs \<subseteq> all_children G"
    using \<open>(x, cs) \<in> set G\<close> by (force simp: all_children_def)
qed

lemma finite_all_children [simp]: "finite (all_children G)"
  by (simp add: all_children_def)

lemma pushed_weight:
  assumes "set cs \<subseteq> all_children G" "length cs \<le> max_branch G"
  shows "stack_weight G (map (\<lambda>c. path @ [c]) (filter (\<lambda>c. c \<notin> set path) cs)) < path_weight G path"
proof (cases "filter (\<lambda>c. c \<notin> set path) cs")
  case Nil
  then show ?thesis by (simp add: stack_weight_def path_weight_def)
next
  case (Cons d ds)
  let ?new = "filter (\<lambda>c. c \<notin> set path) cs"
  let ?k = "card (all_children G - set path)" and ?B = "max_branch G"
  have w: "path_weight G (path @ [c]) = (?B + 1) ^ (?k - 1)" if "c \<in> set ?new" for c
  proof -
    have "all_children G - set (path @ [c]) = (all_children G - set path) - {c}" by auto
    moreover have "c \<in> all_children G - set path" using that assms(1) by auto
    ultimately show ?thesis by (simp add: path_weight_def)
  qed
  have "d \<in> set ?new" by (simp add: Cons)
  then have "d \<in> all_children G - set path" using assms(1) by auto
  then have k: "0 < ?k" by (metis card_gt_0_iff emptyE finite_Diff finite_all_children)
  have "stack_weight G (map (\<lambda>c. path @ [c]) ?new) = (\<Sum>c \<leftarrow> ?new. (?B + 1) ^ (?k - 1))"
    unfolding stack_weight_def map_map comp_def
    by (intro arg_cong [where f = sum_list] map_cong refl w)
  also have "\<dots> = length ?new * (?B + 1) ^ (?k - 1)" by (simp add: sum_list_triv)
  also have "\<dots> \<le> ?B * (?B + 1) ^ (?k - 1)"
    by (intro mult_right_mono order.trans [OF length_filter_le assms(2)]) simp
  also have "\<dots> < (?B + 1) * (?B + 1) ^ (?k - 1)" by simp
  also have "\<dots> = (?B + 1) ^ ?k" using k by (simp flip: power_Suc)
  finally show ?thesis by (simp add: path_weight_def)
qed

lemma stack_weight_append [simp]:
  "stack_weight G (ps @ qs) = stack_weight G ps + stack_weight G qs"
  by (simp add: stack_weight_def)

lemma stack_weight_butlast:
  "paths \<noteq> [] \<Longrightarrow> stack_weight G paths = stack_weight G (butlast paths) + path_weight G (last paths)"
  by (induction paths rule: rev_induct) (simp_all add: stack_weight_def)

function cycles_loop ::
    "'a graph \<Rightarrow> 'a list list \<Rightarrow> 'a list list \<Rightarrow> 'a list \<Rightarrow> ('a list list \<times> 'a list) res" where
  "cycles_loop G paths cycles visited =
     (if paths = [] then Inr (cycles, visited)
      else let path = last paths; rest = butlast paths
        in if path = [] then Inl IndexError
           else (case map_of G (last path) of
                   None \<Rightarrow> cycles_loop G rest cycles visited
                 | Some cs \<Rightarrow>
                     (case res_fold (visit_child path) cs (cycles, rest, visited) of
                        Inl e \<Rightarrow> Inl e
                      | Inr (cycles', paths', visited') \<Rightarrow>
                          cycles_loop G paths' cycles' visited')))"
  by pat_completeness auto
termination
proof (relation "measure (\<lambda>(G, paths, c, v). stack_weight G paths)", goal_cases)
  case 1
  then show ?case by simp
next
  case (2 G paths cycles visited path rest)
  have "0 < path_weight G path" by (simp add: path_weight_def)
  with 2 show ?case by (simp add: stack_weight_butlast)
next
  case (3 G paths cycles visited path rest cs t cycles' pv paths' visited')
  then have "paths' = rest @ map (\<lambda>c. path @ [c]) (filter (\<lambda>c. c \<notin> set path) cs)"
    by (auto dest: visit_children_paths)
  with 3 pushed_weight [of cs G path] children_bounds [of G "last path" cs]
  show ?case by (simp add: stack_weight_butlast)
qed

declare cycles_loop.simps [simp del]

text \<open>The outer loop over the items of the dictionary.\<close>

definition visit_root ::
    "'a graph \<Rightarrow> 'a \<Rightarrow> 'a list list \<times> 'a list \<Rightarrow> ('a list list \<times> 'a list) res" where
  "visit_root G parent = (\<lambda>(cycles, visited).
     if parent \<in> set visited then Inr (cycles, visited)
     else cycles_loop G [[parent]] cycles visited)"

definition find_cycles :: "'a graph \<Rightarrow> 'a list list res" where
  "find_cycles parent_children =
     res_bind (res_fold (visit_root parent_children) (map fst parent_children) ([], []))
       (\<lambda>(cycles, visited). Inr cycles)"

section \<open>Paths and cycles of a graph\<close>

definition edge :: "'a graph \<Rightarrow> 'a \<Rightarrow> 'a \<Rightarrow> bool" where
  "edge G a b = (\<exists>cs. map_of G a = Some cs \<and> b \<in> set cs)"

definition simple_path :: "'a graph \<Rightarrow> 'a list \<Rightarrow> bool" where
  "simple_path G p = (p \<noteq> [] \<and> distinct p \<and> successively (edge G) p)"

definition elementary_cycle :: "'a graph \<Rightarrow> 'a list \<Rightarrow> bool" where
  "elementary_cycle G c = (simple_path G c \<and> edge G (last c) (hd c))"

definition rotation :: "'a list \<Rightarrow> 'a list \<Rightarrow> bool" where
  "rotation xs ys = (\<exists>n. rotate n xs = ys)"

definition found :: "'a list list \<Rightarrow> 'a list \<Rightarrow> bool" where
  "found cycles c = (\<exists>d \<in> set cycles. rotation d c)"

text \<open>The invariant of the list of cycles.\<close>

definition cycles_ok :: "'a graph \<Rightarrow> 'a list list \<Rightarrow> bool" where
  "cycles_ok G cycles =
     ((\<forall>c \<in> set cycles. elementary_cycle G c) \<and> sorted_wrt (\<lambda>c d. \<not> rotation c d) cycles)"

section \<open>The duplicate check\<close>

lemma dup_cycle_spec:
  assumes "c \<noteq> []" shows "dup_cycle cycles c = Inr (found cycles c)"
  using assms
  by (induction cycles) (auto simp: found_def rotation_def rot.rot_spec)

lemma cycle_of_path:
  assumes "simple_path G p" "c \<in> set p" "edge G (last p) c"
  shows "elementary_cycle G (dropWhile (\<lambda>x. x \<noteq> c) p)"
proof -
  let ?d = "dropWhile (\<lambda>x. x \<noteq> c) p"
  obtain us vs where p: "p = us @ c # vs" "c \<notin> set us"
    using split_list_first [OF assms(2)] by blast
  then have d: "?d = c # vs" by (simp add: dropWhile_append)
  with assms p show ?thesis
    by (auto simp: elementary_cycle_def simple_path_def successively_append_iff)
qed

lemma dropWhile_not_Nil: "c \<in> set p \<Longrightarrow> dropWhile (\<lambda>x. x \<noteq> c) p \<noteq> []"
  by (auto simp: dropWhile_eq_Nil_conv)

text \<open>One child: it never raises, keeps the invariant, and the cycle it closes is found.\<close>

lemma visit_child_step:
  assumes ok: "cycles_ok G cycles" and p: "simple_path G p" and e: "edge G (last p) c"
  shows "\<exists>cycles' visited'.
    visit_child p c (cycles, paths, visited) =
      Inr (cycles', if c \<in> set p then paths else paths @ [p @ [c]], visited')
    \<and> cycles_ok G cycles' \<and> set cycles \<subseteq> set cycles'
    \<and> set visited' = (if c \<in> set p then set visited else insert c (set visited))
    \<and> (c \<in> set p \<longrightarrow> found cycles' (dropWhile (\<lambda>x. x \<noteq> c) p))"
proof (cases "c \<in> set p")
  case True
  let ?d = "dropWhile (\<lambda>x. x \<noteq> c) p"
  let ?cs = "if found cycles ?d then cycles else cycles @ [?d]"
  have dup: "dup_cycle cycles ?d = Inr (found cycles ?d)"
    by (rule dup_cycle_spec [OF dropWhile_not_Nil [OF True]])
  have "elementary_cycle G ?d" by (rule cycle_of_path [OF p True e])
  with ok have "cycles_ok G ?cs" by (auto simp: cycles_ok_def sorted_wrt_append found_def)
  moreover have "rotation ?d ?d" unfolding rotation_def by (rule exI [of _ 0]) simp
  then have "found ?cs ?d" by (auto simp: found_def)
  moreover have "set cycles \<subseteq> set ?cs" by auto
  ultimately show ?thesis using True dup
    by (intro exI [of _ ?cs] exI [of _ visited]) (simp add: visit_child.simps Let_def)
next
  case False
  with ok show ?thesis by (auto simp: visit_child.simps)
qed

lemma visit_children_step:
  assumes "cycles_ok G cycles" "simple_path G p" "\<forall>c \<in> set cs. edge G (last p) c"
  shows "\<exists>cycles' visited'.
    res_fold (visit_child p) cs (cycles, paths, visited) =
      Inr (cycles', paths @ map (\<lambda>c. p @ [c]) (filter (\<lambda>c. c \<notin> set p) cs), visited')
    \<and> cycles_ok G cycles' \<and> set cycles \<subseteq> set cycles'
    \<and> set visited' = set visited \<union> (set cs - set p)
    \<and> (\<forall>c \<in> set cs \<inter> set p. found cycles' (dropWhile (\<lambda>x. x \<noteq> c) p))"
  using assms
proof (induction cs arbitrary: cycles paths visited)
  case (Cons c cs)
  obtain cy vs where one: "visit_child p c (cycles, paths, visited) =
      Inr (cy, if c \<in> set p then paths else paths @ [p @ [c]], vs)"
    "cycles_ok G cy" "set cycles \<subseteq> set cy"
    "set vs = (if c \<in> set p then set visited else insert c (set visited))"
    "c \<in> set p \<longrightarrow> found cy (dropWhile (\<lambda>x. x \<noteq> c) p)"
    using visit_child_step [of G cycles p c paths visited] Cons.prems by auto
  obtain cy' vs' where rest: "res_fold (visit_child p) cs
      (cy, if c \<in> set p then paths else paths @ [p @ [c]], vs) =
      Inr (cy', (if c \<in> set p then paths else paths @ [p @ [c]])
        @ map (\<lambda>c. p @ [c]) (filter (\<lambda>c. c \<notin> set p) cs), vs')"
    "cycles_ok G cy'" "set cy \<subseteq> set cy'" "set vs' = set vs \<union> (set cs - set p)"
    "\<forall>c \<in> set cs \<inter> set p. found cy' (dropWhile (\<lambda>x. x \<noteq> c) p)"
    using Cons.IH [OF one(2)] Cons.prems by fastforce
  have "c \<in> set p \<longrightarrow> found cy' (dropWhile (\<lambda>x. x \<noteq> c) p)"
    using one(5) rest(3) by (auto simp: found_def)
  then show ?case using one rest by (cases "c \<in> set p") auto
qed simp

section \<open>The loop over the stack\<close>

definition stack_ok :: "'a graph \<Rightarrow> 'a \<Rightarrow> 'a list list \<Rightarrow> bool" where
  "stack_ok G r paths = (\<forall>p \<in> set paths. simple_path G p \<and> hd p = r)"

text \<open>Every cycle that a simple extension of \<open>p\<close> closes is found.\<close>

definition explored :: "'a graph \<Rightarrow> 'a list list \<Rightarrow> 'a list \<Rightarrow> bool" where
  "explored G cycles p =
     (\<forall>ext c. simple_path G (p @ ext) \<longrightarrow> c \<in> set (p @ ext) \<longrightarrow> edge G (last (p @ ext)) c
        \<longrightarrow> found cycles (dropWhile (\<lambda>x. x \<noteq> c) (p @ ext)))"

lemma explored_children:
  assumes "\<forall>c. edge G (last p) c \<longrightarrow> c \<in> set p \<longrightarrow> found cycles (dropWhile (\<lambda>x. x \<noteq> c) p)"
    and "\<forall>c. edge G (last p) c \<longrightarrow> c \<notin> set p \<longrightarrow> explored G cycles (p @ [c])" and "p \<noteq> []"
  shows "explored G cycles p"
  unfolding explored_def
proof (intro allI impI)
  fix ext c
  assume a: "simple_path G (p @ ext)" "c \<in> set (p @ ext)" "edge G (last (p @ ext)) c"
  show "found cycles (dropWhile (\<lambda>x. x \<noteq> c) (p @ ext))"
  proof (cases ext)
    case Nil
    with a assms(1) show ?thesis by auto
  next
    case (Cons d ds)
    with a assms(3) have "edge G (last p) d" "d \<notin> set p"
      by (auto simp: simple_path_def successively_append_iff)
    with assms(2) have "explored G cycles (p @ [d])" by blast
    with a Cons show ?thesis by (auto simp: explored_def)
  qed
qed

lemma simple_path_snoc:
  "simple_path G p \<Longrightarrow> edge G (last p) c \<Longrightarrow> c \<notin> set p \<Longrightarrow> simple_path G (p @ [c])"
  by (auto simp: simple_path_def successively_append_iff)

lemma cycles_loop_correct:
  assumes "cycles_ok G cycles" "stack_ok G r paths"
  shows "\<exists>cycles' visited'. cycles_loop G paths cycles visited = Inr (cycles', visited')
    \<and> cycles_ok G cycles' \<and> set cycles \<subseteq> set cycles' \<and> set visited \<subseteq> set visited'
    \<and> (\<forall>p \<in> set paths. explored G cycles' p)
    \<and> (\<forall>x \<in> set visited' - set visited. \<exists>q. simple_path G q \<and> hd q = r \<and> last q = x)"
  using assms
proof (induction "stack_weight G paths" arbitrary: paths cycles visited rule: less_induct)
  case less
  show ?case
  proof (cases "paths = []")
    case True
    with less.prems show ?thesis by (subst cycles_loop.simps) auto
  next
    case False
    let ?p = "last paths" and ?rest = "butlast paths"
    have split: "set paths = insert ?p (set ?rest)"
      using False by (metis append_butlast_last_id list.simps(15) rotate1.simps(2) set_rotate1)
    have p: "simple_path G ?p" "hd ?p = r" and rest: "stack_ok G r ?rest"
      using less.prems(2) False split by (auto simp: stack_ok_def)
    then have ne: "?p \<noteq> []" by (simp add: simple_path_def)
    show ?thesis
    proof (cases "map_of G (last ?p)")
      case None
      then have step: "cycles_loop G paths cycles visited = cycles_loop G ?rest cycles visited"
        using False ne by (simp add: cycles_loop.simps [of G paths] Let_def)
      have "stack_weight G ?rest < stack_weight G paths"
        using False by (simp add: stack_weight_butlast path_weight_def)
      from less.hyps [OF this less.prems(1) rest] obtain cy vs where
        "cycles_loop G ?rest cycles visited = Inr (cy, vs)" "cycles_ok G cy" "set cycles \<subseteq> set cy"
        "set visited \<subseteq> set vs" "\<forall>p \<in> set ?rest. explored G cy p"
        "\<forall>x \<in> set vs - set visited. \<exists>q. simple_path G q \<and> hd q = r \<and> last q = x"
        by blast
      moreover have "explored G cy ?p"
        using None ne by (intro explored_children) (auto simp: edge_def)
      ultimately show ?thesis using step split by auto
    next
      case (Some cs)
      then have edges: "edge G (last ?p) c \<longleftrightarrow> c \<in> set cs" for c by (simp add: edge_def)
      let ?new = "map (\<lambda>c. ?p @ [c]) (filter (\<lambda>c. c \<notin> set ?p) cs)"
      obtain cy vs where kids: "res_fold (visit_child ?p) cs (cycles, ?rest, visited) =
          Inr (cy, ?rest @ ?new, vs)" "cycles_ok G cy" "set cycles \<subseteq> set cy"
        "set vs = set visited \<union> (set cs - set ?p)"
        "\<forall>c \<in> set cs \<inter> set ?p. found cy (dropWhile (\<lambda>x. x \<noteq> c) ?p)"
        using visit_children_step [OF less.prems(1) p(1), of cs ?rest visited] edges by blast
      have step: "cycles_loop G paths cycles visited = cycles_loop G (?rest @ ?new) cy vs"
        using False ne Some kids(1) by (simp add: cycles_loop.simps [of G paths] Let_def)
      have "stack_weight G (?rest @ ?new) < stack_weight G paths"
        using False pushed_weight [of cs G ?p] children_bounds [OF Some]
        by (simp add: stack_weight_butlast)
      moreover have "stack_ok G r (?rest @ ?new)"
        using rest p edges ne by (auto simp: stack_ok_def intro: simple_path_snoc)
      ultimately obtain cy' vs' where
        loop: "cycles_loop G (?rest @ ?new) cy vs = Inr (cy', vs')" "cycles_ok G cy'"
        "set cy \<subseteq> set cy'" "set vs \<subseteq> set vs'" "\<forall>p \<in> set (?rest @ ?new). explored G cy' p"
        "\<forall>x \<in> set vs' - set vs. \<exists>q. simple_path G q \<and> hd q = r \<and> last q = x"
        using less.hyps [OF _ kids(2)] by blast
      have "explored G cy' ?p"
      proof (rule explored_children [OF _ _ ne])
        show "\<forall>c. edge G (last ?p) c \<longrightarrow> c \<in> set ?p \<longrightarrow> found cy' (dropWhile (\<lambda>x. x \<noteq> c) ?p)"
          using edges kids(5) loop(3) by (fastforce simp: found_def)
        show "\<forall>c. edge G (last ?p) c \<longrightarrow> c \<notin> set ?p \<longrightarrow> explored G cy' (?p @ [c])"
          using edges loop(5) by auto
      qed
      moreover have "\<exists>q. simple_path G q \<and> hd q = r \<and> last q = x"
        if "x \<in> set vs' - set visited" for x
      proof (cases "x \<in> set vs")
        case True
        with that kids(4) have "x \<in> set cs - set ?p" by auto
        then have "simple_path G (?p @ [x])" using p(1) edges by (intro simple_path_snoc) auto
        with p(2) ne show ?thesis by (intro exI [of _ "?p @ [x]"]) simp
      next
        case False
        with that loop(6) show ?thesis by blast
      qed
      ultimately show ?thesis using step loop kids split by auto
    qed
  qed
qed

section \<open>Completeness\<close>

text \<open>A cycle that a simple path from the root reaches is found: follow the path to its first
  node on the cycle, then the cycle.\<close>

lemma elementary_cycle_rotate:
  assumes "elementary_cycle G (us @ ws)" "ws \<noteq> []"
  shows "simple_path G (ws @ us)" and "edge G (last (ws @ us)) (hd ws)"
proof -
  have e: "edge G (last ws) (hd (us @ ws))" "distinct (us @ ws)" "successively (edge G) (us @ ws)"
    using assms by (auto simp: elementary_cycle_def simple_path_def)
  then show "simple_path G (ws @ us)"
    using assms(2) by (cases "us = []") (auto simp: simple_path_def successively_append_iff)
  show "edge G (last (ws @ us)) (hd ws)"
    using e assms(2) by (cases "us = []") (auto simp: successively_append_iff)
qed

lemma rotation_trans: "rotation a b \<Longrightarrow> rotation b c \<Longrightarrow> rotation a c"
  unfolding rotation_def by (metis rotate_rotate)

lemma reached_cycle_found:
  assumes ex: "explored G cycles [r]" and q: "simple_path G q" "hd q = r"
    and c: "elementary_cycle G c" "last q \<in> set c"
  shows "found cycles c"
proof -
  have "\<exists>x \<in> set q. x \<in> set c" using q c(2) by (auto simp: simple_path_def)
  then obtain q1 y q2 where qs: "q = q1 @ y # q2" "y \<in> set c" "\<forall>x \<in> set q1. x \<notin> set c"
    using split_list_first_prop [of q "\<lambda>x. x \<in> set c"] by blast
  obtain us vs where us: "c = us @ y # vs" using qs(2) by (meson split_list)
  let ?d = "y # vs @ us"
  have d: "simple_path G ?d" "edge G (last ?d) y"
    using elementary_cycle_rotate [OF c(1) [unfolded us]] by simp_all
  have sd: "set ?d = set c" by (auto simp: us)
  have path: "simple_path G (q1 @ ?d)"
    using q(1) d(1) qs(3) sd unfolding qs(1) simple_path_def
    by (auto simp: successively_append_iff)
  have "q1 @ ?d = [r] @ tl (q1 @ ?d)"
    using q(2) unfolding qs(1) by (cases q1) auto
  moreover have "dropWhile (\<lambda>x. x \<noteq> y) (q1 @ ?d) = ?d"
    using qs(2,3) by (auto simp: dropWhile_append)
  ultimately have "found cycles ?d"
    using ex path d(2) unfolding explored_def
    by (metis append_is_Nil_conv in_set_conv_decomp last_append list.distinct(1))
  moreover have "rotation ?d c"
    unfolding rotation_def us using rotate_append [of "y # vs" us] by (metis append_Cons)
  ultimately show ?thesis unfolding found_def using rotation_trans by blast
qed

text \<open>After the outer loop every root, visited earlier or not, has its cycles found.\<close>

definition cycles_through_found :: "'a graph \<Rightarrow> 'a list list \<Rightarrow> 'a \<Rightarrow> bool" where
  "cycles_through_found G cycles x = (\<forall>c. elementary_cycle G c \<longrightarrow> x \<in> set c \<longrightarrow> found cycles c)"

lemma visit_root_step:
  assumes ok: "cycles_ok G cycles" and vis: "\<forall>x \<in> set visited. cycles_through_found G cycles x"
  shows "\<exists>cycles' visited'. visit_root G r (cycles, visited) = Inr (cycles', visited')
    \<and> cycles_ok G cycles' \<and> set cycles \<subseteq> set cycles'
    \<and> (\<forall>x \<in> insert r (set visited'). cycles_through_found G cycles' x)"
proof (cases "r \<in> set visited")
  case True
  with ok vis show ?thesis by (auto simp: visit_root_def)
next
  case False
  have r: "simple_path G [r]" by (simp add: simple_path_def)
  then have "stack_ok G r [[r]]" by (simp add: stack_ok_def)
  from cycles_loop_correct [OF ok this, of visited] obtain cy vs where
    loop: "cycles_loop G [[r]] cycles visited = Inr (cy, vs)" "cycles_ok G cy"
    "set cycles \<subseteq> set cy" and ex: "explored G cy [r]"
    and reach: "\<forall>x \<in> set vs - set visited. \<exists>q. simple_path G q \<and> hd q = r \<and> last q = x"
    by auto
  have "cycles_through_found G cy x" if "x \<in> insert r (set vs)" for x
  proof (cases "x \<in> set visited")
    case True
    with vis loop(3) show ?thesis by (fastforce simp: cycles_through_found_def found_def)
  next
    case False
    then have "\<exists>q. simple_path G q \<and> hd q = r \<and> last q = x"
      using that reach r by (cases "x = r") (force intro: exI [of _ "[r]"])+
    then show ?thesis
      using reached_cycle_found [OF ex] unfolding cycles_through_found_def by blast
  qed
  with False loop show ?thesis by (simp add: visit_root_def)
qed

lemma visit_roots_fold:
  assumes "cycles_ok G cycles" "\<forall>x \<in> set visited. cycles_through_found G cycles x"
  shows "\<exists>cycles' visited'. res_fold (visit_root G) rs (cycles, visited) = Inr (cycles', visited')
    \<and> cycles_ok G cycles' \<and> set cycles \<subseteq> set cycles'
    \<and> (\<forall>x \<in> set rs \<union> set visited'. cycles_through_found G cycles' x)"
  using assms
proof (induction rs arbitrary: cycles visited)
  case (Cons r rs)
  obtain cy vs where one: "visit_root G r (cycles, visited) = Inr (cy, vs)" "cycles_ok G cy"
    "set cycles \<subseteq> set cy" "\<forall>x \<in> insert r (set vs). cycles_through_found G cy x"
    using visit_root_step [OF Cons.prems, of r] by blast
  obtain cy' vs' where two: "res_fold (visit_root G) rs (cy, vs) = Inr (cy', vs')"
    "cycles_ok G cy'" "set cy \<subseteq> set cy'" "\<forall>x \<in> set rs \<union> set vs'. cycles_through_found G cy' x"
    using Cons.IH [OF one(2), of vs] one(4) by blast
  have "cycles_through_found G cy' r"
    using one(4) two(3) by (fastforce simp: cycles_through_found_def found_def)
  with one two show ?case by auto
qed auto

lemma find_cycles_result:
  "\<exists>cycles. find_cycles G = Inr cycles \<and> cycles_ok G cycles
     \<and> (\<forall>c. elementary_cycle G c \<longrightarrow> found cycles c)"
proof -
  have "cycles_ok G []" by (simp add: cycles_ok_def)
  from visit_roots_fold [OF this, of "[]" "map fst G"] obtain cy vs where
    r: "res_fold (visit_root G) (map fst G) ([], []) = Inr (cy, vs)" "cycles_ok G cy"
    "\<forall>x \<in> set (map fst G). cycles_through_found G cy x" by auto
  have "found cy c" if c: "elementary_cycle G c" for c
  proof -
    have "edge G (last c) (hd c)" "c \<noteq> []"
      using c by (auto simp: elementary_cycle_def simple_path_def)
    then have "last c \<in> set (map fst G)" "last c \<in> set c"
      by (auto simp: edge_def dest!: map_of_SomeD intro: rev_image_eqI)
    then show ?thesis using r(3) c unfolding cycles_through_found_def by blast
  qed
  with r show ?thesis by (simp add: find_cycles_def)
qed

section \<open>Properties\<close>

text \<open>C2: \<^verbatim>\<open>find_cycles\<close> terminates without raising on every graph; it yields only elementary
  cycles of the graph (the last item of each is a parent of its first), never two rotations of
  the same cycle, and every elementary cycle of the graph up to rotation.\<close>

theorem find_cycles_correct:
  "\<exists>cycles. find_cycles G = Inr cycles
     \<and> list_all (elementary_cycle G) cycles
     \<and> sorted_wrt (\<lambda>c d. \<not> rotation c d) cycles
     \<and> {c. elementary_cycle G c} \<subseteq> {c. \<exists>d \<in> set cycles. rotation d c}"
  using find_cycles_result [of G] by (auto simp: cycles_ok_def found_def list_all_iff)

end
