(* ===== verification/Topsort.thy ===== *)
theory Topsort
  imports Rad_Seq
begin

text \<open>
  \<^verbatim>\<open>bindings/python/topsort.py\<close>: dependency sorting of (parent, child) pairs, flat
  (\<^verbatim>\<open>topsort\<close>) and by levels (\<^verbatim>\<open>topsort_levels\<close>), and its client, the module ordering of
  \<^verbatim>\<open>ns3_module_scan\<close> in \<^verbatim>\<open>bindings/python/ns3modulescan.py\<close>.

  The two dictionaries of the code are the record \<open>dep_tables\<close>. The module is Python 2 code:
  \<^verbatim>\<open>has_key\<close> is membership and the order in which \<^verbatim>\<open>keys()\<close> lists a dictionary is not
  specified, so it is the argument \<open>key_order\<close>, of which the theorems assume only that it
  permutes its argument. A \<^verbatim>\<open>for\<close> over a list that grows in the loop is a recursion over the
  items not yet visited. The locale \<open>dependency_sorter\<close> is what a client of the sorting
  functions relies on; both functions are instances of it.
\<close>

section \<open>The dependency tables\<close>

record 'a dep_tables =
  num_parents :: "('a \<times> int) list"
  children :: "('a \<times> 'a list) list"

datatype 'a top_error =
    CycleError "'a list" "('a \<times> int) list" "('a \<times> 'a list) list"
  | LevelCycleError "('a \<times> int) list" "('a \<times> 'a list) list"
  | MissingKey 'a

definition has_key :: "('a \<times> 'b) list \<Rightarrow> 'a \<Rightarrow> bool" where
  "has_key d k = (map_of d k \<noteq> None)"

text \<open>The body of the loop over the pairs.\<close>

definition add_pair :: "'a \<times> 'a \<Rightarrow> 'a dep_tables \<Rightarrow> 'a dep_tables" where
  "add_pair = (\<lambda>(parent, child) t.
     let np = num_parents t;
         np1 = (if \<not> has_key np parent then AList.update parent 0 np else np);
         np2 = (if \<not> has_key np1 child then AList.update child 0 np1 else np1);
         np3 = AList.update child (the (map_of np2 child) + 1) np2;
         kids = (case map_of (children t) parent of None \<Rightarrow> [] | Some cs \<Rightarrow> cs)
     in \<lparr>num_parents = np3, children = AList.update parent (kids @ [child]) (children t)\<rparr>)"

definition dep_tables_of :: "('a \<times> 'a) list \<Rightarrow> 'a dep_tables" where
  "dep_tables_of pairlist = fold add_pair pairlist \<lparr>num_parents = [], children = []\<rparr>"

section \<open>topsort\<close>

text \<open>Knocking down the count of one child; a child that reaches zero is appended to the
  answer, of which the second component holds the part not yet visited.\<close>

definition knock_child ::
    "'a \<Rightarrow> ('a \<times> int) list \<times> 'a list \<Rightarrow> 'a top_error + ('a \<times> int) list \<times> 'a list" where
  "knock_child child = (\<lambda>(np, answer).
     case map_of np child of
       None \<Rightarrow> Inl (MissingKey child)
     | Some n \<Rightarrow> Inr (AList.update child (n - 1) np,
                     if n - 1 = 0 then answer @ [child] else answer))"

lemma knock_child_simps [simp]:
  "map_of np c = None \<Longrightarrow> knock_child c (np, ans) = Inl (MissingKey c)"
  "map_of np c = Some n \<Longrightarrow> knock_child c (np, ans) =
     Inr (AList.update c (n - 1) np, if n - 1 = 0 then ans @ [c] else ans)"
  by (simp_all add: knock_child_def)

lemma update_length: "map_of np c = Some n \<Longrightarrow> length (AList.update c m np) = length np"
  by (induction np) (auto split: if_splits)

lemma knock_length:
  "res_fold knock_child cs (np, ans) = Inr (np', ans') \<Longrightarrow> length np' = length np"
proof (induction cs arbitrary: np ans)
  case (Cons c cs)
  then show ?case by (cases "map_of np c") (auto simp: update_length)
qed simp

lemma delete_shorter: "map_of np k \<noteq> None \<Longrightarrow> length (AList.delete k np) < length np"
proof (induction np)
  case (Cons a np)
  have "length (AList.delete k np) \<le> length np" by (rule length_delete_le)
  with Cons show ?case by (cases a) (auto split: if_splits)
qed simp

text \<open>\<^verbatim>\<open>for parent in answer\<close>: \<open>done\<close> is the visited part of \<^verbatim>\<open>answer\<close>, \<open>todo\<close> the rest.\<close>

function topsort_loop ::
    "'a list \<Rightarrow> 'a list \<Rightarrow> 'a dep_tables \<Rightarrow> 'a top_error + 'a list \<times> 'a dep_tables" where
  "topsort_loop done [] t = Inr (done, t)"
| "topsort_loop done (parent # todo) t =
     (if \<not> has_key (num_parents t) parent then Inl (MissingKey parent)
      else let np = AList.delete parent (num_parents t) in
        (case map_of (children t) parent of
           None \<Rightarrow> topsort_loop (done @ [parent]) todo (t\<lparr>num_parents := np\<rparr>)
         | Some cs \<Rightarrow>
             (case res_fold knock_child cs (np, todo) of
                Inl e \<Rightarrow> Inl e
              | Inr (np', todo') \<Rightarrow>
                  topsort_loop (done @ [parent]) todo'
                    \<lparr>num_parents = np', children = AList.delete parent (children t)\<rparr>)))"
  by pat_completeness auto
termination
  by (relation "measure (\<lambda>(d, td, t). length (num_parents t))")
    (auto simp: has_key_def delete_shorter dest!: knock_length)

definition no_parent_keys :: "('a list \<Rightarrow> 'a list) \<Rightarrow> ('a \<times> int) list \<Rightarrow> 'a list" where
  "no_parent_keys key_order np = filter (\<lambda>x. map_of np x = Some 0) (key_order (map fst np))"

definition topsort ::
    "('a list \<Rightarrow> 'a list) \<Rightarrow> ('a \<times> 'a) list \<Rightarrow> 'a top_error + 'a list" where
  "topsort key_order pairlist =
     (let t = dep_tables_of pairlist
      in case topsort_loop [] (no_parent_keys key_order (num_parents t)) t of
           Inl e \<Rightarrow> Inl e
         | Inr (answer, t') \<Rightarrow>
             (if num_parents t' \<noteq> []
              then Inl (CycleError answer (num_parents t') (children t'))
              else Inr answer))"

section \<open>topsort by levels\<close>

definition level_child :: "'a \<Rightarrow> ('a \<times> int) list \<Rightarrow> 'a top_error + ('a \<times> int) list" where
  "level_child child np =
     (case map_of np child of None \<Rightarrow> Inl (MissingKey child)
      | Some n \<Rightarrow> Inr (AList.update child (n - 1) np))"

definition level_parent :: "'a \<Rightarrow> 'a dep_tables \<Rightarrow> 'a top_error + 'a dep_tables" where
  "level_parent parent t =
     (if \<not> has_key (num_parents t) parent then Inl (MissingKey parent)
      else let np = AList.delete parent (num_parents t) in
        (case map_of (children t) parent of
           None \<Rightarrow> Inr (t\<lparr>num_parents := np\<rparr>)
         | Some cs \<Rightarrow> res_bind (res_fold level_child cs np) (\<lambda>np'.
             Inr \<lparr>num_parents = np', children = AList.delete parent (children t)\<rparr>)))"

lemma level_child_simps [simp]:
  "map_of np c = None \<Longrightarrow> level_child c np = Inl (MissingKey c)"
  "map_of np c = Some n \<Longrightarrow> level_child c np = Inr (AList.update c (n - 1) np)"
  by (simp_all add: level_child_def)

lemma level_child_length:
  "res_fold level_child cs np = Inr np' \<Longrightarrow> length np' = length np"
proof (induction cs arbitrary: np)
  case (Cons c cs)
  then show ?case by (cases "map_of np c") (auto simp: update_length)
qed simp

lemma level_parent_length:
  "level_parent p t = Inr t' \<Longrightarrow> length (num_parents t') < length (num_parents t)"
  by (auto simp: level_parent_def has_key_def delete_shorter res_simps Let_def
      split: if_splits option.splits dest!: level_child_length)

lemma level_parents_length:
  "res_fold level_parent ps t = Inr t' \<Longrightarrow> ps \<noteq> [] \<Longrightarrow>
     length (num_parents t') < length (num_parents t)"
proof (induction ps arbitrary: t)
  case (Cons p ps)
  then obtain u where u: "level_parent p t = Inr u" "res_fold level_parent ps u = Inr t'"
    by (auto simp: res_simps)
  with level_parent_length [OF u(1)] Cons.IH [OF u(2)] show ?case by (cases ps) auto
qed simp

text \<open>The generator \<^verbatim>\<open>topsort_levels_core\<close>: the levels it yields, and how it ends, which is
  \<open>None\<close> for \<^verbatim>\<open>StopIteration\<close>.\<close>

function topsort_levels_core ::
    "('a list \<Rightarrow> 'a list) \<Rightarrow> 'a dep_tables \<Rightarrow> 'a list list \<times> 'a top_error option" where
  "topsort_levels_core key_order t =
     (let level_parents = no_parent_keys key_order (num_parents t)
      in if level_parents = []
         then ([], if num_parents t \<noteq> []
                   then Some (LevelCycleError (num_parents t) (children t)) else None)
         else (case res_fold level_parent level_parents t of
                 Inl e \<Rightarrow> ([level_parents], Some e)
               | Inr t' \<Rightarrow> (let (levels, err) = topsort_levels_core key_order t'
                           in (level_parents # levels, err))))"
  by pat_completeness auto
termination
  by (relation "measure (\<lambda>(ord, t). length (num_parents t))")
    (auto simp: level_parents_length)

declare topsort_levels_core.simps [simp del]

definition topsort_levels ::
    "('a list \<Rightarrow> 'a list) \<Rightarrow> ('a \<times> 'a) list \<Rightarrow> 'a list list \<times> 'a top_error option" where
  "topsort_levels key_order pairlist = topsort_levels_core key_order (dep_tables_of pairlist)"

section \<open>What a sorted order is\<close>

definition nodes :: "('a \<times> 'a) list \<Rightarrow> 'a set" where
  "nodes E = fst ` set E \<union> snd ` set E"

definition parents_of :: "('a \<times> 'a) list \<Rightarrow> 'a \<Rightarrow> 'a set" where
  "parents_of E x = fst ` {e \<in> set E. snd e = x}"

fun ordered_from :: "('a \<times> 'a) list \<Rightarrow> 'a set \<Rightarrow> 'a list \<Rightarrow> bool" where
  "ordered_from E seen [] = True"
| "ordered_from E seen (x # xs) = (parents_of E x \<subseteq> seen \<and> ordered_from E (insert x seen) xs)"

text \<open>Every node of the pairs exactly once, each after all of its parents.\<close>

definition dependency_order :: "('a \<times> 'a) list \<Rightarrow> 'a list \<Rightarrow> bool" where
  "dependency_order E zs = (distinct zs \<and> set zs = nodes E \<and> ordered_from E {} zs)"

text \<open>Each level holds exactly the nodes not yet listed all of whose parents are.\<close>

fun levels_from :: "('a \<times> 'a) list \<Rightarrow> 'a set \<Rightarrow> 'a list list \<Rightarrow> bool" where
  "levels_from E seen [] = True"
| "levels_from E seen (l # ls) =
     (l \<noteq> [] \<and> distinct l \<and> set l = {x \<in> nodes E - seen. parents_of E x \<subseteq> seen}
      \<and> levels_from E (seen \<union> set l) ls)"

section \<open>The invariant of the tables\<close>

definition kids :: "('a \<times> 'a) list \<Rightarrow> 'a \<Rightarrow> 'a list" where
  "kids E p = map snd (filter (\<lambda>e. fst e = p) E)"

definition indeg :: "('a \<times> 'a) list \<Rightarrow> 'a set \<Rightarrow> 'a \<Rightarrow> nat" where
  "indeg E D x = length (filter (\<lambda>e. snd e = x \<and> fst e \<notin> D) E)"

text \<open>With \<open>D\<close> the parents already taken: the counts count the other parents, the lists of
  children are complete, and \<open>D\<close> is closed under parents.\<close>

definition dep_inv :: "('a \<times> 'a) list \<Rightarrow> 'a set \<Rightarrow> 'a dep_tables \<Rightarrow> bool" where
  "dep_inv E D t \<longleftrightarrow>
     distinct (map fst (num_parents t))
     \<and> (\<forall>x. map_of (num_parents t) x = (if x \<in> nodes E - D then Some (int (indeg E D x)) else None))
     \<and> (\<forall>p. p \<notin> D \<longrightarrow> map_of (children t) p = (if kids E p = [] then None else Some (kids E p)))
     \<and> (\<forall>x \<in> D. parents_of E x \<subseteq> D)"

lemma indeg_zero: "indeg E D x = 0 \<longleftrightarrow> parents_of E x \<subseteq> D"
  by (auto simp: indeg_def parents_of_def filter_empty_conv)

lemma indeg_insert:
  "p \<notin> D \<Longrightarrow> indeg E D x = indeg E (insert p D) x + count_list (kids E p) x"
  by (induction E) (auto simp: indeg_def kids_def)

lemma finite_nodes [simp]: "finite (nodes E)"
  by (simp add: nodes_def)

lemma parents_nodes: "parents_of E x \<subseteq> nodes E"
  by (auto simp: parents_of_def nodes_def)

lemma kids_nodes: "c \<in> set (kids E p) \<longleftrightarrow> (p, c) \<in> set E"
  by (force simp: kids_def)

lemma parents_of_iff: "p \<in> parents_of E x \<longleftrightarrow> (p, x) \<in> set E"
  by (force simp: parents_of_def)

lemma dep_inv_add_pair:
  assumes "dep_inv E {} t"
  shows "dep_inv (E @ [e]) {} (add_pair e t)"
proof -
  obtain p c where e: "e = (p, c)" by (cases e)
  let ?np = "num_parents t"
  have look: "map_of ?np x = (if x \<in> nodes E then Some (int (indeg E {} x)) else None)" for x
    using assms by (simp add: dep_inv_def)
  have zero: "x \<notin> nodes E \<Longrightarrow> indeg E {} x = 0" for x
    by (force simp: indeg_def nodes_def filter_empty_conv)
  have nodes': "nodes (E @ [e]) = insert p (insert c (nodes E))"
    by (auto simp: nodes_def e)
  have indeg': "indeg (E @ [e]) {} x = indeg E {} x + (if x = c then 1 else 0)" for x
    by (auto simp: indeg_def e)
  have kids': "kids (E @ [e]) q = kids E q @ (if q = p then [c] else [])" for q
    by (auto simp: kids_def e)
  have np: "map_of (num_parents (add_pair e t)) x =
      (if x \<in> nodes (E @ [e]) then Some (int (indeg (E @ [e]) {} x)) else None)" for x
    unfolding nodes' indeg' by (auto simp: add_pair_def e Let_def has_key_def look zero)
  have ch: "map_of (children (add_pair e t)) q =
      (if kids (E @ [e]) q = [] then None else Some (kids (E @ [e]) q))" for q
    using assms unfolding kids' by (auto simp: add_pair_def e Let_def dep_inv_def)
  have dist: "distinct (map fst (num_parents (add_pair e t)))"
    using assms by (simp add: add_pair_def e Let_def dep_inv_def distinct_update)
  show ?thesis using np ch dist by (simp add: dep_inv_def)
qed

lemma dep_inv_tables: "dep_inv E {} (dep_tables_of E)"
proof (induction E rule: rev_induct)
  case Nil
  then show ?case by (simp add: dep_inv_def dep_tables_of_def nodes_def kids_def)
next
  case (snoc e E)
  then show ?case using dep_inv_add_pair [of E _ e] by (simp add: dep_tables_of_def)
qed

section \<open>Taking one parent\<close>

text \<open>What both loops do to the counts: \<open>g\<close> is the table after the children \<open>cs\<close> have been
  knocked down, once per occurrence.\<close>

lemma level_children_fold:
  assumes "\<And>x. map_of np x = map_option (\<lambda>n. n + int (count_list cs x)) (g x)"
    and "set cs \<subseteq> dom g" and "distinct (map fst np)"
  shows "\<exists>np'. res_fold level_child cs np = Inr np' \<and> map_of np' = g \<and> distinct (map fst np')"
  using assms
proof (induction cs arbitrary: np)
  case Nil
  then show ?case by (auto intro!: ext simp: option.map_ident)
next
  case (Cons c cs)
  then obtain n where n: "g c = Some n" by auto
  then have c: "map_of np c = Some (n + 1 + int (count_list cs c))" using Cons.prems(1) [of c] by simp
  let ?np = "AList.update c (n + int (count_list cs c)) np"
  have "map_of ?np x = map_option (\<lambda>n. n + int (count_list cs x)) (g x)" for x
    using Cons.prems(1) [of x] n by auto
  moreover have "distinct (map fst ?np)" using Cons.prems(3) by (simp add: distinct_update)
  ultimately obtain np' where "res_fold level_child cs ?np = Inr np'" "map_of np' = g"
    "distinct (map fst np')"
    using Cons.IH [of ?np] Cons.prems(2) by auto
  with c show ?case by (simp add: algebra_simps)
qed

lemma knock_children_fold:
  assumes "\<And>x. map_of np x = map_option (\<lambda>n. n + int (count_list cs x)) (g x)"
    and "set cs \<subseteq> dom g" and "distinct (map fst np)" and "\<forall>x n. g x = Some n \<longrightarrow> 0 \<le> n"
  shows "\<exists>np' new. res_fold knock_child cs (np, ans) = Inr (np', ans @ new) \<and> map_of np' = g
    \<and> distinct (map fst np') \<and> distinct new \<and> set new = {c \<in> set cs. g c = Some 0}"
  using assms
proof (induction cs arbitrary: np ans)
  case Nil
  then show ?case by (auto intro!: ext simp: option.map_ident)
next
  case (Cons c cs)
  then obtain n where n: "g c = Some n" by auto
  then have c: "map_of np c = Some (n + 1 + int (count_list cs c))" using Cons.prems(1) [of c] by simp
  let ?np = "AList.update c (n + int (count_list cs c)) np"
  let ?ans = "if n + int (count_list cs c) = 0 then ans @ [c] else ans"
  have "map_of ?np x = map_option (\<lambda>n. n + int (count_list cs x)) (g x)" for x
    using Cons.prems(1) [of x] n by auto
  moreover have "distinct (map fst ?np)" using Cons.prems(3) by (simp add: distinct_update)
  ultimately obtain np' new where r: "res_fold knock_child cs (?np, ?ans) = Inr (np', ?ans @ new)"
    and np': "map_of np' = g" "distinct (map fst np')"
    and new: "distinct new" "set new = {c \<in> set cs. g c = Some 0}"
    using Cons.IH [of ?np ?ans] Cons.prems(2,4) by auto
  have e: "n + 1 + int (count_list cs c) - 1 = n + int (count_list cs c)" by simp
  have step: "res_fold knock_child (c # cs) (np, ans) = Inr (np', ?ans @ new)"
    using c r by (simp add: e del: diff_add_eq add_diff_cancel_right' add_diff_cancel_left')
  have n0: "0 \<le> n" using Cons.prems(4) n by blast
  let ?new = "if n = 0 \<and> c \<notin> set cs then c # new else new"
  have zero: "n + int (count_list cs c) = 0 \<longleftrightarrow> n = 0 \<and> c \<notin> set cs"
    using n0 by (auto simp: count_list_0_iff add_nonneg_eq_0_iff)
  have eq: "?ans @ new = ans @ ?new" using zero by auto
  have "res_fold knock_child (c # cs) (np, ans) = Inr (np', ans @ ?new)"
    unfolding eq [symmetric] by (rule step)
  moreover have "distinct ?new" "set ?new = {d \<in> set (c # cs). g d = Some 0}"
    using new n by auto
  ultimately show ?case using np' by blast
qed

lemma dep_step_tables:
  assumes inv: "dep_inv E D t" and p: "p \<in> nodes E - D" "parents_of E p \<subseteq> D"
  defines "g \<equiv> \<lambda>x. if x \<in> nodes E - insert p D then Some (int (indeg E (insert p D) x)) else None"
  shows "map_of (AList.delete p (num_parents t)) x =
      map_option (\<lambda>n. n + int (count_list (kids E p) x)) (g x)"
    and "set (kids E p) \<subseteq> dom g" and "distinct (map fst (AList.delete p (num_parents t)))"
proof -
  have look: "map_of (num_parents t) x = (if x \<in> nodes E - D then Some (int (indeg E D x)) else None)"
    for x using inv by (simp add: dep_inv_def)
  show "map_of (AList.delete p (num_parents t)) x =
      map_option (\<lambda>n. n + int (count_list (kids E p) x)) (g x)"
    using p indeg_insert [of p D E x] by (auto simp: delete_conv' look g_def)
  show "distinct (map fst (AList.delete p (num_parents t)))"
    using inv by (simp add: dep_inv_def distinct_delete)
  show "set (kids E p) \<subseteq> dom g"
  proof
    fix c assume "c \<in> set (kids E p)"
    then have e: "(p, c) \<in> set E" by (simp add: kids_nodes)
    then have "c \<in> nodes E" by (force simp: nodes_def)
    moreover have "c \<noteq> p" using e p by (auto simp: parents_of_iff subset_iff)
    moreover have "c \<notin> D"
      using e p inv by (auto simp: dep_inv_def parents_of_iff subset_iff)
    ultimately show "c \<in> dom g" by (simp add: g_def domIff)
  qed
qed

lemma dep_inv_taken:
  assumes inv: "dep_inv E D t" and p: "p \<in> nodes E - D" "parents_of E p \<subseteq> D"
    and np: "map_of np = (\<lambda>x. if x \<in> nodes E - insert p D
      then Some (int (indeg E (insert p D) x)) else None)" "distinct (map fst np)"
    and t': "num_parents t' = np" "\<And>q. q \<noteq> p \<Longrightarrow> map_of (children t') q = map_of (children t) q"
  shows "dep_inv E (insert p D) t'"
  using inv p np t' by (auto simp: dep_inv_def)

lemma dep_inv_has_key: "dep_inv E D t \<Longrightarrow> x \<in> nodes E - D \<Longrightarrow> has_key (num_parents t) x"
  by (simp add: dep_inv_def has_key_def)

lemma level_parent_step:
  assumes inv: "dep_inv E D t" and p: "p \<in> nodes E - D" "parents_of E p \<subseteq> D"
  shows "\<exists>t'. level_parent p t = Inr t' \<and> dep_inv E (insert p D) t'"
proof -
  note st = dep_step_tables [OF inv p]
  obtain np' where np: "res_fold level_child (kids E p) (AList.delete p (num_parents t)) = Inr np'"
    "map_of np' = (\<lambda>x. if x \<in> nodes E - insert p D
      then Some (int (indeg E (insert p D) x)) else None)" "distinct (map fst np')"
    using level_children_fold [OF st] by blast
  have ch: "map_of (children t) p = (if kids E p = [] then None else Some (kids E p))"
    using inv p by (auto simp: dep_inv_def)
  show ?thesis
  proof (cases "kids E p = []")
    case True
    with np have "dep_inv E (insert p D) (t\<lparr>num_parents := AList.delete p (num_parents t)\<rparr>)"
      by (intro dep_inv_taken [OF inv p]) auto
    with True ch dep_inv_has_key [OF inv p(1)] show ?thesis by (simp add: level_parent_def)
  next
    case False
    have "dep_inv E (insert p D) \<lparr>num_parents = np', children = AList.delete p (children t)\<rparr>"
      by (intro dep_inv_taken [OF inv p]) (use np in \<open>auto simp: delete_conv'\<close>)
    with False ch np dep_inv_has_key [OF inv p(1)] show ?thesis by (simp add: level_parent_def)
  qed
qed

lemma topsort_parent_step:
  assumes inv: "dep_inv E (set done) t" and p: "p \<in> nodes E - set done" "parents_of E p \<subseteq> set done"
  shows "\<exists>t' new. topsort_loop done (p # todo) t = topsort_loop (done @ [p]) (todo @ new) t'
    \<and> length (num_parents t') < length (num_parents t)
    \<and> dep_inv E (set (done @ [p])) t' \<and> distinct new
    \<and> set new = {c \<in> set (kids E p). parents_of E c \<subseteq> set (done @ [p])}"
proof -
  let ?D = "insert p (set done)"
  note st = dep_step_tables [OF inv p]
  have pos: "\<forall>x n. (if x \<in> nodes E - ?D then Some (int (indeg E ?D x)) else None) = Some n \<longrightarrow> 0 \<le> n"
    by auto
  obtain np' new where np:
    "res_fold knock_child (kids E p) (AList.delete p (num_parents t), todo) = Inr (np', todo @ new)"
    "map_of np' = (\<lambda>x. if x \<in> nodes E - ?D then Some (int (indeg E ?D x)) else None)"
    "distinct (map fst np')" "distinct new"
    "set new = {c \<in> set (kids E p). (if c \<in> nodes E - ?D then Some (int (indeg E ?D c)) else None) = Some 0}"
    using knock_children_fold [OF st pos, where ans = todo] by blast
  have new: "set new = {c \<in> set (kids E p). parents_of E c \<subseteq> set (done @ [p])}"
    using st(2) np(5) by (auto simp: indeg_zero domIff split: if_splits)
  have key: "has_key (num_parents t) p" by (rule dep_inv_has_key [OF inv p(1)])
  then have short: "length (AList.delete p (num_parents t)) < length (num_parents t)"
    by (simp add: has_key_def delete_shorter)
  have ch: "map_of (children t) p = (if kids E p = [] then None else Some (kids E p))"
    using inv p by (auto simp: dep_inv_def)
  show ?thesis
  proof (cases "kids E p = []")
    case True
    with np have "dep_inv E ?D (t\<lparr>num_parents := AList.delete p (num_parents t)\<rparr>)"
      by (intro dep_inv_taken [OF inv p]) auto
    with True ch key short new np show ?thesis
      by (intro exI [of _ "t\<lparr>num_parents := AList.delete p (num_parents t)\<rparr>"] exI [of _ "[]"]) auto
  next
    case False
    have "dep_inv E ?D \<lparr>num_parents = np', children = AList.delete p (children t)\<rparr>"
      by (intro dep_inv_taken [OF inv p]) (use np in \<open>auto simp: delete_conv'\<close>)
    with False ch key short new np knock_length [OF np(1)] show ?thesis
      by (intro exI [of _ "\<lparr>num_parents = np', children = AList.delete p (children t)\<rparr>"]
          exI [of _ new]) auto
  qed
qed

section \<open>The flat order\<close>

lemma ordered_from_append:
  "ordered_from E S (xs @ ys) \<longleftrightarrow> ordered_from E S xs \<and> ordered_from E (S \<union> set xs) ys"
  by (induction xs arbitrary: S) auto

lemma ordered_from_free:
  "\<forall>x \<in> set xs. parents_of E x \<subseteq> S \<Longrightarrow> ordered_from E S xs"
proof (induction xs arbitrary: S)
  case (Cons x xs)
  then have "\<forall>y \<in> set xs. parents_of E y \<subseteq> insert x S" by auto
  with Cons show ?case by simp
qed simp

lemma topsort_loop_correct:
  assumes "dep_inv E (set done) t" "distinct (done @ todo)"
    and "set todo = {x \<in> nodes E - set done. parents_of E x \<subseteq> set done}"
    and "ordered_from E {} done" and "set done \<subseteq> nodes E"
  shows "\<exists>ans t'. topsort_loop done todo t = Inr (ans, t') \<and> dep_inv E (set ans) t'
    \<and> distinct ans \<and> set ans \<subseteq> nodes E \<and> ordered_from E {} ans
    \<and> (\<forall>x \<in> nodes E - set ans. \<not> parents_of E x \<subseteq> set ans)"
  using assms
proof (induction "length (num_parents t)" arbitrary: t "done" todo rule: less_induct)
  case less
  show ?case
  proof (cases todo)
    case Nil
    with less.prems have "\<forall>x \<in> nodes E - set done. \<not> parents_of E x \<subseteq> set done" by auto
    with Nil less.prems show ?thesis by auto
  next
    case (Cons p rest)
    with less.prems have p: "p \<in> nodes E - set done" "parents_of E p \<subseteq> set done" by auto
    obtain t' new where step: "topsort_loop done (p # rest) t = topsort_loop (done @ [p]) (rest @ new) t'"
      and short: "length (num_parents t') < length (num_parents t)"
      and inv: "dep_inv E (set (done @ [p])) t'" and new: "distinct new"
        "set new = {c \<in> set (kids E p). parents_of E c \<subseteq> set (done @ [p])}"
      using topsort_parent_step [OF less.prems(1) p] by blast
    have fresh: "c \<notin> set (done @ p # rest) \<and> c \<in> nodes E" if "c \<in> set new" for c
    proof -
      from that new have pc: "(p, c) \<in> set E" by (simp add: kids_nodes)
      then have "c \<in> nodes E" by (force simp: nodes_def)
      moreover have "p \<in> parents_of E c" using pc by (simp add: parents_of_iff)
      then have "c \<notin> set done" "c \<notin> set (p # rest)"
        using less.prems(1,3) p(1) Cons by (auto simp: dep_inv_def)
      ultimately show ?thesis by simp
    qed
    have ready: "c \<in> set (rest @ new)"
      if "c \<in> nodes E - set (done @ [p])" "parents_of E c \<subseteq> set (done @ [p])" for c
    proof (cases "p \<in> parents_of E c")
      case True
      with that new show ?thesis by (simp add: kids_nodes parents_of_iff)
    next
      case False
      with that have "c \<in> set todo" using less.prems(3) by auto
      with that Cons show ?thesis by auto
    qed
    have "set (rest @ new) = {x \<in> nodes E - set (done @ [p]). parents_of E x \<subseteq> set (done @ [p])}"
    proof
      show "set (rest @ new) \<subseteq> {x \<in> nodes E - set (done @ [p]). parents_of E x \<subseteq> set (done @ [p])}"
        using fresh new less.prems(2,3) Cons by auto
    qed (use ready in blast)
    moreover have "distinct ((done @ [p]) @ rest @ new)"
      using less.prems(2) Cons new fresh by auto
    moreover have "ordered_from E {} (done @ [p])" "set (done @ [p]) \<subseteq> nodes E"
      using less.prems(4,5) p by (auto simp: ordered_from_append)
    ultimately show ?thesis using less.hyps [OF short inv] step Cons by simp
  qed
qed

lemma no_parent_keys_spec:
  assumes "dep_inv E D t" and "mset (key_order (map fst (num_parents t))) = mset (map fst (num_parents t))"
  shows "distinct (no_parent_keys key_order (num_parents t))"
    and "set (no_parent_keys key_order (num_parents t)) = {x \<in> nodes E - D. parents_of E x \<subseteq> D}"
proof -
  have "distinct (key_order (map fst (num_parents t)))"
    using assms by (metis dep_inv_def mset_eq_imp_distinct_iff)
  then show "distinct (no_parent_keys key_order (num_parents t))"
    by (simp add: no_parent_keys_def)
  have keys: "set (key_order (map fst (num_parents t))) = fst ` set (num_parents t)"
    using assms(2) by (metis list.set_map mset_eq_setD)
  have look: "map_of (num_parents t) x = (if x \<in> nodes E - D then Some (int (indeg E D x)) else None)"
    for x using assms(1) by (simp add: dep_inv_def)
  have "x \<in> fst ` set (num_parents t) \<longleftrightarrow> x \<in> nodes E - D" for x
    using look [of x] map_of_eq_None_iff [of "num_parents t" x] by (simp split: if_splits)
  then show "set (no_parent_keys key_order (num_parents t)) = {x \<in> nodes E - D. parents_of E x \<subseteq> D}"
    unfolding no_parent_keys_def using look keys by (auto simp: indeg_zero split: if_splits)
qed

lemma dep_inv_no_keys: "dep_inv E D t \<Longrightarrow> num_parents t = [] \<longleftrightarrow> nodes E \<subseteq> D"
proof -
  assume inv: "dep_inv E D t"
  have "num_parents t = [] \<longleftrightarrow> (\<forall>x. map_of (num_parents t) x = None)"
    by (cases "num_parents t") (auto simp: map_of_eq_None_iff)
  also have "\<dots> \<longleftrightarrow> nodes E \<subseteq> D" using inv by (auto simp: dep_inv_def)
  finally show ?thesis .
qed

section \<open>Cycles\<close>

definition position :: "'a list \<Rightarrow> 'a \<Rightarrow> nat" where
  "position zs x = length (takeWhile (\<lambda>y. y \<noteq> x) zs)"

lemma ordered_position:
  assumes "ordered_from E {} zs" "(p, c) \<in> set E" "c \<in> set zs"
  shows "p \<in> set zs \<and> position zs p < position zs c"
proof -
  let ?us = "takeWhile (\<lambda>y. y \<noteq> c) zs"
  obtain vs where zs: "zs = ?us @ c # vs"
    using assms(3) by (metis (mono_tags, lifting) dropWhile_eq_Cons_conv dropWhile_eq_Nil_conv
        list.exhaust takeWhile_dropWhile_id)
  have "parents_of E c \<subseteq> set ?us"
    using assms(1) by (subst (asm) zs) (auto simp: ordered_from_append)
  then have p: "p \<in> set ?us" using assms(2) by (auto simp: parents_of_iff)
  then have "length (takeWhile (\<lambda>y. y \<noteq> p) ?us) < length ?us"
    by (metis (mono_tags, lifting) set_takeWhileD takeWhile_eq_all_conv takeWhile_eq_take
        length_take min.strict_order_iff min_def le_neq_implies_less length_takeWhile_le take_all_iff)
  moreover have "takeWhile (\<lambda>y. y \<noteq> p) zs = takeWhile (\<lambda>y. y \<noteq> p) ?us"
    using p by (subst zs) (metis (mono_tags, lifting) takeWhile_append1)
  ultimately have "position zs p < position zs c" by (simp add: position_def)
  moreover have "p \<in> set zs" using p by (metis set_takeWhileD)
  ultimately show ?thesis by blast
qed

lemma dependency_order_acyclic:
  assumes "dependency_order E zs" shows "acyclic (set E)"
proof (rule acyclicI_order [where f = "\<lambda>x. - int (position zs x)"])
  fix p c assume "(p, c) \<in> set E"
  moreover then have "c \<in> set zs" using assms by (force simp: dependency_order_def nodes_def)
  ultimately show "- int (position zs c) < - int (position zs p)"
    using ordered_position [of E zs p c] assms by (simp add: dependency_order_def)
qed

lemma stuck_not_acyclic:
  assumes "x \<in> nodes E - D" and "\<forall>x \<in> nodes E - D. \<not> parents_of E x \<subseteq> D"
  shows "\<not> acyclic (set E)"
proof
  assume "acyclic (set E)"
  then have "wf (set E)" by (simp add: finite_acyclic_wf)
  then obtain z where z: "z \<in> nodes E - D" "\<And>y. (y, z) \<in> set E \<Longrightarrow> y \<notin> nodes E - D"
    using assms(1) by (metis wfE_min)
  then obtain y where "y \<in> parents_of E z" "y \<notin> D" using assms(2) by blast
  then show False using z parents_nodes [of E z] by (auto simp: parents_of_iff)
qed

section \<open>The levels\<close>

lemma level_parents_step:
  assumes "dep_inv E D t" "\<forall>p \<in> set ps. p \<in> nodes E - D \<and> parents_of E p \<subseteq> D" "distinct ps"
  shows "\<exists>t'. res_fold level_parent ps t = Inr t' \<and> dep_inv E (D \<union> set ps) t'"
  using assms
proof (induction ps arbitrary: D t)
  case (Cons p ps)
  then obtain u where u: "level_parent p t = Inr u" "dep_inv E (insert p D) u"
    using level_parent_step [of E D t p] by auto
  have "\<forall>q \<in> set ps. q \<in> nodes E - insert p D \<and> parents_of E q \<subseteq> insert p D"
    using Cons.prems(2,3) by auto
  with Cons.IH [OF u(2)] Cons.prems(3) u(1) show ?case by auto
qed simp

lemma topsort_levels_core_correct:
  assumes "dep_inv E D t" and perm: "\<And>xs :: 'a list. mset (key_order xs) = mset xs"
    and "D \<subseteq> nodes E"
  shows "\<exists>levels err. topsort_levels_core key_order t = (levels, err)
    \<and> levels_from E D levels \<and> distinct (concat levels)
    \<and> set (concat levels) \<inter> D = {} \<and> set (concat levels) \<subseteq> nodes E
    \<and> (let S = D \<union> set (concat levels) in
        (err = None \<and> nodes E = S)
        \<or> (\<exists>np ch. err = Some (LevelCycleError np ch) \<and> nodes E \<noteq> S
             \<and> (\<forall>x \<in> nodes E - S. \<not> parents_of E x \<subseteq> S)))"
  using assms(1,3)
proof (induction "length (num_parents t)" arbitrary: t D rule: less_induct)
  case less
  let ?l = "no_parent_keys key_order (num_parents t)"
  note l = no_parent_keys_spec [where key_order = key_order, OF less.prems(1) perm [of "map fst (num_parents t)"]]
  show ?case
  proof (cases "?l = []")
    case True
    with l have stuck: "\<forall>x \<in> nodes E - D. \<not> parents_of E x \<subseteq> D" by auto
    have "topsort_levels_core key_order t =
      ([], if num_parents t \<noteq> [] then Some (LevelCycleError (num_parents t) (children t)) else None)"
      using True by (subst topsort_levels_core.simps) simp
    with stuck dep_inv_no_keys [OF less.prems(1)] less.prems(2) show ?thesis by auto
  next
    case False
    obtain t' where t': "res_fold level_parent ?l t = Inr t'" "dep_inv E (D \<union> set ?l) t'"
      using level_parents_step [OF less.prems(1), of ?l] l by auto
    have short: "length (num_parents t') < length (num_parents t)"
      by (rule level_parents_length [OF t'(1) False])
    obtain ls err where ls: "topsort_levels_core key_order t' = (ls, err)"
      "levels_from E (D \<union> set ?l) ls" "distinct (concat ls)"
      "set (concat ls) \<inter> (D \<union> set ?l) = {}" "set (concat ls) \<subseteq> nodes E"
      and res: "let S = (D \<union> set ?l) \<union> set (concat ls) in (err = None \<and> nodes E = S)
        \<or> (\<exists>np ch. err = Some (LevelCycleError np ch) \<and> nodes E \<noteq> S
             \<and> (\<forall>x \<in> nodes E - S. \<not> parents_of E x \<subseteq> S))"
      using less.hyps [OF short t'(2)] less.prems(2) l(2) by blast
    have "topsort_levels_core key_order t = (?l # ls, err)"
      using False t'(1) ls(1) by (subst topsort_levels_core.simps) simp
    moreover have "D \<union> set (concat (?l # ls)) = (D \<union> set ?l) \<union> set (concat ls)" by auto
    moreover have "levels_from E D (?l # ls)" using False l ls(2) by simp
    moreover have "distinct (concat (?l # ls))" "set (concat (?l # ls)) \<inter> D = {}"
      "set (concat (?l # ls)) \<subseteq> nodes E"
      using l ls(3-5) by auto
    ultimately show ?thesis using res by metis
  qed
qed

lemma levels_from_ordered:
  "levels_from E S ls \<Longrightarrow> ordered_from E S (concat ls)"
proof (induction ls arbitrary: S)
  case (Cons l ls)
  then show ?case by (auto simp: ordered_from_append intro: ordered_from_free)
qed simp

section \<open>The interface of a dependency sorter\<close>

text \<open>What the callers of the sorting functions rely on.\<close>

locale dependency_sorter =
  fixes sorter :: "('a \<times> 'a) list \<Rightarrow> 'a top_error + 'a list"
  assumes sorted_ok: "sorter E = Inr zs \<Longrightarrow> dependency_order E zs"
    and acyclic_ok: "acyclic (set E) \<Longrightarrow> \<exists>zs. sorter E = Inr zs"
begin

lemma sorts_iff_acyclic: "(\<exists>zs. sorter E = Inr zs) \<longleftrightarrow> acyclic (set E)"
  using sorted_ok acyclic_ok dependency_order_acyclic by blast

lemma parent_first:
  assumes "sorter E = Inr zs" and "(p, c) \<in> set E"
  shows "p \<in> set zs \<and> c \<in> set zs \<and> position zs p < position zs c"
proof -
  have "c \<in> set zs"
    using sorted_ok [OF assms(1)] assms(2) by (force simp: dependency_order_def nodes_def)
  then show ?thesis
    using sorted_ok [OF assms(1)] ordered_position [of E zs p c] assms(2)
    by (simp add: dependency_order_def)
qed

end

text \<open>The one assumption on dictionaries: \<^verbatim>\<open>keys()\<close> lists the keys in some order.\<close>

locale key_listing =
  fixes key_order :: "'a list \<Rightarrow> 'a list"
  assumes key_perm: "mset (key_order xs) = mset xs"
begin

lemma topsort_cases:
  "(\<exists>zs. topsort key_order E = Inr zs \<and> dependency_order E zs)
   \<or> (\<exists>ans np ch. topsort key_order E = Inl (CycleError ans np ch) \<and> \<not> acyclic (set E)
        \<and> distinct ans \<and> ordered_from E {} ans \<and> fst ` set np = nodes E - set ans)"
proof -
  let ?t = "dep_tables_of E"
  note l = no_parent_keys_spec [where key_order = key_order, OF dep_inv_tables [of E] key_perm [of "map fst (num_parents ?t)"]]
  obtain ans t' where r: "topsort_loop [] (no_parent_keys key_order (num_parents ?t)) ?t = Inr (ans, t')"
    and inv: "dep_inv E (set ans) t'" and ans: "distinct ans" "set ans \<subseteq> nodes E" "ordered_from E {} ans"
    and stuck: "\<forall>x \<in> nodes E - set ans. \<not> parents_of E x \<subseteq> set ans"
    using topsort_loop_correct [of E "[]" ?t "no_parent_keys key_order (num_parents ?t)"]
      dep_inv_tables [of E] l by auto
  have keys: "fst ` set (num_parents t') = nodes E - set ans"
  proof -
    have "x \<in> fst ` set (num_parents t') \<longleftrightarrow> map_of (num_parents t') x \<noteq> None" for x
      by (simp add: map_of_eq_None_iff)
    then show ?thesis using inv by (auto simp: dep_inv_def split: if_splits)
  qed
  show ?thesis
  proof (cases "num_parents t' = []")
    case True
    then have "set ans = nodes E" using dep_inv_no_keys [OF inv] ans(2) by auto
    with True r ans show ?thesis by (simp add: topsort_def dependency_order_def)
  next
    case False
    then obtain x where "x \<in> nodes E - set ans" using dep_inv_no_keys [OF inv] by auto
    then have "\<not> acyclic (set E)" using stuck by (rule stuck_not_acyclic)
    with False r ans keys show ?thesis by (auto simp: topsort_def)
  qed
qed

lemma topsort_levels_cases:
  "\<exists>levels err. topsort_levels key_order E = (levels, err) \<and> levels_from E {} levels
    \<and> ((err = None \<and> dependency_order E (concat levels))
       \<or> (\<exists>np ch. err = Some (LevelCycleError np ch) \<and> \<not> acyclic (set E)))"
proof -
  obtain levels err where r: "topsort_levels key_order E = (levels, err)"
    "levels_from E {} levels" "distinct (concat levels)"
    and c: "(err = None \<and> nodes E = set (concat levels))
      \<or> (\<exists>np ch. err = Some (LevelCycleError np ch) \<and> nodes E \<noteq> set (concat levels)
        \<and> set (concat levels) \<subseteq> nodes E
        \<and> (\<forall>x \<in> nodes E - set (concat levels). \<not> parents_of E x \<subseteq> set (concat levels)))"
    using topsort_levels_core_correct [OF dep_inv_tables [of E] key_perm]
    by (force simp: topsort_levels_def)
  from c show ?thesis
  proof
    assume "err = None \<and> nodes E = set (concat levels)"
    with r show ?thesis by (auto simp: dependency_order_def levels_from_ordered)
  next
    assume "\<exists>np ch. err = Some (LevelCycleError np ch) \<and> nodes E \<noteq> set (concat levels)
      \<and> set (concat levels) \<subseteq> nodes E
      \<and> (\<forall>x \<in> nodes E - set (concat levels). \<not> parents_of E x \<subseteq> set (concat levels))"
    then obtain np ch x where e: "err = Some (LevelCycleError np ch)"
      and x: "x \<in> nodes E - set (concat levels)"
      and stuck: "\<forall>x \<in> nodes E - set (concat levels). \<not> parents_of E x \<subseteq> set (concat levels)"
      by blast
    from x stuck have "\<not> acyclic (set E)" by (rule stuck_not_acyclic)
    with r e show ?thesis by blast
  qed
qed

end

text \<open>The flat order of the levels, as a sorter.\<close>

definition sort_by_levels ::
    "('a list \<Rightarrow> 'a list) \<Rightarrow> ('a \<times> 'a) list \<Rightarrow> 'a top_error + 'a list" where
  "sort_by_levels key_order E =
     (case topsort_levels key_order E of (levels, Some e) \<Rightarrow> Inl e | (levels, None) \<Rightarrow> Inr (concat levels))"

context key_listing
begin

lemma topsort_sorted: "topsort key_order E = Inr zs \<Longrightarrow> dependency_order E zs"
  using topsort_cases [of E] by auto

lemma topsort_complete: "acyclic (set E) \<Longrightarrow> \<exists>zs. topsort key_order E = Inr zs"
  using topsort_cases [of E] by auto

end

sublocale key_listing \<subseteq> top: dependency_sorter "topsort key_order"
  by unfold_locales (fact topsort_sorted topsort_complete)+

sublocale key_listing \<subseteq> lev: dependency_sorter "sort_by_levels key_order"
proof unfold_locales
  fix E :: "('a \<times> 'a) list" and zs
  show "sort_by_levels key_order E = Inr zs \<Longrightarrow> dependency_order E zs"
    using topsort_levels_cases [of E] by (auto simp: sort_by_levels_def split: option.splits)
  show "acyclic (set E) \<Longrightarrow> \<exists>zs. sort_by_levels key_order E = Inr zs"
    using topsort_levels_cases [of E] by (auto simp: sort_by_levels_def split: option.splits)
qed

text \<open>Dictionaries in insertion order, and in the reverse of it.\<close>

interpretation ins: key_listing "\<lambda>xs. xs"
  by unfold_locales simp

interpretation rev_ins: key_listing rev
  by unfold_locales simp

section \<open>Properties\<close>

text \<open>C1: for every list of (parent, child) pairs, \<^verbatim>\<open>topsort\<close> returns if and only if the pairs
  are acyclic; what it returns lists every element exactly once, each after all of its parents;
  otherwise it raises \<^verbatim>\<open>CycleError\<close> with the sorted part and the counts of exactly the other
  elements, and it never raises \<^verbatim>\<open>KeyError\<close>.\<close>

theorem topsort_correct:
  assumes "\<And>xs. mset (key_order xs) = mset xs"
  shows "case topsort key_order E of
      Inr ans \<Rightarrow> acyclic (set E) \<and> dependency_order E ans
    | Inl (CycleError ans np ch) \<Rightarrow>
        \<not> acyclic (set E) \<and> ordered_from E {} ans \<and> fst ` set np = nodes E - set ans
    | Inl e \<Rightarrow> False"
proof -
  have "key_listing key_order" by (rule key_listing.intro) (rule assms)
  then show ?thesis
    using key_listing.topsort_cases [of key_order E] dependency_order_acyclic by fastforce
qed

theorem topsort_correct_witness:
  "topsort (\<lambda>xs. xs) [(1 :: nat, 2), (3, 4), (5, 6), (1, 3), (1, 5), (1, 6), (2, 5)]
     = Inr [1, 2, 3, 5, 4, 6]
   \<and> dependency_order [(1 :: nat, 2), (3, 4), (5, 6), (1, 3), (1, 5), (1, 6), (2, 5)]
       [1, 2, 3, 5, 4, 6]"
proof -
  have "topsort (\<lambda>xs. xs) [(1 :: nat, 2), (3, 4), (5, 6), (1, 3), (1, 5), (1, 6), (2, 5)]
     = Inr [1, 2, 3, 5, 4, 6]" by code_simp
  then show ?thesis
    using topsort_correct [of "\<lambda>xs. xs" "[(1 :: nat, 2), (3, 4), (5, 6), (1, 3), (1, 5), (1, 6), (2, 5)]"]
    by simp
qed

text \<open>C22: \<^verbatim>\<open>topsort_levels\<close> yields the dependency levels: each level is the non-empty set of the
  elements not yet yielded all of whose parents have been; the generator ends normally exactly
  on acyclic pairs, having yielded every element once, and with \<^verbatim>\<open>CycleError\<close> otherwise.\<close>

theorem topsort_levels_correct:
  assumes "\<And>xs. mset (key_order xs) = mset xs"
  shows "case topsort_levels key_order E of
      (levels, None) \<Rightarrow>
        acyclic (set E) \<and> levels_from E {} levels \<and> dependency_order E (concat levels)
    | (levels, Some (LevelCycleError np ch)) \<Rightarrow> \<not> acyclic (set E) \<and> levels_from E {} levels
    | (levels, Some e) \<Rightarrow> False"
proof -
  have "key_listing key_order" by (rule key_listing.intro) (rule assms)
  then show ?thesis
    using key_listing.topsort_levels_cases [of key_order E] dependency_order_acyclic by fastforce
qed

theorem topsort_levels_correct_witness:
  "topsort_levels rev [(1 :: nat, 2), (2, 3), (3, 4), (4, 3)]
     = ([[1], [2]], Some (LevelCycleError [(3, 1), (4, 1)] [(3, [4]), (4, [3])]))
   \<and> \<not> acyclic (set [(1 :: nat, 2), (2, 3), (3, 4), (4, 3)])"
proof -
  have "topsort_levels rev [(1 :: nat, 2), (2, 3), (3, 4), (4, 3)]
     = ([[1], [2]], Some (LevelCycleError [(3, 1), (4, 1)] [(3, [4]), (4, [3])]))" by code_simp
  then show ?thesis
    using topsort_levels_correct [of rev "[(1 :: nat, 2), (2, 3), (3, 4), (4, 3)]"] by simp
qed

end
