(* ===== verification/Module_Scan.thy ===== *)
theory Module_Scan
  imports Topsort "HOL-Library.List_Lexorder" "HOL-Library.Char_ord"
begin

text \<open>
  \<^verbatim>\<open>bindings/python/ns3modulescan.py\<close>: the order in which the Python bindings scan the ns-3
  modules (the client of the dependency sorter), the classifier that files a header under the
  section of its module, and \<^verbatim>\<open>get_ns3_relative_path\<close>. The file sinks, the C++ parser and the
  annotation tables are not modelled: they belong to the packages pybindgen and pygccxml.

  The dictionary \<^verbatim>\<open>ns3_modules\<close> maps a module name to its dependencies and its headers. The path
  loop may run forever, so it is a \<^theory_text>\<open>partial_function (option)\<close>: \<open>None\<close> is
  "does not return".
\<close>

section \<open>Module order and sections\<close>





definition section_name :: "string \<Rightarrow> string" where
  "section_name m = ''ns3_module_'' @ map (\<lambda>c. if c = CHR ''-'' then CHR ''_'' else c) m"

record scan_state =
  sections :: "(string \<times> string) list"
  headers_map :: "(string \<times> string) list"
  section_precendences :: "(string \<times> nat) list"




text \<open>\<^verbatim>\<open>MyPygenClassifier\<close>\<close>

definition classify :: "scan_state \<Rightarrow> string \<Rightarrow> string" where
  "classify st file_name =
     (case map_of (headers_map st) (path_basename file_name) of
        Some name \<Rightarrow> name | None \<Rightarrow> ''__main__'')"


section \<open>The path of a header below the ns3 directory\<close>

text \<open>\<^verbatim>\<open>os.path.join(*l)\<close> raises \<^verbatim>\<open>TypeError\<close> when \<open>l\<close> is empty.\<close>

definition path_join_all :: "string list \<Rightarrow> string res" where
  "path_join_all l = (case l of [] \<Rightarrow> Inl TypeError | p # ps \<Rightarrow> Inr (foldl path_join p ps))"

partial_function (option) relative_path_loop :: "string \<Rightarrow> string list \<Rightarrow> string res option" where
  "relative_path_loop head l =
     (if head = [] then Some (Inl AssertionError)
      else if path_basename head = ''ns3'' then Some (path_join_all l)
      else relative_path_loop (path_dirname head) (path_basename head # l))"

definition get_ns3_relative_path :: "string \<Rightarrow> string res option" where
  "get_ns3_relative_path path = relative_path_loop path []"

section \<open>Precedences\<close>



lemma enumerate_missing:
  "n \<notin> h ` set ms \<Longrightarrow> map_of (rev (map (\<lambda>(i, m). (h m, i)) (enumerate k ms))) n = None"
  by (force simp: map_of_eq_None_iff in_set_enumerate_eq)

lemma section_name_not_main [simp]: "section_name m \<noteq> ''__main__''"
  by (simp add: section_name_def)



section \<open>Paths\<close>

lemma basename_snoc: "os_sep \<notin> set c \<Longrightarrow> path_basename (d @ os_sep # c) = c"
  by (auto simp: path_basename_def takeWhile_append)

lemma dirname_snoc:
  assumes "os_sep \<notin> set c" "d \<noteq> []" "last d \<noteq> os_sep"
  shows "path_dirname (d @ os_sep # c) = d"
proof -
  have "rev (dropWhile (\<lambda>x. x \<noteq> os_sep) (rev (d @ os_sep # c))) = d @ [os_sep]"
    using assms(1) by (auto simp: dropWhile_append)
  moreover have "rev (dropWhile (\<lambda>x. x = os_sep) (rev (d @ [os_sep]))) = d"
    using assms by (cases d rule: rev_cases) auto
  moreover have "\<not> list_all (\<lambda>x. x = os_sep) (d @ [os_sep])"
    using assms by (cases d rule: rev_cases) auto
  ultimately show ?thesis by (simp add: path_dirname_def Let_def)
qed

lemma relative_path_loop_components:
  assumes "root \<noteq> []" "last root \<noteq> os_sep" "\<forall>c\<in>set cs. path_component c \<and> c \<noteq> ''ns3''"
  shows "relative_path_loop (root @ concat (map (\<lambda>c. os_sep # c) cs)) l = relative_path_loop root (cs @ l)"
  using assms(3)
proof (induction cs arbitrary: l rule: rev_induct)
  case (snoc c cs)
  let ?d = "root @ concat (map (\<lambda>c. os_sep # c) cs)"
  have c: "os_sep \<notin> set c" "c \<noteq> ''ns3''" using snoc.prems by (auto simp: path_component_def)
  have "?d \<noteq> [] \<and> last ?d \<noteq> os_sep"
  proof (cases cs rule: rev_cases)
    case (snoc cs' c')
    then have "path_component c'" using \<open>\<forall>c\<in>set (cs @ [c]). path_component c \<and> c \<noteq> ''ns3''\<close> by simp
    then show ?thesis using snoc
      by (auto simp: path_component_def) (metis last_in_set)
  qed (use assms in simp)
  then have "relative_path_loop (?d @ os_sep # c) l = relative_path_loop ?d (c # l)"
    using c basename_snoc [of c ?d] dirname_snoc [of c ?d]
    by (subst relative_path_loop.simps) simp
  with snoc show ?case by simp
qed simp

lemma dirname_prefix:
  assumes "p \<noteq> []" "hd p = os_sep"
  shows "path_dirname p \<noteq> [] \<and> hd (path_dirname p) = os_sep
    \<and> (\<exists>r. p = path_dirname p @ r \<and> (r = [] \<or> hd r = os_sep \<or> (\<forall>c\<in>set (path_dirname p). c = os_sep)))"
proof -
  define h where "h = rev (dropWhile (\<lambda>c. c \<noteq> os_sep) (rev p))"
  have p: "p = h @ path_basename p"
    unfolding h_def path_basename_def
    by (metis rev_append rev_rev_ident takeWhile_dropWhile_id)
  have hne: "h \<noteq> []" using assms by (cases p) (auto simp: h_def dropWhile_eq_Nil_conv)
  then have hd: "hd h = os_sep" using p assms by (metis hd_append2)
  show ?thesis
  proof (cases "list_all (\<lambda>c. c = os_sep) h")
    case True
    then have "path_dirname p = h" by (simp add: path_dirname_def h_def Let_def)
    then show ?thesis using True p hne hd by (auto simp: list_all_iff)
  next
    case False
    define d where "d = rev (dropWhile (\<lambda>c. c = os_sep) (rev h))"
    have pd: "path_dirname p = d" using False by (simp add: path_dirname_def h_def d_def Let_def)
    define t where "t = rev (takeWhile (\<lambda>c. c = os_sep) (rev h))"
    have ht: "h = d @ t" unfolding d_def t_def
      by (metis rev_append rev_rev_ident takeWhile_dropWhile_id)
    have dne: "d \<noteq> []" using False by (auto simp: d_def list_all_iff)
    have "last h = os_sep"
      using hne hd_dropWhile [of "\<lambda>c. c \<noteq> os_sep" "rev p"] by (auto simp: h_def last_rev)
    then have tne: "t \<noteq> []" using hne by (cases h rule: rev_cases) (auto simp: t_def)
    have "\<forall>c\<in>set t. c = os_sep" by (auto simp: t_def dest: set_takeWhileD)
    then have "hd t = os_sep" using tne by simp
    then show ?thesis using pd dne ht p hd tne by (auto intro!: exI [of _ "t @ path_basename p"])
  qed
qed

definition ns3_free :: "string \<Rightarrow> bool" where
  "ns3_free p \<longleftrightarrow> (\<forall>a b. p = a @ ''/ns3'' @ b \<longrightarrow> b \<noteq> [] \<and> hd b \<noteq> os_sep)"

lemma ns3_free_basename:
  assumes "ns3_free p" "p \<noteq> []" "hd p = os_sep"
  shows "path_basename p \<noteq> ''ns3''"
proof
  assume b: "path_basename p = ''ns3''"
  define h where "h = rev (dropWhile (\<lambda>c. c \<noteq> os_sep) (rev p))"
  have p: "p = h @ ''ns3''"
    unfolding h_def b [symmetric] path_basename_def
    by (metis rev_append rev_rev_ident takeWhile_dropWhile_id)
  have "h \<noteq> []" using assms by (cases p) (auto simp: h_def dropWhile_eq_Nil_conv)
  moreover then have "last h = os_sep"
    using hd_dropWhile [of "\<lambda>c. c \<noteq> os_sep" "rev p"] by (auto simp: h_def last_rev)
  ultimately have "p = butlast h @ ''/ns3'' @ []"
    using p by (metis append_Cons append_Nil append_Nil2 append_assoc append_butlast_last_id os_sep_def)
  then show False using assms(1) unfolding ns3_free_def by blast
qed

lemma ns3_free_dirname:
  assumes "ns3_free p" "p \<noteq> []" "hd p = os_sep"
  shows "ns3_free (path_dirname p)"
  unfolding ns3_free_def
proof (intro allI impI)
  fix a b assume d: "path_dirname p = a @ ''/ns3'' @ b"
  obtain r where r: "p = path_dirname p @ r" "r = [] \<or> hd r = os_sep"
    using dirname_prefix [OF assms(2,3)] d by (force simp: os_sep_def)
  then have "p = a @ ''/ns3'' @ (b @ r)" using d by simp
  then have "b @ r \<noteq> [] \<and> hd (b @ r) \<noteq> os_sep" using assms(1) unfolding ns3_free_def by blast
  then show "b \<noteq> [] \<and> hd b \<noteq> os_sep" using r(2) by (cases b) auto
qed

lemma relative_path_loop_diverges:
  assumes "relative_path_loop head l = Some r"
  shows "\<not> (ns3_free head \<and> head \<noteq> [] \<and> hd head = os_sep)"
proof (rule relative_path_loop.raw_induct
    [where P = "\<lambda>head l r. \<not> (ns3_free head \<and> head \<noteq> [] \<and> hd head = os_sep)", OF _ assms])
  fix loop :: "string \<Rightarrow> string list \<Rightarrow> string res option" and head l r
  assume 1: "\<And>h l r. loop h l = Some r \<Longrightarrow> \<not> (ns3_free h \<and> h \<noteq> [] \<and> hd h = os_sep)"
    "(if head = [] then Some (Inl AssertionError)
      else if path_basename head = ''ns3'' then Some (path_join_all l)
      else loop (path_dirname head) (path_basename head # l)) = Some r"
  show "\<not> (ns3_free head \<and> head \<noteq> [] \<and> hd head = os_sep)"
  proof
    assume h: "ns3_free head \<and> head \<noteq> [] \<and> hd head = os_sep"
    then have "loop (path_dirname head) (path_basename head # l) = Some r"
      using 1(2) ns3_free_basename [of head] by (simp split: if_splits)
    then show False
      using 1(1) h dirname_prefix [of head] ns3_free_dirname [of head] by blast
  qed
qed

section \<open>Properties\<close>





text \<open>below a directory \<^verbatim>\<open>ns3\<close>, the relative path of a header is the list of path components
  after the last \<^verbatim>\<open>ns3\<close>, joined by separators: the loop ends and the path is found.\<close>

theorem relative_path_found:
  assumes "\<forall>c\<in>set (c0 # cs). path_component c \<and> c \<noteq> ''ns3''"
  shows "get_ns3_relative_path (base @ ''/ns3/'' @ str_join ''/'' (c0 # cs))
    = Some (Inr (str_join ''/'' (c0 # cs)))"
proof -
  have "base @ ''/ns3/'' @ str_join ''/'' (c0 # cs)
      = (base @ ''/ns3'') @ concat (map (\<lambda>c. os_sep # c) (c0 # cs))"
    by (simp add: str_join_concat os_sep_def)
  then have "get_ns3_relative_path (base @ ''/ns3/'' @ str_join ''/'' (c0 # cs))
      = relative_path_loop (base @ ''/ns3'') (c0 # cs)"
    using relative_path_loop_components [of "base @ ''/ns3''" "c0 # cs" "[]"] assms
    by (simp add: get_ns3_relative_path_def os_sep_def)
  also have "\<dots> = Some (path_join_all (c0 # cs))"
    using basename_snoc [of "''ns3''" base]
    by (subst relative_path_loop.simps) (simp add: os_sep_def)
  also have "path_join_all (c0 # cs) = Inr (str_join ''/'' (c0 # cs))"
    using assms foldl_path_join [of cs c0]
    by (simp add: path_join_all_def str_join_concat path_component_def os_sep_def)
       (metis last_in_set)
  finally show ?thesis .
qed

theorem relative_path_found_witness:
  "get_ns3_relative_path ''build/ns3/core/object.h'' = Some (Inr ''core/object.h'')"
  using relative_path_found [of "''core''" "[''object.h'']" "''build''"]
  by (simp add: path_component_def os_sep_def)

text \<open>for an absolute path with no component \<^verbatim>\<open>ns3\<close>, \<^verbatim>\<open>get_ns3_relative_path\<close> does not return:
  the root directory is its own parent, so the loop never reaches its \<^verbatim>\<open>AssertionError\<close>.\<close>

theorem relative_path_absolute_diverges:
  assumes "hd path = os_sep" "path \<noteq> []"
    and "\<forall>a b. path = a @ ''/ns3'' @ b \<longrightarrow> b \<noteq> [] \<and> hd b \<noteq> os_sep"
  shows "get_ns3_relative_path path = None"
  using relative_path_loop_diverges [of path "[]"] assms
  by (cases "relative_path_loop path []") (auto simp: get_ns3_relative_path_def ns3_free_def)

theorem relative_path_absolute_diverges_witness:
  "get_ns3_relative_path ''/usr/x.h'' = None"
proof (rule relative_path_absolute_diverges)
  show "\<forall>a b. ''/usr/x.h'' = a @ ''/ns3'' @ b \<longrightarrow> b \<noteq> [] \<and> hd b \<noteq> os_sep"
  proof (intro allI impI)
    fix a b :: string assume e: "''/usr/x.h'' = a @ ''/ns3'' @ b"
    have "CHR ''3'' \<in> set (a @ ''/ns3'' @ b)" by simp
    then have "CHR ''3'' \<in> set ''/usr/x.h''" using e by metis
    then show "b \<noteq> [] \<and> hd b \<noteq> os_sep" by simp
  qed
qed (simp_all add: os_sep_def)

end
