(* ===== verification/Config_Files.thy ===== *)
theory Config_Files
  imports Py_Prelude
begin

text \<open>
  \<^verbatim>\<open>utils.py\<close>: reading Python lists and booleans out of configuration files
  (\<^verbatim>\<open>.ns3rc\<close>, the lock file of the build and \<^verbatim>\<open>examples-to-run.py\<close>).

  The file system is a function \<open>fs\<close> from a path to the text of the file, if it exists. Python's
  \<^verbatim>\<open>eval\<close> of an expression is the parameter \<open>ev\<close>: what the expression means is not the business
  of these functions, which only cut it out of the file. A local variable that is read before
  it is bound raises \<open>UnboundLocalError\<close>.
\<close>

section \<open>Operations\<close>

type_synonym files = "string \<Rightarrow> string option"

text \<open>Iterating over a file yields its lines with their terminators.\<close>

fun file_lines :: "string \<Rightarrow> string list" where
  "file_lines [] = []"
| "file_lines (c # cs) =
     (if c = CHR 0x0A then [c] # file_lines cs
      else case file_lines cs of
             [] \<Rightarrow> [[c]]
           | l # ls \<Rightarrow> (c # l) # ls)"

definition drop_comment :: "string \<Rightarrow> string" where
  "drop_comment line = (if CHR ''#'' \<in> set line then str_split1 CHR ''#'' line ! 0 else line)"

text \<open>\<^verbatim>\<open>eval(s.split('=', 1)[1].strip())\<close>\<close>

definition eval_assignment :: "(string \<Rightarrow> 'v res) \<Rightarrow> string \<Rightarrow> 'v res" where
  "eval_assignment ev s =
     res_bind (py_index (str_split1 CHR ''='' s) 1) (\<lambda>v. ev (str_strip v))"

text \<open>The loop of \<^verbatim>\<open>get_list_from_file\<close> over the lines; the state is \<^verbatim>\<open>list_string\<close> and
  \<^verbatim>\<open>parsing_multiline_list\<close>.\<close>

fun list_loop ::
    "(string \<Rightarrow> 'v list res) \<Rightarrow> string \<Rightarrow> string \<Rightarrow> bool \<Rightarrow> string list \<Rightarrow> 'v list res" where
  "list_loop ev list_name list_string parsing [] = Inr []"
| "list_loop ev list_name list_string parsing (raw # ls) =
     (let line = drop_comment raw
      in if str_contains line list_name \<or> parsing
         then let list_string' = list_string @ line
              in if CHR '']'' \<notin> set list_string'
                 then list_loop ev list_name list_string' True ls
                 else eval_assignment ev list_string'
         else list_loop ev list_name list_string parsing ls)"

definition get_list_from_file ::
    "files \<Rightarrow> (string \<Rightarrow> 'v list res) \<Rightarrow> string \<Rightarrow> string \<Rightarrow> 'v list res" where
  "get_list_from_file fs ev file_path list_name =
     (case fs file_path of
        None \<Rightarrow> Inr []
      | Some content \<Rightarrow> list_loop ev list_name [] False (file_lines content))"

text \<open>The loop of \<^verbatim>\<open>get_bool_from_file\<close>: \<open>None\<close> when no line names the variable.\<close>

fun bool_loop :: "(string \<Rightarrow> bool res) \<Rightarrow> string \<Rightarrow> string list \<Rightarrow> bool option res" where
  "bool_loop ev bool_name [] = Inr None"
| "bool_loop ev bool_name (raw # ls) =
     (let line = drop_comment raw
      in if str_contains line bool_name
         then res_bind (eval_assignment ev line) (\<lambda>b. Inr (Some b))
         else bool_loop ev bool_name ls)"

definition get_bool_from_file ::
    "files \<Rightarrow> (string \<Rightarrow> bool res) \<Rightarrow> string \<Rightarrow> string \<Rightarrow> bool \<Rightarrow> bool res" where
  "get_bool_from_file fs ev file_path bool_name value_if_missing =
     (case fs file_path of
        None \<Rightarrow> Inl UnboundLocalError
      | Some content \<Rightarrow>
          res_bind (bool_loop ev bool_name (file_lines content)) (\<lambda>found.
            Inr (case found of Some b \<Rightarrow> b | None \<Rightarrow> value_if_missing)))"

record ns3rc =
  config_file_exists :: bool
  modules_enabled :: "string list"
  examples_enabled :: bool
  tests_enabled :: bool

text \<open>\<^verbatim>\<open>read_config_file\<close>; \<open>home\<close> is \<^verbatim>\<open>os.path.expanduser('~/')\<close>.\<close>

definition read_config_at ::
    "files \<Rightarrow> (string \<Rightarrow> string list res) \<Rightarrow> (string \<Rightarrow> bool res) \<Rightarrow> string \<Rightarrow> ns3rc res" where
  "read_config_at fs ev_list ev_bool dot_ns3rc_path =
     res_bind (get_list_from_file fs ev_list dot_ns3rc_path ''modules_enabled'') (\<lambda>modules.
     res_bind (get_bool_from_file fs ev_bool dot_ns3rc_path ''examples_enabled'' False) (\<lambda>examples.
     res_bind (get_bool_from_file fs ev_bool dot_ns3rc_path ''tests_enabled'' False) (\<lambda>tests.
       Inr \<lparr>config_file_exists = True,
            modules_enabled = (if modules = [] then [''all_modules''] else modules),
            examples_enabled = examples, tests_enabled = tests\<rparr>)))"

definition read_config_file ::
    "files \<Rightarrow> (string \<Rightarrow> string list res) \<Rightarrow> (string \<Rightarrow> bool res) \<Rightarrow> string \<Rightarrow> ns3rc res" where
  "read_config_file fs ev_list ev_bool home =
     (let dot_ns3rc_name = ''.ns3rc''
      in if fs dot_ns3rc_name = None
         then (if fs (home @ dot_ns3rc_name) = None
               then Inr \<lparr>config_file_exists = False, modules_enabled = [''all_modules''],
                         examples_enabled = False, tests_enabled = False\<rparr>
               else read_config_at fs ev_list ev_bool (home @ dot_ns3rc_name))
         else read_config_at fs ev_list ev_bool dot_ns3rc_name)"

section \<open>Lines\<close>

lemma concat_file_lines: "concat (file_lines s) = s"
  by (induction s rule: file_lines.induct) (auto split: list.splits)

lemma file_lines_line:
  "CHR 0x0A \<notin> set l \<Longrightarrow> file_lines (l @ CHR 0x0A # s) = (l @ [CHR 0x0A]) # file_lines s"
  by (induction l) auto

lemma file_lines_of_lines:
  assumes "\<forall>l\<in>set ls. CHR 0x0A \<notin> set l"
  shows "file_lines (concat (map (\<lambda>l. l @ [CHR 0x0A]) ls)) = map (\<lambda>l. l @ [CHR 0x0A]) ls"
  using assms by (induction ls) (auto simp: file_lines_line)

lemma drop_comment_plain: "CHR ''#'' \<notin> set l \<Longrightarrow> drop_comment l = l"
  by (simp add: drop_comment_def)

lemma drop_comment_takeWhile: "drop_comment l = takeWhile (\<lambda>c. c \<noteq> CHR ''#'') l"
proof (cases "CHR ''#'' \<in> set l")
  case False
  then have "takeWhile (\<lambda>c. c \<noteq> CHR ''#'') l = l" by (subst takeWhile_eq_all_conv) auto
  with False show ?thesis unfolding drop_comment_def by presburger
qed (simp add: drop_comment_def str_split1_def)

lemma eval_assignment_eq:
  "CHR ''='' \<notin> set lhs \<Longrightarrow> eval_assignment ev (lhs @ CHR ''='' # rhs) = ev (str_strip rhs)"
  by (auto simp: eval_assignment_def str_split1_def py_index_def takeWhile_append dropWhile_append)

section \<open>The loops\<close>

lemma list_loop_skip:
  assumes "\<forall>l\<in>set pre. \<not> str_contains (drop_comment l) nm"
  shows "list_loop ev nm s False (pre @ ls) = list_loop ev nm s False ls"
  using assms by (induction pre) (auto simp: Let_def)

lemma list_loop_absent:
  assumes "\<forall>l\<in>set ls. \<not> str_contains (drop_comment l) nm"
  shows "list_loop ev nm s False ls = Inr []"
  using list_loop_skip [OF assms, where ls = "[]"] by simp

lemma list_loop_gather:
  assumes "\<forall>l\<in>set mid. CHR '']'' \<notin> set (drop_comment l)" "CHR '']'' \<notin> set s"
  shows "list_loop ev nm s True (mid @ ls)
    = list_loop ev nm (s @ concat (map drop_comment mid)) True ls"
  using assms by (induction mid arbitrary: s) (auto simp: Let_def)

lemma list_loop_found:
  assumes pre: "\<forall>l\<in>set pre. \<not> str_contains (drop_comment l) nm"
    and first: "str_contains (drop_comment first) nm"
    and open_lines: "\<forall>l\<in>set (butlast (first # mid)). CHR '']'' \<notin> set (drop_comment l)"
    and close: "CHR '']'' \<in> set (drop_comment (last (first # mid)))"
  shows "list_loop ev nm [] False (pre @ (first # mid) @ rest)
    = eval_assignment ev (concat (map drop_comment (first # mid)))"
proof (cases mid rule: rev_cases)
  case Nil
  then show ?thesis using pre first close by (simp add: list_loop_skip Let_def)
next
  case (snoc ms m)
  have "list_loop ev nm [] False (pre @ (first # mid) @ rest)
      = list_loop ev nm (drop_comment first) True (ms @ m # rest)"
    using pre first open_lines snoc by (simp add: list_loop_skip Let_def)
  also have "\<dots> = list_loop ev nm (drop_comment first @ concat (map drop_comment ms)) True (m # rest)"
    using open_lines snoc by (intro list_loop_gather) auto
  also have "\<dots> = eval_assignment ev (concat (map drop_comment (first # mid)))"
    using close snoc by (simp add: Let_def)
  finally show ?thesis .
qed

section \<open>Properties\<close>

text \<open>a list that is assigned in a file, on one line or over several, is read back: after any
  lines that do not name it, the text from its \<^verbatim>\<open>=\<close> up to the first line with a \<^verbatim>\<open>]\<close> is
  evaluated, comments removed. When no line names the list, the result is the empty list.\<close>

theorem get_list_from_file_correct:
  assumes "fs path = Some content"
  shows "((\<forall>l\<in>set (file_lines content). \<not> str_contains (drop_comment l) nm)
      \<longrightarrow> get_list_from_file fs ev path nm = Inr [])
    \<and> (file_lines content = pre @ (first # mid) @ rest
        \<and> (\<forall>l\<in>set pre. \<not> str_contains (drop_comment l) nm)
        \<and> str_contains (drop_comment first) nm
        \<and> (\<forall>l\<in>set (butlast (first # mid)). CHR '']'' \<notin> set (drop_comment l))
        \<and> CHR '']'' \<in> set (drop_comment (last (first # mid)))
        \<and> concat (map drop_comment (first # mid)) = lhs @ CHR ''='' # rhs
        \<and> CHR ''='' \<notin> set lhs
      \<longrightarrow> get_list_from_file fs ev path nm = ev (str_strip rhs))"
  using assms list_loop_found [of pre nm first mid ev rest] eval_assignment_eq [of lhs ev rhs]
  by (auto simp: get_list_from_file_def list_loop_absent simp del: butlast.simps last.simps)

theorem get_list_from_file_correct_witness:
  "get_list_from_file [''examples-to-run.py'' \<mapsto> ''# all of them'' @ newline @ ''cpp_examples = ['' @ newline
       @ ''  1, # first'' @ newline @ ''  2]'' @ newline @ ''x'']
     (\<lambda>s. if s = ''['' @ newline @ ''  1, '' @ ''  2]'' then Inr [1 :: nat, 2] else Inl ValueError)
     ''examples-to-run.py'' ''cpp_examples'' = Inr [1, 2]"
proof -
  let ?nl = newline
  let ?c = "''# all of them'' @ ?nl @ ''cpp_examples = ['' @ ?nl @ ''  1, # first'' @ ?nl @ ''  2]'' @ ?nl @ ''x''"
  let ?ev = "\<lambda>s. if s = ''['' @ newline @ ''  1, '' @ ''  2]'' then Inr [1 :: nat, 2] else Inl ValueError"
  have "file_lines ?c = [''# all of them'' @ ?nl] @ ((''cpp_examples = ['' @ ?nl) #
      [''  1, # first'' @ ?nl, ''  2]'' @ ?nl]) @ [''x'']"
    by code_simp
  moreover have "\<forall>l\<in>set [''# all of them'' @ ?nl]. \<not> str_contains (drop_comment l) ''cpp_examples''"
    by code_simp
  moreover have "str_contains (drop_comment (''cpp_examples = ['' @ ?nl)) ''cpp_examples''"
    by code_simp
  moreover have "\<forall>l\<in>set (butlast ((''cpp_examples = ['' @ ?nl) # [''  1, # first'' @ ?nl, ''  2]'' @ ?nl])).
      CHR '']'' \<notin> set (drop_comment l)" by code_simp
  moreover have "CHR '']'' \<in> set (drop_comment (last ((''cpp_examples = ['' @ ?nl) #
      [''  1, # first'' @ ?nl, ''  2]'' @ ?nl])))" by code_simp
  moreover have "concat (map drop_comment ((''cpp_examples = ['' @ ?nl) #
      [''  1, # first'' @ ?nl, ''  2]'' @ ?nl])) = ''cpp_examples '' @ CHR ''='' #
      ('' ['' @ ?nl @ ''  1, '' @ ''  2]'' @ ?nl)" by code_simp
  moreover have "CHR ''='' \<notin> set ''cpp_examples ''" by simp
  moreover have "?ev (str_strip ('' ['' @ ?nl @ ''  1, '' @ ''  2]'' @ ?nl)) = Inr [1, 2]" by code_simp
  moreover have "[''examples-to-run.py'' \<mapsto> ?c] ''examples-to-run.py'' = Some ?c" by simp
  ultimately show ?thesis
    using get_list_from_file_correct [of "[''examples-to-run.py'' \<mapsto> ?c]" "''examples-to-run.py''" ?c
      "''cpp_examples''" ?ev "[''# all of them'' @ ?nl]" "''cpp_examples = ['' @ ?nl"
      "[''  1, # first'' @ ?nl, ''  2]'' @ ?nl]" "[''x'']" "''cpp_examples ''"
      "'' ['' @ ?nl @ ''  1, '' @ ''  2]'' @ ?nl"] by metis
qed

text \<open>\<^verbatim>\<open>get_bool_from_file\<close> returns the value of the first line that names the variable, and the
  default when no line of an existing file does; when the file does not exist it raises
  \<^verbatim>\<open>UnboundLocalError\<close>, although its documentation promises the default.\<close>

theorem get_bool_from_file_correct:
  "case fs path of
     None \<Rightarrow> get_bool_from_file fs ev path nm d = Inl UnboundLocalError
   | Some content \<Rightarrow>
       (case filter (\<lambda>l. str_contains (drop_comment l) nm) (file_lines content) of
          [] \<Rightarrow> get_bool_from_file fs ev path nm d = Inr d
        | l # ls \<Rightarrow> get_bool_from_file fs ev path nm d = eval_assignment ev (drop_comment l))"
proof (cases "fs path")
  case (Some content)
  have "bool_loop ev nm ls = (case filter (\<lambda>l. str_contains (drop_comment l) nm) ls of
      [] \<Rightarrow> Inr None | l # _ \<Rightarrow> res_bind (eval_assignment ev (drop_comment l)) (\<lambda>b. Inr (Some b)))" for ls
    by (induction ls) (auto simp: Let_def)
  with Some show ?thesis
    by (auto simp: get_bool_from_file_def res_bind_def split: list.splits sum.splits)
qed (simp add: get_bool_from_file_def)

end
