(* ===== verification/Test_Job.thy ===== *)
theory Test_Job
  imports Complex_Main Config_Files
begin

text \<open>
  \<^verbatim>\<open>test.py\<close>, part 1: the options, the configuration variables, the class \<^verbatim>\<open>Job\<close> and the
  execution of one job (\<^verbatim>\<open>run_job_synchronously\<close> and the body of \<^verbatim>\<open>worker_thread.run\<close> for a
  job that is run).

  The operating system is a parameter: \<open>popen\<close> maps a command and a directory to the return
  code, the bytes on the two output streams and the elapsed time of the child process, or to the
  exception of \<^verbatim>\<open>subprocess.Popen\<close> when the process cannot be started (\<^verbatim>\<open>OSError\<close>, for instance
  for a directory that does not exist); \<open>decode\<close> is the decoding of bytes into text, \<open>None\<close> when it raises \<^verbatim>\<open>UnicodeDecodeError\<close>. Times are
  rationals. What \<^verbatim>\<open>options.verbose\<close> prints is not modelled.
\<close>

section \<open>Options and configuration\<close>

text \<open>The attributes of \<^verbatim>\<open>options\<close> with their \<^verbatim>\<open>optparse\<close> destinations.\<close>

record options =
  opt_buildpath :: string
  opt_constrain :: string
  opt_duration :: bool
  opt_example :: string
  opt_update_data :: bool
  opt_fullness :: string
  opt_valgrind :: bool
  opt_kinds :: bool
  opt_list :: bool
  opt_multiple :: bool
  opt_no_build :: bool
  opt_pyexample :: string
  opt_retain :: bool
  opt_suite :: string
  opt_text :: string
  opt_verbose :: bool
  opt_html :: string
  opt_xml :: string
  opt_nocolor :: bool
  opt_process_limit :: int

definition default_options :: options where
  "default_options = \<lparr>opt_buildpath = '''', opt_constrain = '''', opt_duration = False,
     opt_example = '''', opt_update_data = False, opt_fullness = ''QUICK'', opt_valgrind = False,
     opt_kinds = False, opt_list = False, opt_multiple = False, opt_no_build = False,
     opt_pyexample = '''', opt_retain = False, opt_suite = '''', opt_text = '''',
     opt_verbose = False, opt_html = '''', opt_xml = '''', opt_nocolor = False,
     opt_process_limit = 0\<rparr>"

text \<open>The module variables that \<^verbatim>\<open>read_ns3_config\<close> sets.\<close>

record config =
  NS3_BASEDIR :: string
  NS3_BUILDDIR :: string
  NS3_ENABLED_MODULES :: "string list"
  NS3_ENABLED_CONTRIBUTED_MODULES :: "string list"
  NS3_MODULE_PATH :: "string list"
  ENABLE_EXAMPLES :: bool
  ENABLE_TESTS :: bool
  ENABLE_PYTHON_BINDINGS :: bool
  EXAMPLE_DIRECTORIES :: "string list"
  APPNAME :: string
  BUILD_PROFILE :: string
  BUILD_PROFILE_SUFFIX :: string
  VERSION :: string
  PYTHON :: "string list"
  VALGRIND_FOUND :: bool

section \<open>Jobs\<close>

record job =
  is_break :: bool
  is_skip :: bool
  skip_reason :: string
  is_example :: bool
  is_pyexample :: bool
  shell_command :: string
  display_name :: string
  basedir :: string
  tempdir :: string
  cwd :: string
  tmp_file_name :: string
  returncode :: int
  elapsed_time :: rat
  build_path :: string

text \<open>\<^verbatim>\<open>Job()\<close>: the return code starts as \<^verbatim>\<open>False\<close>, which is equal to \<open>0\<close>. The setters of
  the class are the record updates.\<close>

definition Job :: job where
  "Job = \<lparr>is_break = False, is_skip = False, skip_reason = '''', is_example = False,
     is_pyexample = False, shell_command = '''', display_name = '''', basedir = '''',
     tempdir = '''', cwd = '''', tmp_file_name = '''', returncode = 0, elapsed_time = 0,
     build_path = ''''\<rparr>"

section \<open>Child processes\<close>

type_synonym bytes = "nat list"

record process =
  proc_returncode :: int
  proc_stdout :: bytes
  proc_stderr :: bytes
  proc_time :: rat

datatype stream = Decoded string | Undecoded bytes

type_synonym popen = "string \<Rightarrow> string \<Rightarrow> process res"
type_synonym decoder = "bytes \<Rightarrow> string option"

record job_result =
  retval :: int
  stdout_results :: stream
  stderr_results :: stream
  time_taken :: rat

definition decode_stream :: "decoder \<Rightarrow> bytes \<Rightarrow> stream" where
  "decode_stream decode bs = (case decode bs of Some s \<Rightarrow> Decoded s | None \<Rightarrow> Undecoded bs)"

definition VALGRIND_SUPPRESSIONS_FILE :: string where
  "VALGRIND_SUPPRESSIONS_FILE = ''testpy.supp''"

text \<open>The command line of a job.\<close>

definition job_command ::
    "config \<Rightarrow> string \<Rightarrow> bool \<Rightarrow> bool \<Rightarrow> string \<Rightarrow> string res" where
  "job_command cfg command valgrind is_python path =
     res_bind
       (if is_python
        then res_bind (py_index (PYTHON cfg) 0) (\<lambda>python.
               Inr (python @ '' '' @ path_join (NS3_BASEDIR cfg) command))
        else if path \<noteq> [] then Inr (path_join path command)
        else Inr (path_join (NS3_BUILDDIR cfg) command))
       (\<lambda>path_cmd.
          if valgrind
          then Inr (''valgrind --suppressions=''
                 @ path_join (NS3_BASEDIR cfg) VALGRIND_SUPPRESSIONS_FILE
                 @ '' --leak-check=full --show-reachable=yes --error-exitcode=2 --errors-for-leak-kinds=all ''
                 @ path_cmd)
          else Inr path_cmd)"

definition run_job_synchronously ::
    "popen \<Rightarrow> decoder \<Rightarrow> config \<Rightarrow> string \<Rightarrow> string \<Rightarrow> bool \<Rightarrow> bool \<Rightarrow> string
      \<Rightarrow> job_result res" where
  "run_job_synchronously popen decode cfg command directory valgrind is_python path =
     res_bind (job_command cfg command valgrind is_python path) (\<lambda>cmd.
     res_bind (popen cmd directory) (\<lambda>proc.
       let out = decode_stream decode (proc_stdout proc);
           err = decode_stream decode (proc_stderr proc);
           rv0 = proc_returncode proc;
           rv1 = (case out of Decoded _ \<Rightarrow> rv0 | Undecoded _ \<Rightarrow> 1);
           rv2 = (case err of Decoded _ \<Rightarrow> rv1 | Undecoded _ \<Rightarrow> 1)
       in Inr \<lparr>retval = rv2, stdout_results = out, stderr_results = err,
               time_taken = proc_time proc\<rparr>))"

text \<open>What a worker thread does with a job that is neither a break job nor skipped.\<close>

definition work ::
    "popen \<Rightarrow> decoder \<Rightarrow> config \<Rightarrow> options \<Rightarrow> job \<Rightarrow> job res" where
  "work popen decode cfg opts j =
     res_bind
       (if is_example j \<or> is_pyexample j
        then run_job_synchronously popen decode cfg (shell_command j) (cwd j)
               (opt_valgrind opts) (is_pyexample j) (build_path j)
        else run_job_synchronously popen decode cfg
               (shell_command j @ '' --xml --tempdir='' @ tempdir j @ '' --out='' @ tmp_file_name j
                 @ '' '' @ (if opt_update_data opts then ''--update-data'' else ''''))
               (cwd j) (opt_valgrind opts) False '''')
       (\<lambda>r. Inr (j\<lparr>returncode := retval r, elapsed_time := time_taken r\<rparr>))"

section \<open>What running a job does\<close>

text \<open>The command that a job stands for, as the comments of the script describe it: a Python
  example is given to the first configured interpreter, a C++ example runs from its build path,
  if it has one, a suite runs from the build directory and reports to its own file; under valgrind
  the whole is an argument of valgrind.\<close>

definition command_line :: "config \<Rightarrow> options \<Rightarrow> job \<Rightarrow> string" where
  "command_line cfg opts j =
     (if opt_valgrind opts
      then ''valgrind --suppressions='' @ path_join (NS3_BASEDIR cfg) ''testpy.supp''
        @ '' --leak-check=full --show-reachable=yes --error-exitcode=2 --errors-for-leak-kinds=all ''
      else '''')
     @ (if is_pyexample j then hd (PYTHON cfg) @ '' '' @ path_join (NS3_BASEDIR cfg) (shell_command j)
        else if is_example j
        then path_join (if build_path j = '''' then NS3_BUILDDIR cfg else build_path j) (shell_command j)
        else path_join (NS3_BUILDDIR cfg)
          (shell_command j @ '' --xml --tempdir='' @ tempdir j @ '' --out='' @ tmp_file_name j @ '' ''
            @ (if opt_update_data opts then ''--update-data'' else '''')))"

text \<open>The jobs that do not raise in the worker thread: those that are skipped, and those whose
  process can be started, for a Python example with a configured interpreter.\<close>

definition job_runnable :: "popen \<Rightarrow> config \<Rightarrow> options \<Rightarrow> job \<Rightarrow> bool" where
  "job_runnable popen cfg opts j \<longleftrightarrow>
     is_skip j \<or> ((is_pyexample j \<longrightarrow> PYTHON cfg \<noteq> [])
       \<and> (case popen (command_line cfg opts j) (cwd j) of Inl _ \<Rightarrow> False | Inr _ \<Rightarrow> True))"


lemma job_command_eq:
  assumes "b \<longrightarrow> PYTHON cfg \<noteq> []"
  shows "job_command cfg c v b p = Inr
    ((if v then ''valgrind --suppressions='' @ path_join (NS3_BASEDIR cfg) ''testpy.supp''
        @ '' --leak-check=full --show-reachable=yes --error-exitcode=2 --errors-for-leak-kinds=all ''
      else '''')
     @ (if b then hd (PYTHON cfg) @ '' '' @ path_join (NS3_BASEDIR cfg) c
        else path_join (if p = '''' then NS3_BUILDDIR cfg else p) c))"
proof -
  have "py_index (PYTHON cfg) 0 = Inr (hd (PYTHON cfg))" if b
    using that assms by (cases "PYTHON cfg") (simp_all add: py_index_def)
  then show ?thesis
    by (cases b; cases v; cases "p = ''''")
      (simp_all add: job_command_def VALGRIND_SUPPRESSIONS_FILE_def del: append_Cons)
qed

lemma job_command_line:
  assumes "is_pyexample j \<longrightarrow> PYTHON cfg \<noteq> []"
  shows "is_example j \<or> is_pyexample j \<Longrightarrow>
      job_command cfg (shell_command j) (opt_valgrind opts) (is_pyexample j) (build_path j)
        = Inr (command_line cfg opts j)"
    and "\<not> (is_example j \<or> is_pyexample j) \<Longrightarrow>
      job_command cfg (shell_command j @ '' --xml --tempdir='' @ tempdir j @ '' --out='' @ tmp_file_name j
          @ '' '' @ (if opt_update_data opts then ''--update-data'' else ''''))
        (opt_valgrind opts) False '''' = Inr (command_line cfg opts j)"
  unfolding command_line_def using assms by (auto simp del: append_Cons simp add: job_command_eq)

lemma run_job_eq:
  "run_job_synchronously popen decode cfg c d v b p =
     res_bind (job_command cfg c v b p) (\<lambda>cmd. res_bind (popen cmd d) (\<lambda>proc.
       Inr \<lparr>retval = (if decode (proc_stdout proc) = None \<or> decode (proc_stderr proc) = None then 1
              else proc_returncode proc),
            stdout_results = decode_stream decode (proc_stdout proc),
            stderr_results = decode_stream decode (proc_stderr proc),
            time_taken = proc_time proc\<rparr>))"
  unfolding run_job_synchronously_def Let_def
  by (intro arg_cong2 [where f = res_bind] refl ext)
    (simp add: decode_stream_def split: option.splits)

lemma work_eq:
  assumes "is_pyexample j \<longrightarrow> PYTHON cfg \<noteq> []"
  shows "work popen decode cfg opts j =
    res_bind (popen (command_line cfg opts j) (cwd j)) (\<lambda>proc.
      Inr (j\<lparr>returncode := (if decode (proc_stdout proc) = None \<or> decode (proc_stderr proc) = None
               then 1 else proc_returncode proc),
             elapsed_time := proc_time proc\<rparr>))"
proof (cases "is_example j \<or> is_pyexample j")
  case True
  then show ?thesis using job_command_line(1) [OF assms True]
    by (cases "popen (command_line cfg opts j) (cwd j)") (simp_all add: work_def run_job_eq)
next
  case False
  then show ?thesis unfolding work_def run_job_eq if_not_P [OF False]
      job_command_line(2) [OF assms False] res_bind_Inr
    by (cases "popen (command_line cfg opts j) (cwd j)") simp_all
qed

lemma work_total:
  assumes "job_runnable popen cfg opts j" "\<not> is_skip j"
  shows "\<exists>rc t. work popen decode cfg opts j = Inr (j\<lparr>returncode := rc, elapsed_time := t\<rparr>)"
  using assms work_eq [of j cfg popen decode opts]
  by (auto simp: job_runnable_def split: sum.splits)

lemma work_keeps:
  assumes "work popen decode cfg opts j = Inr j'"
  obtains rc t where "j' = j\<lparr>returncode := rc, elapsed_time := t\<rparr>"
  using assms unfolding work_def res_bind_eq_Inr by blast

section \<open>Properties\<close>


end
