(* ===== verification/Test_Pool.thy ===== *)
theory Test_Pool
  imports Test_Job
begin

text \<open>
  \<^verbatim>\<open>test.py\<close>, part 2: the worker threads and the two queues. A state holds the two queues, what
  each thread is doing, the flag \<^verbatim>\<open>thread_exit\<close> that the SIGINT handler sets, and the part of
  the main thread that the threads see: the jobs it still has to put (\<open>todo\<close>), the number of
  results it still waits for and the results it has got.

  A run is a sequence of actions in any interleaving. The queues are FIFO and each \<^verbatim>\<open>get\<close> and
  \<^verbatim>\<open>put\<close> is one action, so a thread can be overtaken between the two. \<open>w\<close> is what a thread
  does with a job (\<open>work\<close> of the theory Test_Job); a thread in which it raises dies with its job.

  The theorems: with a thread and jobs that do not raise, whatever the interleaving, every run ends; when it ends every job has come back
  exactly once and every thread has left its loop. Without a thread the main thread waits for
  ever.
\<close>

section \<open>States and actions\<close>

datatype worker = Idle | Holding job | Running job | Returned | Crashed

record pool =
  todo :: "job list"
  input_queue :: "job list"
  output_queue :: "job list"
  threads :: "worker list"
  thread_exit :: bool
  waiting_for :: nat
  received :: "job list"

datatype action = Put | Get nat | Decide nat | Finish nat | Receive | Sigint

definition break_job :: job where
  "break_job = Job\<lparr>is_break := True\<rparr>"

text \<open>Spinning up the threads, with the jobs to dispatch and one break job per thread.\<close>

definition start_pool :: "nat \<Rightarrow> job list \<Rightarrow> pool" where
  "start_pool processors jobs =
     \<lparr>todo = jobs @ replicate processors break_job, input_queue = [], output_queue = [],
      threads = replicate processors Idle, thread_exit = False, waiting_for = length jobs,
      received = []\<rparr>"

text \<open>The body of \<^verbatim>\<open>worker_thread.run\<close> after its \<^verbatim>\<open>get\<close>.\<close>

definition decide :: "pool \<Rightarrow> nat \<Rightarrow> job \<Rightarrow> pool" where
  "decide S i j =
     (if is_break j then S\<lparr>threads := (threads S)[i := Returned]\<rparr>
      else if thread_exit S
      then S\<lparr>threads := (threads S)[i := Idle],
             output_queue := output_queue S @ [j\<lparr>is_break := True\<rparr>]\<rparr>
      else if is_skip j
      then S\<lparr>threads := (threads S)[i := Idle], output_queue := output_queue S @ [j]\<rparr>
      else S\<lparr>threads := (threads S)[i := Running j]\<rparr>)"

definition finish :: "(job \<Rightarrow> job res) \<Rightarrow> pool \<Rightarrow> nat \<Rightarrow> job \<Rightarrow> pool" where
  "finish w S i j =
     (case w j of
        Inl _ \<Rightarrow> S\<lparr>threads := (threads S)[i := Crashed]\<rparr>
      | Inr j' \<Rightarrow> S\<lparr>threads := (threads S)[i := Idle], output_queue := output_queue S @ [j']\<rparr>)"

fun pool_next :: "(job \<Rightarrow> job res) \<Rightarrow> pool \<Rightarrow> action \<Rightarrow> pool option" where
  "pool_next w S Put =
     (case todo S of
        [] \<Rightarrow> None
      | j # js \<Rightarrow> Some (S\<lparr>todo := js, input_queue := input_queue S @ [j]\<rparr>))"
| "pool_next w S (Get i) =
     (if i < length (threads S) \<and> threads S ! i = Idle
      then (case input_queue S of
              [] \<Rightarrow> None
            | j # js \<Rightarrow> Some (S\<lparr>input_queue := js, threads := (threads S)[i := Holding j]\<rparr>))
      else None)"
| "pool_next w S (Decide i) =
     (if i < length (threads S)
      then (case threads S ! i of Holding j \<Rightarrow> Some (decide S i j) | _ \<Rightarrow> None)
      else None)"
| "pool_next w S (Finish i) =
     (if i < length (threads S)
      then (case threads S ! i of Running j \<Rightarrow> Some (finish w S i j) | _ \<Rightarrow> None)
      else None)"
| "pool_next w S Receive =
     (if todo S = [] \<and> 0 < waiting_for S
      then (case output_queue S of
              [] \<Rightarrow> None
            | j # js \<Rightarrow> Some (S\<lparr>output_queue := js, waiting_for := waiting_for S - 1,
                                 received := received S @ [j]\<rparr>))
      else None)"
| "pool_next w S Sigint = (if thread_exit S then None else Some (S\<lparr>thread_exit := True\<rparr>))"

fun pool_run :: "(job \<Rightarrow> job res) \<Rightarrow> pool \<Rightarrow> action list \<Rightarrow> pool option" where
  "pool_run w S [] = Some S"
| "pool_run w S (a # as) = (case pool_next w S a of None \<Rightarrow> None | Some S' \<Rightarrow> pool_run w S' as)"

inductive pool_reachable :: "(job \<Rightarrow> job res) \<Rightarrow> pool \<Rightarrow> pool \<Rightarrow> bool"
  for w S0 where
  start: "pool_reachable w S0 S0"
| step: "pool_reachable w S0 S \<Longrightarrow> pool_next w S a = Some S' \<Longrightarrow> pool_reachable w S0 S'"

text \<open>Nothing is left to do: the main thread has all results and has joined all threads.\<close>

definition pool_done :: "pool \<Rightarrow> bool" where
  "pool_done S \<longleftrightarrow> todo S = [] \<and> waiting_for S = 0 \<and> list_all (\<lambda>t. t = Returned) (threads S)"

definition worker_action :: "action \<Rightarrow> bool" where
  "worker_action a \<longleftrightarrow> a \<noteq> Sigint"

section \<open>Conservation of jobs\<close>

fun held :: "worker \<Rightarrow> job list" where
  "held (Holding j) = [j]"
| "held (Running j) = [j]"
| "held _ = []"

text \<open>What comes back for a job: the job as it was run or skipped, or, after an interrupt, the
  job marked as a break.\<close>

definition answer :: "(job \<Rightarrow> job res) \<Rightarrow> job \<Rightarrow> job" where
  "answer w j = (if is_skip j then j else case w j of Inr j' \<Rightarrow> j' | Inl _ \<Rightarrow> j)"

definition answers :: "(job \<Rightarrow> job res) \<Rightarrow> bool \<Rightarrow> job \<Rightarrow> job \<Rightarrow> bool" where
  "answers w interrupted j r \<longleftrightarrow>
     r = answer w j \<or> (interrupted \<and> r = j\<lparr>is_break := True\<rparr>)"

definition job_list_ok :: "(job \<Rightarrow> job res) \<Rightarrow> job list \<Rightarrow> bool" where
  "job_list_ok w jobs \<longleftrightarrow>
     list_all (\<lambda>j. \<not> is_break j \<and> (is_skip j \<or> (\<exists>j'. w j = Inr j'))) jobs"

text \<open>The pending jobs and the answered ones account for everything that was dispatched; there is
  one break job or returned thread per thread, and break jobs come last; no thread has crashed.\<close>

definition breaks_last :: "job list \<Rightarrow> bool" where
  "breaks_last js \<longleftrightarrow> dropWhile (\<lambda>j. \<not> is_break j) js = filter is_break js"

definition returned_count :: "pool \<Rightarrow> nat" where
  "returned_count S = length (filter (\<lambda>t. t = Returned) (threads S))"

definition held_jobs :: "pool \<Rightarrow> job multiset" where
  "held_jobs S = mset (concat (map held (threads S)))"

definition queued_jobs :: "pool \<Rightarrow> job list" where
  "queued_jobs S = input_queue S @ todo S"

definition threads_inv :: "nat \<Rightarrow> pool \<Rightarrow> bool" where
  "threads_inv n S \<longleftrightarrow> length (threads S) = n \<and> Crashed \<notin> set (threads S)
     \<and> (\<forall>j. Running j \<in> set (threads S) \<longrightarrow> \<not> is_break j \<and> \<not> is_skip j)"

definition jobs_inv :: "(job \<Rightarrow> job res) \<Rightarrow> job list \<Rightarrow> pool \<Rightarrow> bool" where
  "jobs_inv w jobs S \<longleftrightarrow>
     (\<exists>js. filter_mset (\<lambda>j. \<not> is_break j) (held_jobs S + mset (queued_jobs S)) + mset js = mset jobs
        \<and> list_all2 (answers w (thread_exit S)) js (received S @ output_queue S))
     \<and> waiting_for S + length (received S) = length jobs"

definition held_breaks :: "pool \<Rightarrow> nat" where
  "held_breaks S = size (filter_mset is_break (held_jobs S))"

definition breaks_inv :: "nat \<Rightarrow> pool \<Rightarrow> bool" where
  "breaks_inv n S \<longleftrightarrow>
     held_breaks S + length (filter is_break (queued_jobs S)) + returned_count S = n
     \<and> breaks_last (queued_jobs S)
     \<and> (0 < held_breaks S + returned_count S \<longrightarrow> list_all is_break (queued_jobs S))"

definition pool_inv :: "(job \<Rightarrow> job res) \<Rightarrow> nat \<Rightarrow> job list \<Rightarrow> pool \<Rightarrow> bool" where
  "pool_inv w n jobs S \<longleftrightarrow> threads_inv n S \<and> jobs_inv w jobs S \<and> breaks_inv n S"

lemma held_update:
  assumes "i < length ts"
  shows "mset (concat (map held (ts[i := t]))) + mset (held (ts ! i))
    = mset (concat (map held ts)) + mset (held t)"
  using assms
proof (induction ts arbitrary: i)
  case (Cons a ts)
  then show ?case by (cases i) (auto simp: algebra_simps)
qed simp

lemma count_update:
  assumes "i < length ts"
  shows "length (filter P (ts[i := t])) + (if P (ts ! i) then 1 else 0)
    = length (filter P ts) + (if P t then 1 else 0)"
  using assms
proof (induction ts arbitrary: i)
  case (Cons a ts)
  then show ?case by (cases i) auto
qed simp

lemma breaks_last_all: "list_all is_break js \<Longrightarrow> breaks_last js"
  by (cases js) (auto simp: breaks_last_def list_all_iff intro: sym [OF filter_True])

lemma breaks_last_Cons:
  "breaks_last (j # js) \<longleftrightarrow> (if is_break j then list_all is_break js else breaks_last js)"
proof (cases "is_break j")
  case True
  then have "breaks_last (j # js) \<longleftrightarrow> filter is_break js = js"
    by (auto simp: breaks_last_def)
  then show ?thesis using True by (simp add: filter_id_conv list_all_iff)
qed (simp add: breaks_last_def)

lemma breaks_last_start:
  "list_all (\<lambda>j. \<not> is_break j) jobs \<Longrightarrow> breaks_last (jobs @ replicate n break_job)"
  by (induction jobs)
    (auto simp: breaks_last_Cons break_job_def list_all_iff intro!: breaks_last_all)

text \<open>How each action moves the jobs.\<close>

lemma pool_start_inv:
  assumes "job_list_ok w jobs"
  shows "pool_inv w n jobs (start_pool n jobs)"
proof -
  have nb: "list_all (\<lambda>j. \<not> is_break j) jobs"
    using assms by (auto simp: job_list_ok_def list_all_iff)
  have h: "held_jobs (start_pool n jobs) = {#}"
    by (simp add: held_jobs_def start_pool_def)
  have q: "queued_jobs (start_pool n jobs) = jobs @ replicate n break_job"
    by (simp add: queued_jobs_def start_pool_def)
  have r: "returned_count (start_pool n jobs) = 0"
    by (simp add: returned_count_def start_pool_def)
  have f: "filter (\<lambda>j. \<not> is_break j) jobs = jobs" "filter is_break jobs = []"
    using nb by (auto simp: list_all_iff filter_id_conv filter_empty_conv)
  have "threads_inv n (start_pool n jobs)"
    by (auto simp: threads_inv_def start_pool_def)
  moreover have "breaks_inv n (start_pool n jobs)"
    unfolding breaks_inv_def held_breaks_def h q r
    using breaks_last_start [OF nb] f by (simp add: break_job_def)
  moreover have "jobs_inv w jobs (start_pool n jobs)"
    unfolding jobs_inv_def h q
    using f by (simp add: start_pool_def break_job_def flip: mset_filter)
  ultimately show ?thesis by (simp add: pool_inv_def)
qed

lemma put_inv:
  assumes "pool_inv w n jobs S" "todo S = j # js"
  shows "pool_inv w n jobs (S\<lparr>todo := js, input_queue := input_queue S @ [j]\<rparr>)"
  using assms
  by (simp add: pool_inv_def threads_inv_def jobs_inv_def breaks_inv_def held_breaks_def held_jobs_def
      queued_jobs_def returned_count_def)

lemma sigint_inv:
  assumes "pool_inv w n jobs S"
  shows "pool_inv w n jobs (S\<lparr>thread_exit := True\<rparr>)"
proof -
  have "list_all2 (answers w True) js rs" if "list_all2 (answers w b) js rs" for js rs b
    using that by (rule list_all2_mono) (auto simp: answers_def)
  then show ?thesis using assms
    by (auto simp: pool_inv_def threads_inv_def jobs_inv_def breaks_inv_def held_breaks_def held_jobs_def
      queued_jobs_def returned_count_def)
qed

lemma receive_inv:
  assumes "pool_inv w n jobs S" "output_queue S = j # js" "0 < waiting_for S"
  shows "pool_inv w n jobs (S\<lparr>output_queue := js, waiting_for := waiting_for S - 1,
    received := received S @ [j]\<rparr>)"
  using assms
  by (auto simp: pool_inv_def threads_inv_def jobs_inv_def breaks_inv_def held_breaks_def held_jobs_def
      queued_jobs_def returned_count_def)

lemma get_inv:
  assumes inv: "pool_inv w n jobs S" and i: "i < length (threads S)" "threads S ! i = Idle"
    and q: "input_queue S = j # js"
  shows "pool_inv w n jobs (S\<lparr>input_queue := js, threads := (threads S)[i := Holding j]\<rparr>)"
    (is "pool_inv w n jobs ?S'")
proof -
  have h: "held_jobs ?S' = held_jobs S + {#j#}"
    using held_update [OF i(1), of "Holding j"] i(2) by (simp add: held_jobs_def)
  have hb: "held_breaks ?S' = held_breaks S + (if is_break j then 1 else 0)"
    unfolding held_breaks_def h by simp
  have qq: "queued_jobs S = j # queued_jobs ?S'" using q by (simp add: queued_jobs_def)
  have r: "returned_count ?S' = returned_count S"
    using count_update [OF i(1), of "\<lambda>t. t = Returned" "Holding j"] i(2)
    by (simp add: returned_count_def)
  have "threads_inv n ?S'"
    using inv i by (auto simp: pool_inv_def threads_inv_def dest!: set_update_subset_insert [THEN subsetD])
  moreover have "jobs_inv w jobs ?S'"
    using inv unfolding pool_inv_def jobs_inv_def h qq by (simp add: union_commute)
  moreover have "breaks_inv n ?S'"
    using inv unfolding pool_inv_def breaks_inv_def hb qq r
    by (cases "is_break j") (auto simp: breaks_last_Cons breaks_last_all)
  ultimately show ?thesis by (simp add: pool_inv_def)
qed

text \<open>A thread lets go of the job it holds, and possibly puts an answer for it.\<close>

definition release :: "pool \<Rightarrow> nat \<Rightarrow> worker \<Rightarrow> job list \<Rightarrow> pool" where
  "release S i t rs = S\<lparr>threads := (threads S)[i := t], output_queue := output_queue S @ rs\<rparr>"

lemma release_held:
  assumes "i < length (threads S)" "held (threads S ! i) = [j]" "held t = []"
  shows "held_jobs S = add_mset j (held_jobs (release S i t rs))"
  using held_update [OF assms(1), of t] assms(2,3) by (simp add: held_jobs_def release_def)

lemma release_returned:
  assumes "i < length (threads S)" "held (threads S ! i) = [j]"
  shows "returned_count (release S i t rs) = returned_count S + (if t = Returned then 1 else 0)"
  using count_update [OF assms(1), of "\<lambda>t. t = Returned" t] assms(2)
  by (cases "threads S ! i") (auto simp: returned_count_def release_def)

lemma release_queued: "queued_jobs (release S i t rs) = queued_jobs S"
  by (simp add: queued_jobs_def release_def)

lemma release_inv:
  assumes inv: "pool_inv w n jobs S" and i: "i < length (threads S)" "held (threads S ! i) = [j]"
    and t: "if is_break j then t = Returned \<and> rs = []
      else t = Idle \<and> (\<exists>r. rs = [r] \<and> answers w (thread_exit S) j r)"
  shows "pool_inv w n jobs (release S i t rs)" (is "pool_inv w n jobs ?S'")
proof -
  have ht: "held t = []" using t by (auto split: if_splits)
  note h = release_held [OF i ht, of rs]
  have hb: "held_breaks S = held_breaks ?S' + (if is_break j then 1 else 0)"
    unfolding held_breaks_def h by simp
  have r: "returned_count ?S' = returned_count S + (if is_break j then 1 else 0)"
    using release_returned [OF i, of t rs] t by (auto split: if_splits)
  have "threads_inv n ?S'"
    using inv t
    by (auto simp: pool_inv_def threads_inv_def release_def split: if_splits
        dest!: set_update_subset_insert [THEN subsetD])
  moreover have "breaks_inv n ?S'"
    using inv unfolding pool_inv_def breaks_inv_def hb r release_queued by auto
  moreover have "jobs_inv w jobs ?S'"
  proof -
    obtain js where js:
      "filter_mset (\<lambda>j. \<not> is_break j) (held_jobs S + mset (queued_jobs S)) + mset js = mset jobs"
      "list_all2 (answers w (thread_exit S)) js (received S @ output_queue S)"
      "waiting_for S + length (received S) = length jobs"
      using inv unfolding pool_inv_def jobs_inv_def by blast
    let ?js = "js @ (if is_break j then [] else [j])"
    have "filter_mset (\<lambda>j. \<not> is_break j) (held_jobs ?S' + mset (queued_jobs ?S')) + mset ?js = mset jobs"
      using js(1) unfolding h release_queued by auto
    moreover have "list_all2 (answers w (thread_exit ?S')) ?js (received ?S' @ output_queue ?S')"
      using js(2) t by (auto simp: release_def append_assoc [symmetric] simp del: append_assoc
          intro!: list_all2_appendI split: if_splits)
    ultimately show ?thesis using js(3) unfolding jobs_inv_def
      by (intro conjI exI [of _ ?js]) (auto simp: release_def)
  qed
  ultimately show ?thesis by (simp add: pool_inv_def)
qed

lemma held_in_jobs:
  assumes "pool_inv w n jobs S" "i < length (threads S)" "held (threads S ! i) = [j]" "\<not> is_break j"
  shows "j \<in> set jobs"
proof -
  have "j \<in># held_jobs S" using assms(2,3) unfolding held_jobs_def
    by (auto simp: in_set_conv_nth intro!: bexI [of _ "threads S ! i"])
  then have "j \<in># filter_mset (\<lambda>j. \<not> is_break j) (held_jobs S + mset (queued_jobs S))"
    using assms(4) by simp
  then have "j \<in># mset jobs" using assms(1) unfolding pool_inv_def jobs_inv_def
    by (metis mset_subset_eq_add_left mset_subset_eqD)
  then show ?thesis by simp
qed

lemma decide_inv:
  assumes inv: "pool_inv w n jobs S" and i: "i < length (threads S)" "threads S ! i = Holding j"
  shows "pool_inv w n jobs (decide S i j)"
proof -
  have h: "held (threads S ! i) = [j]" using i by simp
  consider "is_break j" | "\<not> is_break j" "thread_exit S" | "\<not> is_break j" "\<not> thread_exit S" "is_skip j"
    | "\<not> is_break j" "\<not> thread_exit S" "\<not> is_skip j" by blast
  then show ?thesis
  proof cases
    case 1
    then have "decide S i j = release S i Returned []" by (simp add: decide_def release_def)
    then show ?thesis using release_inv [OF inv i(1) h, of Returned "[]"] 1 by simp
  next
    case 2
    then have "decide S i j = release S i Idle [j\<lparr>is_break := True\<rparr>]"
      by (simp add: decide_def release_def)
    then show ?thesis using release_inv [OF inv i(1) h, of Idle "[j\<lparr>is_break := True\<rparr>]"] 2
      by (simp add: answers_def)
  next
    case 3
    then have "decide S i j = release S i Idle [j]" by (simp add: decide_def release_def)
    then show ?thesis using release_inv [OF inv i(1) h, of Idle "[j]"] 3
      by (simp add: answers_def answer_def)
  next
    case 4
    then have d: "decide S i j = S\<lparr>threads := (threads S)[i := Running j]\<rparr>" by (simp add: decide_def)
    have "held_jobs (decide S i j) = held_jobs S"
      using held_update [OF i(1), of "Running j"] i(2) by (simp add: d held_jobs_def)
    moreover have "returned_count (decide S i j) = returned_count S"
      using count_update [OF i(1), of "\<lambda>t. t = Returned" "Running j"] i(2)
      by (simp add: d returned_count_def)
    moreover have "threads_inv n (decide S i j)"
      using inv 4 by (auto simp: d pool_inv_def threads_inv_def
          dest!: set_update_subset_insert [THEN subsetD])
    ultimately show ?thesis using inv
      by (simp add: pool_inv_def jobs_inv_def breaks_inv_def held_breaks_def)
        (simp add: d queued_jobs_def)
  qed
qed

lemma finish_inv:
  assumes inv: "pool_inv w n jobs S" and i: "i < length (threads S)" "threads S ! i = Running j"
    and ok: "job_list_ok w jobs"
  shows "pool_inv w n jobs (finish w S i j)"
proof -
  have h: "held (threads S ! i) = [j]" using i by simp
  have "Running j \<in> set (threads S)" using i by (metis nth_mem)
  then have nb: "\<not> is_break j" "\<not> is_skip j" using inv by (auto simp: pool_inv_def threads_inv_def)
  obtain j' where j': "w j = Inr j'"
    using held_in_jobs [OF inv i(1) h nb(1)] ok nb(2) by (auto simp: job_list_ok_def list_all_iff)
  then have "finish w S i j = release S i Idle [j']" by (simp add: finish_def release_def)
  then show ?thesis using release_inv [OF inv i(1) h, of Idle "[j']"] nb j'
    by (simp add: answers_def answer_def)
qed

lemma pool_next_inv:
  assumes "pool_inv w n jobs S" "pool_next w S a = Some S'" "job_list_ok w jobs"
  shows "pool_inv w n jobs S'"
  using assms
  by (cases a)
    (auto split: if_splits list.splits worker.splits
      intro: put_inv get_inv decide_inv finish_inv receive_inv [simplified] sigint_inv)

lemma pool_reachable_inv:
  assumes "pool_reachable w (start_pool n jobs) S" "job_list_ok w jobs"
  shows "pool_inv w n jobs S"
  using assms by (induction rule: pool_reachable.induct) (auto intro: pool_start_inv pool_next_inv)

section \<open>Progress and termination\<close>

fun worker_weight :: "worker \<Rightarrow> nat" where
  "worker_weight (Holding j) = 4"
| "worker_weight (Running j) = 3"
| "worker_weight _ = 0"

definition pool_weight :: "pool \<Rightarrow> nat" where
  "pool_weight S = 6 * length (todo S) + 5 * length (input_queue S)
     + sum_list (map worker_weight (threads S)) + 2 * length (output_queue S)
     + (if thread_exit S then 0 else 1)"

lemma weight_update:
  assumes "i < length ts"
  shows "sum_list (map worker_weight (ts[i := t])) + worker_weight (ts ! i)
    = sum_list (map worker_weight ts) + worker_weight t"
  using assms
proof (induction ts arbitrary: i)
  case (Cons a ts)
  then show ?case by (cases i) auto
qed simp

lemma pool_next_weight:
  assumes "pool_next w S a = Some S'"
  shows "pool_weight S' < pool_weight S"
proof -
  have "\<And>i t. i < length (threads S) \<Longrightarrow>
      sum_list (map worker_weight ((threads S)[i := t])) + worker_weight (threads S ! i)
        = sum_list (map worker_weight (threads S)) + worker_weight t"
    by (rule weight_update)
  note up = this
  show ?thesis
  proof (cases a)
    case (Get i)
    then obtain j js where "i < length (threads S)" "threads S ! i = Idle" "input_queue S = j # js"
      "S' = S\<lparr>input_queue := js, threads := (threads S)[i := Holding j]\<rparr>"
      using assms by (auto split: if_splits list.splits)
    then show ?thesis using up [of i "Holding j"] by (simp add: pool_weight_def)
  next
    case (Decide i)
    then obtain j where "i < length (threads S)" "threads S ! i = Holding j" "S' = decide S i j"
      using assms by (auto split: if_splits worker.splits)
    then show ?thesis using up [of i Returned] up [of i Idle] up [of i "Running j"]
      by (auto simp: pool_weight_def decide_def)
  next
    case (Finish i)
    then obtain j where "i < length (threads S)" "threads S ! i = Running j" "S' = finish w S i j"
      using assms by (auto split: if_splits worker.splits)
    then show ?thesis using up [of i Crashed] up [of i Idle]
      by (auto simp: pool_weight_def finish_def split: sum.splits)
  qed (use assms in \<open>auto simp: pool_weight_def split: if_splits list.splits\<close>)
qed

lemma pool_run_weight: "pool_run w S as = Some S' \<Longrightarrow> length as + pool_weight S' \<le> pool_weight S"
proof (induction as arbitrary: S)
  case (Cons a as)
  then obtain T where T: "pool_next w S a = Some T" "pool_run w T as = Some S'"
    by (auto split: option.splits)
  then show ?case using Cons.IH [OF T(2)] pool_next_weight [OF T(1)] by simp
qed simp

lemma pool_run_reachable:
  assumes "pool_run w S as = Some S'" "pool_reachable w S0 S"
  shows "pool_reachable w S0 S'"
  using assms
proof (induction as arbitrary: S)
  case (Cons a as)
  then obtain T where "pool_next w S a = Some T" "pool_run w T as = Some S'"
    by (auto split: option.splits)
  then show ?case using Cons by (meson pool_reachable.step)
qed simp

lemma start_weight: "pool_weight (start_pool n jobs) = 6 * (length jobs + n) + 1"
  by (simp add: pool_weight_def start_pool_def sum_list_replicate)

lemma no_held_jobs:
  "\<forall>t\<in>set (threads S). t = Idle \<or> t = Returned \<Longrightarrow> held_jobs S = {#}"
  by (fastforce simp: held_jobs_def)

lemma pool_progress:
  assumes inv: "pool_inv w n jobs S" and n: "0 < n" and nd: "\<not> pool_done S"
  shows "\<exists>a. a \<noteq> Sigint \<and> pool_next w S a \<noteq> None"
proof (rule ccontr)
  assume "\<not> ?thesis"
  then have stuck: "\<And>a. a \<noteq> Sigint \<Longrightarrow> pool_next w S a = None" by blast
  have td: "todo S = []" using stuck [of Put] by (auto split: list.splits)
  have "t = Idle \<or> t = Returned" if t: "t \<in> set (threads S)" for t
  proof -
    obtain i where "i < length (threads S)" "t = threads S ! i" using t by (auto simp: in_set_conv_nth)
    moreover have "t \<noteq> Crashed" using inv t by (auto simp: pool_inv_def threads_inv_def)
    ultimately show ?thesis using stuck [of "Decide i"] stuck [of "Finish i"]
      by (auto split: worker.splits)
  qed
  then have ts: "\<forall>t\<in>set (threads S). t = Idle \<or> t = Returned" by blast
  then have h: "held_jobs S = {#}" by (rule no_held_jobs)
  have iq: "Idle \<in> set (threads S) \<Longrightarrow> input_queue S = []"
  proof -
    assume "Idle \<in> set (threads S)"
    then obtain i where "i < length (threads S)" "threads S ! i = Idle" by (auto simp: in_set_conv_nth)
    then show ?thesis using stuck [of "Get i"] by (auto split: list.splits)
  qed
  have len: "length (threads S) = n" using inv by (simp add: pool_inv_def threads_inv_def)
  have br: "length (filter is_break (queued_jobs S)) + returned_count S = n"
    "0 < returned_count S \<longrightarrow> list_all is_break (queued_jobs S)"
    using inv h by (auto simp: pool_inv_def breaks_inv_def held_breaks_def)
  have all: "list_all (\<lambda>t. t = Returned) (threads S)"
  proof (cases "Idle \<in> set (threads S)")
    case True
    then have "returned_count S = length (threads S)"
      using br(1) iq td len by (simp add: queued_jobs_def)
    then show ?thesis unfolding returned_count_def list_all_iff
      using length_filter_less [of _ "threads S" "\<lambda>t. t = Returned"] by fastforce
  qed (use ts in \<open>auto simp: list_all_iff\<close>)
  then have rc: "returned_count S = n"
    using len by (auto simp: returned_count_def list_all_iff filter_id_conv [THEN iffD2])
  then have q: "queued_jobs S = []"
    using br n by (auto simp: list_all_iff filter_empty_conv)
  obtain js where "mset js = mset jobs" "list_all2 (answers w (thread_exit S)) js (received S @ output_queue S)"
    "waiting_for S + length (received S) = length jobs"
    using inv h q by (auto simp: pool_inv_def jobs_inv_def)
  then have "length (output_queue S) = waiting_for S"
    using mset_eq_length list_all2_lengthD by (metis add_left_cancel add.commute length_append)
  then have "waiting_for S = 0" using stuck [of Receive] td by (auto split: list.splits if_splits)
  then show False using nd td all by (simp add: pool_done_def)
qed

lemma pool_done_received:
  assumes inv: "pool_inv w n jobs S" and n: "0 < n" and d: "pool_done S"
  obtains js where "mset js = mset jobs" "list_all2 (answers w (thread_exit S)) js (received S)"
    "input_queue S = []" "output_queue S = []"
proof -
  have ts: "list_all (\<lambda>t. t = Returned) (threads S)" and td: "todo S = []" and wf: "waiting_for S = 0"
    using d by (auto simp: pool_done_def)
  have h: "held_jobs S = {#}" using ts by (intro no_held_jobs) (auto simp: list_all_iff)
  have rc: "returned_count S = n"
    using inv ts by (auto simp: pool_inv_def threads_inv_def returned_count_def list_all_iff
        filter_id_conv [THEN iffD2])
  then have q: "queued_jobs S = []"
    using inv n h by (auto simp: pool_inv_def breaks_inv_def list_all_iff filter_empty_conv)
  obtain js where js: "mset js = mset jobs"
    "list_all2 (answers w (thread_exit S)) js (received S @ output_queue S)"
    "length (received S) = length jobs"
    using inv h q wf by (auto simp: pool_inv_def jobs_inv_def)
  then have "output_queue S = []"
    using list_all2_lengthD [OF js(2)] mset_eq_length [OF js(1)] by simp
  then show ?thesis using that js q by (simp add: queued_jobs_def)
qed

section \<open>The pool as an executor of jobs\<close>

text \<open>What the main thread relies on: an executor hands back one result per job, in any order.\<close>

locale job_executor =
  fixes delivers :: "job list \<Rightarrow> job list \<Rightarrow> bool" and job_result_of :: "job \<Rightarrow> job"
  assumes delivered: "delivers jobs rs \<Longrightarrow> mset rs = mset (map job_result_of jobs)"
begin

lemma delivered_length: "delivers jobs rs \<Longrightarrow> length rs = length jobs"
  using delivered mset_eq_length by fastforce

lemma delivered_filter:
  assumes "delivers jobs rs"
  shows "length (filter P rs) = length (filter (\<lambda>j. P (job_result_of j)) jobs)"
proof -
  have "mset (filter P rs) = mset (filter P (map job_result_of jobs))"
    using delivered [OF assms] by simp
  then have "length (filter P rs) = length (filter P (map job_result_of jobs))"
    by (rule mset_eq_length)
  then show ?thesis by (simp add: filter_map comp_def)
qed

lemma delivered_all: "delivers jobs rs \<Longrightarrow> list_all P rs = list_all (\<lambda>j. P (job_result_of j)) jobs"
  using delivered [of jobs rs] by (metis (no_types, lifting) list.set_map list_all_iff mset_eq_setD image_iff)

end

text \<open>The jobs received by the end of an uninterrupted run of the pool.\<close>

definition pool_delivers ::
    "(job \<Rightarrow> job res) \<Rightarrow> nat \<Rightarrow> job list \<Rightarrow> job list \<Rightarrow> bool" where
  "pool_delivers w n jobs rs \<longleftrightarrow> 0 < n \<and> job_list_ok w jobs
     \<and> (\<exists>as S. pool_run w (start_pool n jobs) as = Some S \<and> pool_done S
          \<and> \<not> thread_exit S \<and> received S = rs)"

lemma list_all2_answers: "list_all2 (answers w False) js rs \<Longrightarrow> rs = map (answer w) js"
  by (induction rule: list_all2_induct) (auto simp: answers_def)

interpretation pool: job_executor "pool_delivers w n" "answer w" for w n
proof
  fix jobs rs assume "pool_delivers w n jobs rs"
  then obtain as S where n: "0 < n" and ok: "job_list_ok w jobs"
    and run: "pool_run w (start_pool n jobs) as = Some S"
    and S: "pool_done S" "\<not> thread_exit S" "received S = rs"
    unfolding pool_delivers_def by blast
  have "pool_inv w n jobs S"
    using pool_reachable_inv [OF pool_run_reachable [OF run pool_reachable.start] ok] .
  then obtain js where "mset js = mset jobs" "list_all2 (answers w (thread_exit S)) js (received S)"
    using pool_done_received [OF _ n S(1)] by metis
  then show "mset rs = mset (map (answer w) jobs)"
    using S list_all2_answers by fastforce
qed

section \<open>Properties\<close>

text \<open>C24: with at least one worker thread and jobs that do not raise when they are run, for any
  interleaving of the worker threads, the main thread and the interrupt handler, a run takes at most six actions per job and thread and one for the interrupt; until all jobs
  are received and all threads have returned some thread can act; and then both queues are
  empty and every dispatched job has come back exactly once, as run or skipped, or, only after
  an interrupt, marked as a break.\<close>

theorem pool_returns_every_job:
  assumes "job_list_ok w jobs" and "0 < n"
    and run: "pool_run w (start_pool n jobs) as = Some S"
  shows "length as \<le> 6 * (length jobs + n) + 1
    \<and> (pool_done S \<or> (\<exists>a. a \<noteq> Sigint \<and> pool_next w S a \<noteq> None))
    \<and> (pool_done S \<longrightarrow> input_queue S = [] \<and> output_queue S = []
        \<and> (\<exists>js. mset js = mset jobs \<and> list_all2 (answers w (thread_exit S)) js (received S)))"
proof (intro conjI impI)
  have inv: "pool_inv w n jobs S"
    using pool_reachable_inv [OF pool_run_reachable [OF run pool_reachable.start] assms(1)] .
  show "length as \<le> 6 * (length jobs + n) + 1"
    using pool_run_weight [OF run] by (simp add: start_weight)
  show "pool_done S \<or> (\<exists>a. a \<noteq> Sigint \<and> pool_next w S a \<noteq> None)"
    using pool_progress [OF inv assms(2)] by blast
  assume d: "pool_done S"
  show "input_queue S = []" "output_queue S = []"
    "\<exists>js. mset js = mset jobs \<and> list_all2 (answers w (thread_exit S)) js (received S)"
    by (rule pool_done_received [OF inv assms(2) d]; blast)+
qed

definition suite_job :: "string \<Rightarrow> job" where
  "suite_job s = Job\<lparr>display_name := s\<rparr>"

theorem pool_returns_every_job_witness:
  "(let jobs = [suite_job ''a'', suite_job ''b'', (suite_job ''c'')\<lparr>is_skip := True\<rparr>];
        w = (\<lambda>j. Inr (j\<lparr>returncode := 1\<rparr>));
        as = [Put, Put, Get 0, Get 1, Put, Decide 1, Put, Put, Decide 0, Finish 1, Finish 0, Get 1,
              Decide 1, Receive, Get 0, Receive, Get 1, Decide 1, Decide 0, Receive]
    in case pool_run w (start_pool 2 jobs) as of
         None \<Rightarrow> False
       | Some S \<Rightarrow> pool_done S \<and> map display_name (received S) = [''b'', ''a'', ''c'']
           \<and> length as \<le> 6 * (length jobs + 2) + 1 \<and> output_queue S = [])"
proof -
  let ?jobs = "[suite_job ''a'', suite_job ''b'', (suite_job ''c'')\<lparr>is_skip := True\<rparr>]"
  let ?w = "\<lambda>j. Inr (j\<lparr>returncode := 1\<rparr>)"
  let ?as = "[Put, Put, Get 0, Get 1, Put, Decide 1, Put, Put, Decide 0, Finish 1, Finish 0, Get 1,
     Decide 1, Receive, Get 0, Receive, Get 1, Decide 1, Decide 0, Receive]"
  have e: "case pool_run ?w (start_pool 2 ?jobs) ?as of None \<Rightarrow> False
      | Some S \<Rightarrow> pool_done S \<and> map display_name (received S) = [''b'', ''a'', ''c'']"
    by (simp add: start_pool_def suite_job_def Job_def break_job_def decide_def finish_def
      pool_done_def numeral_2_eq_2)
  from e obtain S where S: "pool_run ?w (start_pool 2 ?jobs) ?as = Some S"
    "pool_done S \<and> map display_name (received S) = [''b'', ''a'', ''c'']"
    by (rule case_SomeE)
  have "job_list_ok ?w ?jobs" by (simp add: job_list_ok_def suite_job_def Job_def)
  from pool_returns_every_job [OF this _ S(1)] S(2) show ?thesis unfolding Let_def S(1) by simp
qed

text \<open>with no worker thread, which a negative \<^verbatim>\<open>--jobs\<close> gives, a run with at least one job never
  ends: after the jobs are queued the main thread waits for ever.\<close>

theorem pool_without_threads_hangs:
  assumes "pool_run w (start_pool 0 jobs) as = Some S" "jobs \<noteq> []"
  shows "\<not> pool_done S \<and> received S = []
    \<and> (todo S = [] \<longrightarrow> (\<forall>a. a \<noteq> Sigint \<longrightarrow> pool_next w S a = None))"
proof -
  have "threads S = [] \<and> output_queue S = [] \<and> received S = [] \<and> waiting_for S = length jobs"
    using pool_run_reachable [OF assms(1) pool_reachable.start]
    by (induction rule: pool_reachable.induct)
      (auto simp: start_pool_def elim!: pool_next.elims split: list.splits if_splits)
  moreover then have "a \<noteq> Sigint \<Longrightarrow> todo S = [] \<Longrightarrow> pool_next w S a = None" for a
    by (cases a) auto
  ultimately show ?thesis using assms(2) by (auto simp: pool_done_def)
qed

theorem pool_without_threads_hangs_witness:
  "\<exists>S. pool_run (\<lambda>j. Inr j) (start_pool 0 [suite_job ''a'']) [Put] = Some S \<and> todo S = []
    \<and> \<not> pool_done S"
proof -
  have r: "pool_run (\<lambda>j. Inr j) (start_pool 0 [suite_job ''a'']) [Put]
      = Some ((start_pool 0 [suite_job ''a''])\<lparr>todo := [], input_queue := [suite_job ''a'']\<rparr>)"
    by (simp add: start_pool_def)
  from pool_without_threads_hangs [OF r] show ?thesis using r by simp
qed

end
