(* ===== verification/Test_Dispatch.thy ===== *)
theory Test_Dispatch
  imports Test_Pool
begin

text \<open>
  \<^verbatim>\<open>test.py\<close>, part 3: which jobs are dispatched. The examples listed in the
  \<^verbatim>\<open>examples-to-run.py\<close> files are collected, the test suites are listed by the test runner and
  filtered, and a job is made for each suite, example and Python example that the options and
  the configuration select.

  The record \<open>world\<close> holds what the program reads from outside: the file system, the working
  directory, the platform, child processes, and Python's \<^verbatim>\<open>eval\<close> of the expressions found in
  the configuration files. The functions of \<^verbatim>\<open>os.path\<close> and \<^verbatim>\<open>fnmatch\<close> that the program calls
  are defined (POSIX); \<^verbatim>\<open>fnmatch.filter\<close> keeps the names that match.
\<close>

section \<open>Paths\<close>

fun normpath_comps :: "bool \<Rightarrow> string list \<Rightarrow> string list \<Rightarrow> string list" where
  "normpath_comps absolute new_comps [] = new_comps"
| "normpath_comps absolute new_comps (piece # comps) =
     (if piece = '''' \<or> piece = ''.'' then normpath_comps absolute new_comps comps
      else if piece \<noteq> ''..'' \<or> (\<not> absolute \<and> new_comps = [])
        \<or> (new_comps \<noteq> [] \<and> last new_comps = ''..'')
      then normpath_comps absolute (new_comps @ [piece]) comps
      else normpath_comps absolute (butlast new_comps) comps)"

definition path_normpath :: "string \<Rightarrow> string" where
  "path_normpath path =
     (if path = '''' then ''.''
      else let slashes = (if \<not> starts_with path ''/'' then 0
                          else if starts_with path ''//'' \<and> \<not> starts_with path ''///'' then 2
                          else 1 :: nat);
               p = replicate slashes os_sep
                 @ str_join ''/'' (normpath_comps (0 < slashes) [] (str_split os_sep path))
           in if p = '''' then ''.'' else p)"

definition path_abspath :: "string \<Rightarrow> string \<Rightarrow> string" where
  "path_abspath working_dir path = path_normpath (path_join working_dir path)"

fun common_prefix_len :: "'a list \<Rightarrow> 'a list \<Rightarrow> nat" where
  "common_prefix_len (x # xs) (y # ys) = (if x = y then Suc (common_prefix_len xs ys) else 0)"
| "common_prefix_len _ _ = 0"

definition path_relpath :: "string \<Rightarrow> string \<Rightarrow> string \<Rightarrow> string res" where
  "path_relpath working_dir path base =
     (if path = '''' then Inl ValueError
      else let nonempty = filter (\<lambda>c. c \<noteq> '''');
               start_list = nonempty (str_split os_sep (path_abspath working_dir base));
               path_list = nonempty (str_split os_sep (path_abspath working_dir path));
               i = common_prefix_len start_list path_list;
               rel_list = replicate (length start_list - i) ''..'' @ drop i path_list
           in Inr (if rel_list = [] then ''.'' else foldl path_join (hd rel_list) (tl rel_list)))"

section \<open>Shell patterns\<close>

text \<open>The characters of a bracket expression, with ranges.\<close>

fun bracket_member :: "string \<Rightarrow> char \<Rightarrow> bool" where
  "bracket_member (a # b # c # cs) x =
     (if b = CHR ''-'' then (of_char a \<le> (of_char x :: nat) \<and> of_char x \<le> (of_char c :: nat))
        \<or> bracket_member cs x
      else a = x \<or> bracket_member (b # c # cs) x)"
| "bracket_member cs x = (x \<in> set cs)"

text \<open>The text of a bracket expression and what follows it; a \<^verbatim>\<open>]\<close> in first place (after a
  \<^verbatim>\<open>!\<close>) is an ordinary character. \<open>None\<close> when the bracket is never closed.\<close>

definition bracket_split :: "string \<Rightarrow> (bool \<times> string \<times> string) option" where
  "bracket_split p =
     (let (negated, q) = (case p of c # q \<Rightarrow> if c = CHR ''!'' then (True, q) else (False, p)
                          | [] \<Rightarrow> (False, []));
          (first, q') = (case q of c # r \<Rightarrow> if c = CHR '']'' then ([c], r) else ([], q)
                         | [] \<Rightarrow> ([], []))
      in if CHR '']'' \<in> set q'
         then Some (negated, first @ takeWhile (\<lambda>c. c \<noteq> CHR '']'') q',
                    tl (dropWhile (\<lambda>c. c \<noteq> CHR '']'') q'))
         else None)"

lemma bracket_split_shorter:
  "bracket_split p = Some (b, s, r) \<Longrightarrow> length r < length p"
proof -
  have *: "length (tl (dropWhile P xs)) < Suc (length xs)" for P and xs :: string
    by (metis le_imp_less_Suc length_dropWhile_le length_tl diff_le_self le_trans)
  have **: "x \<in> set xs \<Longrightarrow> length (tl (dropWhile P xs)) < length xs" for P and xs :: string and x
    using length_dropWhile_le [of P xs] by (cases xs) auto
  assume "bracket_split p = Some (b, s, r)"
  then show ?thesis
    by (auto simp: bracket_split_def Let_def split: list.splits if_splits prod.splits
        dest!: ** [where P = "\<lambda>c. c \<noteq> CHR '']''"] intro: less_trans)
qed

function fnmatch :: "string \<Rightarrow> string \<Rightarrow> bool" where
  "fnmatch [] s = (s = [])"
| "fnmatch (c # p) s =
     (if c = CHR ''*'' then fnmatch p s \<or> (case s of [] \<Rightarrow> False | _ # s' \<Rightarrow> fnmatch (c # p) s')
      else case s of
             [] \<Rightarrow> False
           | x # s' \<Rightarrow>
               if c = CHR ''?'' then fnmatch p s'
               else if c = CHR ''['' then
                 (case bracket_split p of
                    None \<Rightarrow> x = c \<and> fnmatch p s'
                  | Some (negated, stuff, p') \<Rightarrow>
                      bracket_member stuff x \<noteq> negated \<and> fnmatch p' s')
               else x = c \<and> fnmatch p s')"
  by pat_completeness auto
termination
  by (relation "measures [\<lambda>(p, s). length p, \<lambda>(p, s). length s]")
    (auto dest!: bracket_split_shorter)

definition fnmatch_filter :: "string list \<Rightarrow> string \<Rightarrow> string list" where
  "fnmatch_filter names pat = filter (fnmatch pat) names"

section \<open>The outside world\<close>

record world =
  w_files :: files
  w_exists :: "string \<Rightarrow> bool"
  w_cwd :: string
  w_platform :: string
  w_executable :: string
  w_popen :: popen
  w_decode :: decoder
  w_eval_cpp_examples :: "string \<Rightarrow> (string \<times> string \<times> string) list res"
  w_eval_python_examples :: "string \<Rightarrow> (string \<times> string) list res"
  w_eval_strings :: "string \<Rightarrow> string list res"
  w_eval_condition :: "string \<Rightarrow> bool res"
  w_sysconf_nprocessors :: "int option"

section \<open>Collecting the examples\<close>

record example_lists =
  example_tests :: "(string \<times> string \<times> string \<times> string) list"
  example_names_original :: "string list"
  python_tests :: "(string \<times> string) list"

definition program_name :: "config \<Rightarrow> string \<Rightarrow> string" where
  "program_name cfg name = APPNAME cfg @ VERSION cfg @ ''-'' @ name @ BUILD_PROFILE_SUFFIX cfg"

text \<open>The body of the loop over \<^verbatim>\<open>cpp_examples\<close>.\<close>

definition add_cpp_example ::
    "world \<Rightarrow> config \<Rightarrow> string \<Rightarrow> string \<times> string \<times> string \<Rightarrow> example_lists
      \<Rightarrow> example_lists res" where
  "add_cpp_example world cfg cpp_executable_dir = (\<lambda>(original, do_run, do_valgrind_run) exs.
     let parts = str_split1 CHR '' '' original;
         name = parts ! 0;
         path = path_join cpp_executable_dir (program_name cfg name)
     in res_bind (path_relpath (w_cwd world) cpp_executable_dir (NS3_BUILDDIR cfg)) (\<lambda>rel.
       let full_name = path_join rel name
       in if w_exists world path
          then Inr (exs\<lparr>example_tests := example_tests exs @
                     [(if length parts \<noteq> 1 then full_name @ '' '' @ parts ! 1 else full_name,
                       if length parts \<noteq> 1 then path @ '' '' @ parts ! 1 else path,
                       do_run, do_valgrind_run)],
                   example_names_original := example_names_original exs @ [original]\<rparr>)
          else Inr exs))"

text \<open>The body of the loop over \<^verbatim>\<open>python_examples\<close>.\<close>

definition add_python_example ::
    "world \<Rightarrow> string \<Rightarrow> string \<times> string \<Rightarrow> example_lists \<Rightarrow> example_lists res" where
  "add_python_example world python_script_dir = (\<lambda>(example_name, do_run) exs.
     let parts = str_split1 CHR '' '' example_name;
         path = path_join python_script_dir (parts ! 0)
     in Inr (if w_exists world path
             then exs\<lparr>python_tests := python_tests exs @
                    [(if length parts \<noteq> 1 then path @ '' '' @ parts ! 1 else path, do_run)]\<rparr>
             else exs))"

definition parse_examples_to_run_file ::
    "world \<Rightarrow> config \<Rightarrow> string \<Rightarrow> string \<Rightarrow> string \<Rightarrow> example_lists \<Rightarrow> example_lists res" where
  "parse_examples_to_run_file world cfg examples_to_run_path cpp_executable_dir
       python_script_dir exs =
     (if w_exists world examples_to_run_path
      then res_bind (get_list_from_file (w_files world) (w_eval_cpp_examples world)
                       examples_to_run_path ''cpp_examples'') (\<lambda>cpp_examples.
           res_bind (res_fold (add_cpp_example world cfg cpp_executable_dir) cpp_examples exs)
             (\<lambda>exs'.
           res_bind (get_list_from_file (w_files world) (w_eval_python_examples world)
                       examples_to_run_path ''python_examples'') (\<lambda>python_examples.
           res_fold (add_python_example world python_script_dir) python_examples exs')))
      else Inr exs)"

text \<open>The three loops over the example directories, the modules and the contributed modules.\<close>

definition example_directory_lists ::
    "world \<Rightarrow> config \<Rightarrow> string \<Rightarrow> example_lists \<Rightarrow> example_lists res" where
  "example_directory_lists world cfg directory exs =
     (let example_directory = path_join ''examples'' directory
      in parse_examples_to_run_file world cfg (path_join example_directory ''examples-to-run.py'')
           (path_join (NS3_BUILDDIR cfg) example_directory) example_directory exs)"

definition module_lists ::
    "world \<Rightarrow> config \<Rightarrow> string \<Rightarrow> string \<Rightarrow> example_lists \<Rightarrow> example_lists res" where
  "module_lists world cfg top_dir m exs =
     (let module_directory = path_join top_dir (drop (length ''ns3-'') m);
          example_directory = path_join module_directory ''examples''
      in parse_examples_to_run_file world cfg
           (path_join (path_join module_directory ''test'') ''examples-to-run.py'')
           (path_join (NS3_BUILDDIR cfg) example_directory) example_directory exs)"

definition collect_examples :: "world \<Rightarrow> config \<Rightarrow> example_lists res" where
  "collect_examples world cfg =
     res_bind (res_fold (example_directory_lists world cfg) (EXAMPLE_DIRECTORIES cfg)
       \<lparr>example_tests = [], example_names_original = [], python_tests = []\<rparr>) (\<lambda>l1.
     res_bind (res_fold (module_lists world cfg ''src'') (NS3_ENABLED_MODULES cfg) l1) (\<lambda>l2.
     res_fold (module_lists world cfg ''contrib'') (NS3_ENABLED_CONTRIBUTED_MODULES cfg) l2))"

section \<open>Choosing the test suites\<close>

definition core_kinds :: "string list" where
  "core_kinds = [''core'', ''performance'', ''system'', ''unit'']"

definition core_valgrind_skip_tests :: "string list" where
  "core_valgrind_skip_tests =
     [''routing-click'', ''lte-rr-ff-mac-scheduler'', ''lte-tdmt-ff-mac-scheduler'',
      ''lte-fdmt-ff-mac-scheduler'', ''lte-pf-ff-mac-scheduler'', ''lte-tta-ff-mac-scheduler'',
      ''lte-fdbet-ff-mac-scheduler'', ''lte-ttbet-ff-mac-scheduler'',
      ''lte-fdtbfq-ff-mac-scheduler'', ''lte-tdtbfq-ff-mac-scheduler'',
      ''lte-pss-ff-mac-scheduler'']"

text \<open>\<^verbatim>\<open>None\<close> when nothing has to be built.\<close>

definition build_command :: "world \<Rightarrow> options \<Rightarrow> string option" where
  "build_command world opts =
     (if opt_no_build opts then None
      else let build_cmd =
             (if opt_kinds opts \<or> opt_list opts
                \<or> (opt_constrain opts \<noteq> '''' \<and> opt_constrain opts \<in> set core_kinds)
              then ''./ns3 build test-runner''
              else if opt_example opts \<noteq> '''' then ''./ns3 build '' @ path_basename (opt_example opts)
              else ''./ns3'')
           in Some (if w_platform world = ''win32'' then w_executable world @ '' '' @ build_cmd
                    else build_cmd))"

text \<open>The text a child process wrote; \<^verbatim>\<open>bytes.decode\<close> raises \<^verbatim>\<open>UnicodeDecodeError\<close>, a
  \<^verbatim>\<open>ValueError\<close>, on what could not be decoded before.\<close>

definition text_of :: "stream \<Rightarrow> string res" where
  "text_of st = (case st of Decoded s \<Rightarrow> Inr s | Undecoded _ \<Rightarrow> Inl ValueError)"

definition ask_test_runner ::
    "world \<Rightarrow> config \<Rightarrow> string \<Rightarrow> string \<Rightarrow> job_result res" where
  "ask_test_runner world cfg test_runner_name arguments =
     run_job_synchronously (w_popen world) (w_decode world) cfg
       (path_join ''utils'' (test_runner_name @ arguments)) (w_cwd world) False False ''''"

definition list_suites :: "world \<Rightarrow> config \<Rightarrow> string \<Rightarrow> string \<Rightarrow> string res" where
  "list_suites world cfg test_runner_name arguments =
     res_bind (ask_test_runner world cfg test_runner_name arguments) (\<lambda>r. text_of (stdout_results r))"

definition nl :: char where
  "nl = CHR 0x0A"

text \<open>The list of suites before performance tests are removed, and whether a single suite was
  asked for.\<close>

definition requested_suites ::
    "world \<Rightarrow> config \<Rightarrow> options \<Rightarrow> string \<Rightarrow> (string list \<times> bool) res" where
  "requested_suites world cfg opts test_runner_name =
     (if opt_suite opts \<noteq> ''''
      then res_bind (list_suites world cfg test_runner_name '' --print-test-name-list'') (\<lambda>suites.
             let suites_found = fnmatch_filter (str_split nl suites) (opt_suite opts)
             in if suites_found = [] then Inl (SystemExit 2)
                else Inr (str_split nl (str_join [nl] suites_found), length suites_found = 1))
      else if opt_example opts = '''' \<and> opt_pyexample opts = ''''
      then res_bind (list_suites world cfg test_runner_name
               (if opt_constrain opts \<noteq> ''''
                then '' --print-test-name-list --test-type='' @ opt_constrain opts
                else '' --print-test-name-list''))
             (\<lambda>suites. Inr (str_split nl suites, False))
      else Inr (str_split nl '''', False))"

definition select_suites ::
    "world \<Rightarrow> config \<Rightarrow> options \<Rightarrow> string \<Rightarrow> string list res" where
  "select_suites world cfg opts test_runner_name =
     res_bind (requested_suites world cfg opts test_runner_name) (\<lambda>(suite_list, single_suite).
       if \<not> single_suite \<and> opt_constrain opts \<noteq> ''performance''
       then res_bind (list_suites world cfg test_runner_name
                '' --print-test-name-list --test-type=performance'') (\<lambda>performance_tests.
              Inr (fold remove1 (str_split nl performance_tests) suite_list))
       else Inr suite_list)"

section \<open>Dispatching the jobs\<close>

definition suite_command :: "options \<Rightarrow> string \<Rightarrow> string \<Rightarrow> string" where
  "suite_command opts test_runner_name test =
     path_join ''utils'' (test_runner_name @ '' --test-name='' @ test
       @ (if opt_multiple opts then '''' else '' --stop-on-failure'')
       @ (if opt_fullness opts \<noteq> '''' then '' --fullness='' @ map upper_char (opt_fullness opts)
          else '' --fullness=QUICK''))"

definition suite_job_of ::
    "world \<Rightarrow> options \<Rightarrow> string \<Rightarrow> string \<Rightarrow> string \<Rightarrow> job" where
  "suite_job_of world opts test_runner_name testpy_output_dir test =
     (let job = Job\<lparr>is_example := False, is_pyexample := False, display_name := test,
            tmp_file_name := path_join testpy_output_dir (test @ ''.xml''),
            cwd := w_cwd world, basedir := w_cwd world, tempdir := testpy_output_dir,
            shell_command := suite_command opts test_runner_name test\<rparr>
      in if opt_valgrind opts \<and> test \<in> set core_valgrind_skip_tests
         then job\<lparr>is_skip := True, skip_reason := ''crashes valgrind''\<rparr> else job)"

definition dispatch_suites ::
    "world \<Rightarrow> options \<Rightarrow> string \<Rightarrow> string \<Rightarrow> string list \<Rightarrow> job list" where
  "dispatch_suites world opts test_runner_name testpy_output_dir suite_list =
     map (suite_job_of world opts test_runner_name testpy_output_dir)
       (filter (\<lambda>test. test \<noteq> '''') (map str_strip suite_list))"

definition no_explicit_test :: "options \<Rightarrow> bool" where
  "no_explicit_test opts \<longleftrightarrow>
     opt_suite opts = '''' \<and> opt_example opts = '''' \<and> opt_pyexample opts = ''''"

text \<open>\<^verbatim>\<open>ns3_runnable_programs_dictionary\<close>\<close>

definition runnable_dictionary :: "string list \<Rightarrow> (string \<times> string) list" where
  "runnable_dictionary programs =
     fold (\<lambda>program d. AList.update (path_basename program) program d) programs []"

definition example_job :: "world \<Rightarrow> options \<Rightarrow> string \<Rightarrow> string \<Rightarrow> string \<Rightarrow> job" where
  "example_job world opts testpy_output_dir name command =
     Job\<lparr>is_example := True, is_pyexample := False, display_name := name, tmp_file_name := '''',
         cwd := testpy_output_dir, basedir := w_cwd world, tempdir := testpy_output_dir,
         shell_command := command, build_path := opt_buildpath opts\<rparr>"

text \<open>The body of the loop over \<^verbatim>\<open>example_tests\<close>.\<close>

definition dispatch_example_test ::
    "world \<Rightarrow> options \<Rightarrow> string \<Rightarrow> (string \<times> string) list
      \<Rightarrow> string \<times> string \<times> string \<times> string \<Rightarrow> job list \<Rightarrow> job list res" where
  "dispatch_example_test world opts testpy_output_dir dictionary =
     (\<lambda>(name, test, do_run, do_valgrind_run) jobs.
        if path_basename (str_split1 CHR '' '' test ! 0) \<in> fst ` set dictionary
        then res_bind (w_eval_condition world do_run) (\<lambda>run.
               if run
               then let job = example_job world opts testpy_output_dir name test
                    in if opt_valgrind opts
                       then res_bind (w_eval_condition world do_valgrind_run) (\<lambda>valgrind_run.
                              Inr (jobs @ [if valgrind_run then job
                                else job\<lparr>is_skip := True, skip_reason := ''skip in valgrind runs''\<rparr>]))
                       else Inr (jobs @ [job])
               else Inr jobs)
        else Inr jobs)"

definition dispatch_examples ::
    "world \<Rightarrow> config \<Rightarrow> options \<Rightarrow> string \<Rightarrow> (string \<times> string) list
      \<Rightarrow> (string \<times> string \<times> string \<times> string) list \<Rightarrow> job list res" where
  "dispatch_examples world cfg opts testpy_output_dir dictionary tests =
     (if no_explicit_test opts
      then if (opt_constrain opts = '''' \<or> opt_constrain opts = ''example'') \<and> ENABLE_EXAMPLES cfg
           then res_fold (dispatch_example_test world opts testpy_output_dir dictionary) tests []
           else Inr []
      else if opt_example opts \<noteq> ''''
      then Inr (map (\<lambda>key. let path = path_abspath (w_cwd world) (the (map_of dictionary key))
                           in example_job world opts testpy_output_dir path path)
             (fnmatch_filter (map fst dictionary) (program_name cfg (opt_example opts))))
      else Inr [])"

definition pyexample_job :: "world \<Rightarrow> string \<Rightarrow> string \<Rightarrow> job" where
  "pyexample_job world testpy_output_dir test =
     Job\<lparr>is_example := False, is_pyexample := True, display_name := test, tmp_file_name := '''',
         cwd := testpy_output_dir, basedir := w_cwd world, tempdir := testpy_output_dir,
         shell_command := test, build_path := ''''\<rparr>"

text \<open>The body of the loop over \<^verbatim>\<open>python_tests\<close>: the two reasons to skip overwrite each other.\<close>

definition dispatch_python_test ::
    "world \<Rightarrow> config \<Rightarrow> options \<Rightarrow> string \<Rightarrow> string list
      \<Rightarrow> string \<times> string \<Rightarrow> job list \<Rightarrow> job list res" where
  "dispatch_python_test world cfg opts testpy_output_dir scripts = (\<lambda>(test, do_run) jobs.
     if path_basename (str_split1 CHR '' '' test ! 0) \<in> set scripts
     then res_bind (w_eval_condition world do_run) (\<lambda>run.
            if run
            then let job0 = pyexample_job world testpy_output_dir test;
                     job1 = (if opt_valgrind opts
                       then job0\<lparr>is_skip := True, skip_reason := ''skip in valgrind runs''\<rparr> else job0);
                     job2 = (if \<not> ENABLE_PYTHON_BINDINGS cfg
                       then job1\<lparr>is_skip := True, skip_reason := ''requires Python bindings''\<rparr>
                       else job1)
                 in Inr (jobs @ [job2])
            else Inr jobs)
     else Inr jobs)"

definition dispatch_pyexamples ::
    "world \<Rightarrow> config \<Rightarrow> options \<Rightarrow> string \<Rightarrow> string list \<Rightarrow> (string \<times> string) list
      \<Rightarrow> job list res" where
  "dispatch_pyexamples world cfg opts testpy_output_dir scripts tests =
     (if no_explicit_test opts
      then if (opt_constrain opts = '''' \<or> opt_constrain opts = ''pyexample'') \<and> ENABLE_EXAMPLES cfg
           then res_fold (dispatch_python_test world cfg opts testpy_output_dir scripts) tests []
           else Inr []
      else if opt_pyexample opts \<noteq> ''''
      then if path_basename (opt_pyexample opts) \<notin> set scripts then Inr []
           else Inr [pyexample_job world testpy_output_dir (opt_pyexample opts)]
      else Inr [])"

text \<open>All jobs in the order in which they are put into the input queue.\<close>

definition dispatch_all ::
    "world \<Rightarrow> config \<Rightarrow> options \<Rightarrow> string \<Rightarrow> string \<Rightarrow> string list \<Rightarrow> string list
      \<Rightarrow> example_lists \<Rightarrow> string list \<Rightarrow> job list res" where
  "dispatch_all world cfg opts test_runner_name testpy_output_dir programs scripts exs suite_list =
     res_bind (dispatch_examples world cfg opts testpy_output_dir (runnable_dictionary programs)
         (example_tests exs)) (\<lambda>examples.
     res_bind (dispatch_pyexamples world cfg opts testpy_output_dir scripts (python_tests exs))
       (\<lambda>pyexamples.
     Inr (dispatch_suites world opts test_runner_name testpy_output_dir suite_list
          @ examples @ pyexamples)))"

section \<open>The number of worker threads\<close>

definition online_processors :: "world \<Rightarrow> int res" where
  "online_processors world =
     (if w_platform world \<noteq> ''win32''
      then case w_sysconf_nprocessors world of
             Some n \<Rightarrow> Inr n
           | None \<Rightarrow>
               res_bind (w_popen world ''sysctl -n hw.ncpu'' (w_cwd world)) (\<lambda>proc.
                  res_bind (text_of (decode_stream (w_decode world) (proc_stdout proc))) (\<lambda>out.
                  res_bind (text_of (decode_stream (w_decode world) (proc_stderr proc))) (\<lambda>err.
                    if err = '''' then py_int out else Inr 1)))
      else Inr 1)"

definition worker_count :: "world \<Rightarrow> options \<Rightarrow> int res" where
  "worker_count world opts =
     res_bind (online_processors world) (\<lambda>processors.
       Inr (if opt_process_limit opts \<noteq> 0
            then if processors < opt_process_limit opts then processors else opt_process_limit opts
            else processors))"

section \<open>Patterns\<close>

definition plain_pattern :: "string \<Rightarrow> bool" where
  "plain_pattern p \<longleftrightarrow> list_all (\<lambda>c. c \<noteq> CHR ''*'' \<and> c \<noteq> CHR ''?'' \<and> c \<noteq> CHR ''['') p"

lemma fnmatch_plain: "plain_pattern p \<Longrightarrow> fnmatch p s = (s = p)"
proof (induction p arbitrary: s)
  case (Cons c p)
  then show ?case by (cases s) (auto simp: plain_pattern_def)
qed simp

lemma fnmatch_star: "fnmatch (CHR ''*'' # p) s = (\<exists>i\<le>length s. fnmatch p (drop i s))"
proof (induction s)
  case (Cons x s)
  have "(\<exists>i\<le>length (x # s). fnmatch p (drop i (x # s)))
      = (fnmatch p (x # s) \<or> (\<exists>i\<le>length s. fnmatch p (drop i s)))"
    by (metis drop_Cons' drop_Suc_Cons le0 length_Cons not0_implies_Suc Suc_le_mono drop0)
  with Cons show ?case by simp
qed simp

section \<open>Relative paths\<close>

text \<open>A directory name in normal form: components other than the two dots.\<close>

definition clean_comps :: "string list \<Rightarrow> bool" where
  "clean_comps cs \<longleftrightarrow> list_all (\<lambda>c. path_component c \<and> c \<noteq> ''.'' \<and> c \<noteq> ''..'') cs"

lemma normpath_clean: "clean_comps cs \<Longrightarrow> normpath_comps b acc cs = acc @ cs"
  by (induction cs arbitrary: acc) (auto simp: clean_comps_def path_component_def)

lemma split_clean:
  assumes "clean_comps cs" "cs \<noteq> []"
  shows "str_split os_sep (str_join [os_sep] cs) = cs"
  using assms str_split_join [of cs os_sep]
  by (auto simp: clean_comps_def path_component_def list_all_iff)

lemma join_not_sep:
  assumes "clean_comps cs" "cs \<noteq> []"
  obtains c r where "str_join [os_sep] cs = c # r" "c \<noteq> os_sep"
proof -
  obtain a as where cs: "cs = a # as" using assms(2) by (cases cs) auto
  then have "path_component a" using assms(1) by (simp add: clean_comps_def)
  then show ?thesis using that cs
    by (cases a) (auto simp: path_component_def str_join_concat)
qed

lemma abspath_clean:
  assumes "clean_comps cs" "cs \<noteq> []"
  shows "path_abspath wd (os_sep # str_join [os_sep] cs) = os_sep # str_join [os_sep] cs"
proof -
  obtain c r where j: "str_join [os_sep] cs = c # r" "c \<noteq> os_sep"
    using join_not_sep [OF assms] .
  have "path_join wd (os_sep # str_join [os_sep] cs) = os_sep # str_join [os_sep] cs"
    by (simp add: path_join_def)
  moreover have "path_normpath (os_sep # str_join [os_sep] cs) = os_sep # str_join [os_sep] cs"
    using split_clean [OF assms] normpath_clean [OF assms(1)] j
    by (auto simp: path_normpath_def starts_with_def os_sep_def)
  ultimately show ?thesis by (simp add: path_abspath_def)
qed

lemma common_prefix_append: "common_prefix_len xs (xs @ ys) = length xs"
  by (induction xs) auto

lemma relpath_below:
  assumes "clean_comps bs" "bs \<noteq> []" "clean_comps ds" "ds \<noteq> []"
  shows "path_relpath wd (path_join (os_sep # str_join [os_sep] bs) (str_join [os_sep] ds))
      (os_sep # str_join [os_sep] bs) = Inr (str_join [os_sep] ds)"
proof -
  have app: "os_sep # str_join [os_sep] bs @ os_sep # str_join [os_sep] ds
      = os_sep # str_join [os_sep] (bs @ ds)"
    using assms by (cases bs; cases ds) (auto simp: str_join_concat)
  have "last (os_sep # str_join [os_sep] bs) \<noteq> os_sep"
  proof -
    obtain b where "b = last bs" "b \<in> set bs" using assms(2) by auto
    then have b: "path_component b" using assms(1) by (auto simp: clean_comps_def list_all_iff)
    have "\<exists>p. str_join [os_sep] bs = p @ last bs" using assms(2)
    proof (cases bs rule: rev_cases)
      case (snoc xs x)
      then show ?thesis by (cases xs) (auto simp: str_join_concat)
    qed simp
    then show ?thesis using b \<open>b = last bs\<close>
      by (auto simp: path_component_def) (metis last_in_set)
  qed
  moreover obtain c r where "str_join [os_sep] ds = c # r" "c \<noteq> os_sep"
    using join_not_sep [OF assms(3,4)] .
  ultimately have j: "path_join (os_sep # str_join [os_sep] bs) (str_join [os_sep] ds)
      = os_sep # str_join [os_sep] (bs @ ds)"
    using app by (auto simp: path_join_def)
  have both: "clean_comps (bs @ ds)" "bs @ ds \<noteq> []" using assms by (auto simp: clean_comps_def)
  have ne: "filter (\<lambda>c. c \<noteq> '''') ('''' # cs) = cs" if "clean_comps cs" for cs :: "string list"
    using that by (auto simp: clean_comps_def path_component_def list_all_iff filter_id_conv)
  obtain d ds' where d: "ds = d # ds'" using assms(4) by (cases ds) auto
  then have "path_component d" "\<forall>c\<in>set ds'. path_component c"
    using assms(3) by (auto simp: clean_comps_def list_all_iff)
  moreover then have "d \<noteq> []" "last d \<noteq> os_sep"
    using last_in_set [of d] unfolding path_component_def by metis+
  ultimately have "foldl path_join (hd ds) (tl ds) = str_join [os_sep] ds"
    using foldl_path_join [of ds' d] d by (simp add: str_join_concat)
  then show ?thesis unfolding path_relpath_def j
    using abspath_clean [OF both] abspath_clean [OF assms(1,2)] split_clean [OF both]
      split_clean [OF assms(1,2)] ne [OF both(1)] ne [OF assms(1)] assms(4)
    by (simp add: Let_def common_prefix_append)
qed

section \<open>What is dispatched\<close>

text \<open>A job as it is put into the queue: not run yet, and skipped only for a reason.\<close>

definition dispatched_ok :: "config \<Rightarrow> options \<Rightarrow> job \<Rightarrow> bool" where
  "dispatched_ok cfg opts j \<longleftrightarrow>
     \<not> is_break j \<and> returncode j = 0 \<and> \<not> (is_example j \<and> is_pyexample j)
     \<and> (is_skip j \<longrightarrow> opt_valgrind opts \<or> (is_pyexample j \<and> \<not> ENABLE_PYTHON_BINDINGS cfg))
     \<and> (is_skip j = (skip_reason j \<noteq> ''''))"

lemmas job_defs = suite_job_of_def example_job_def pyexample_job_def Job_def

lemma suites_ok: "\<forall>j\<in>set (dispatch_suites world opts trn dir suites). dispatched_ok cfg opts j
    \<and> \<not> is_example j \<and> \<not> is_pyexample j"
  by (auto simp: dispatch_suites_def job_defs dispatched_ok_def Let_def)

lemma example_test_ok:
  assumes "dispatch_example_test world opts dir d t jobs = Inr jobs'"
    "\<forall>j\<in>set jobs. dispatched_ok cfg opts j \<and> is_example j"
  shows "\<forall>j\<in>set jobs'. dispatched_ok cfg opts j \<and> is_example j"
  using assms
  by (auto simp: dispatch_example_test_def job_defs dispatched_ok_def Let_def res_simps
      split: prod.splits if_splits)

lemma python_test_ok:
  assumes "dispatch_python_test world cfg opts dir d t jobs = Inr jobs'"
    "\<forall>j\<in>set jobs. dispatched_ok cfg opts j \<and> is_pyexample j"
  shows "\<forall>j\<in>set jobs'. dispatched_ok cfg opts j \<and> is_pyexample j"
  using assms
  by (auto simp: dispatch_python_test_def job_defs dispatched_ok_def Let_def res_simps
      split: prod.splits if_splits)

lemma examples_ok:
  assumes "dispatch_examples world cfg opts dir d tests = Inr jobs"
  shows "\<forall>j\<in>set jobs. dispatched_ok cfg opts j \<and> is_example j"
proof -
  have "\<forall>j\<in>set js. dispatched_ok cfg opts j \<and> is_example j"
    if "res_fold (dispatch_example_test world opts dir d) tests [] = Inr js" for js
    using that by (rule res_fold_invariant) (auto dest!: example_test_ok [where cfg = cfg])
  then show ?thesis using assms
    by (auto simp: dispatch_examples_def job_defs dispatched_ok_def Let_def split: if_splits)
qed

lemma pyexamples_ok:
  assumes "dispatch_pyexamples world cfg opts dir scripts tests = Inr jobs"
  shows "\<forall>j\<in>set jobs. dispatched_ok cfg opts j \<and> is_pyexample j"
proof -
  have "\<forall>j\<in>set js. dispatched_ok cfg opts j \<and> is_pyexample j"
    if "res_fold (dispatch_python_test world cfg opts dir scripts) tests [] = Inr js" for js
    using that by (rule res_fold_invariant) (auto dest!: python_test_ok)
  then show ?thesis using assms
    by (auto simp: dispatch_pyexamples_def job_defs dispatched_ok_def Let_def split: if_splits)
qed

lemma example_fold:
  assumes "\<And>c. w_eval_condition world c = Inr (cond c)"
  shows "res_fold (dispatch_example_test world opts dir d) tests acc
    = Inr (acc @ map (\<lambda>(name, test, do_run, do_valgrind_run).
          let job = example_job world opts dir name test
          in if opt_valgrind opts \<and> \<not> cond do_valgrind_run
             then job\<lparr>is_skip := True, skip_reason := ''skip in valgrind runs''\<rparr> else job)
        (filter (\<lambda>(name, test, do_run, do_valgrind_run).
           path_basename (str_split1 CHR '' '' test ! 0) \<in> fst ` set d \<and> cond do_run) tests))"
proof (induction tests arbitrary: acc)
  case (Cons t tests)
  obtain n e r v where t: "t = (n, e, r, v)" by (cases t)
  show ?case unfolding t res_fold.simps
    by (subst dispatch_example_test_def) (simp add: assms Cons Let_def)
qed simp

section \<open>Properties\<close>

text \<open>every job that is put into the queue is fresh and is not a break job; a C++ example is never
  also a Python example; jobs are skipped only under valgrind, or, for Python examples, when the
  Python bindings are disabled, and a job is skipped exactly when it has a reason.\<close>

theorem dispatched_jobs_ok:
  assumes "dispatch_all world cfg opts trn dir programs scripts exs suites = Inr jobs"
  shows "\<forall>j\<in>set jobs. dispatched_ok cfg opts j"
proof -
  obtain e p where "dispatch_examples world cfg opts dir (runnable_dictionary programs)
      (example_tests exs) = Inr e"
    "dispatch_pyexamples world cfg opts dir scripts (python_tests exs) = Inr p"
    "jobs = dispatch_suites world opts trn dir suites @ e @ p"
    using assms by (auto simp: dispatch_all_def res_simps)
  then show ?thesis using suites_ok examples_ok pyexamples_ok by fastforce
qed

definition demo_world :: world where
  "demo_world = \<lparr>w_files = (\<lambda>_. None), w_exists = (\<lambda>_. True), w_cwd = ''/ns3'',
     w_platform = ''linux'', w_executable = ''python3'',
     w_popen = (\<lambda>cmd dir. Inr \<lparr>proc_returncode = 0,
        proc_stdout = (if ends_with cmd ''performance'' then [104, 111, 116] else [97, 10, 104, 111, 116]),
        proc_stderr = [], proc_time = 1\<rparr>),
     w_decode = (\<lambda>bs. Some (map char_of bs)), w_eval_cpp_examples = (\<lambda>_. Inr []),
     w_eval_python_examples = (\<lambda>_. Inr []), w_eval_strings = (\<lambda>_. Inr []),
     w_eval_condition = (\<lambda>s. Inr (s = ''True'')), w_sysconf_nprocessors = Some 4\<rparr>"

definition demo_config :: config where
  "demo_config = \<lparr>NS3_BASEDIR = ''/ns3'', NS3_BUILDDIR = ''/ns3/build'', NS3_ENABLED_MODULES = [],
     NS3_ENABLED_CONTRIBUTED_MODULES = [], NS3_MODULE_PATH = [], ENABLE_EXAMPLES = True,
     ENABLE_TESTS = True, ENABLE_PYTHON_BINDINGS = False, EXAMPLE_DIRECTORIES = [],
     APPNAME = ''ns'', BUILD_PROFILE = ''debug'', BUILD_PROFILE_SUFFIX = ''-debug'',
     VERSION = ''3-dev'', PYTHON = [''/usr/bin/python3''], VALGRIND_FOUND = True\<rparr>"

definition demo_examples :: example_lists where
  "demo_examples = \<lparr>example_tests = [(''examples/a'', ''/b/ns3-dev-a-debug --x'', ''True'', ''False''),
        (''examples/b'', ''/b/ns3-dev-b-debug'', ''False'', ''True'')],
     example_names_original = [''a --x'', ''b''], python_tests = [(''p.py'', ''True'')]\<rparr>"

lemmas demo_defs = demo_world_def demo_config_def demo_examples_def default_options_def

theorem dispatched_jobs_ok_witness:
  "\<exists>jobs. dispatch_all demo_world demo_config default_options ''runner'' ''out''
      [''build/ns3-dev-a-debug'', ''build/ns3-dev-b-debug''] [''p.py''] demo_examples ['' s '', '''']
      = Inr jobs
    \<and> map display_name jobs = [''s'', ''examples/a'', ''p.py''] \<and> map is_skip jobs = [False, False, True]
    \<and> (\<forall>j\<in>set jobs. dispatched_ok demo_config default_options j)"
proof -
  let ?r = "dispatch_all demo_world demo_config default_options ''runner'' ''out''
      [''build/ns3-dev-a-debug'', ''build/ns3-dev-b-debug''] [''p.py''] demo_examples ['' s '', '''']"
  have e: "case ?r of Inl _ \<Rightarrow> False
      | Inr jobs \<Rightarrow> map display_name jobs = [''s'', ''examples/a'', ''p.py'']
          \<and> map is_skip jobs = [False, False, True]"
    by code_simp
  from e obtain jobs where j: "?r = Inr jobs"
    "map display_name jobs = [''s'', ''examples/a'', ''p.py''] \<and> map is_skip jobs = [False, False, True]"
    by (rule case_InrE)
  from dispatched_jobs_ok [OF j(1)] j show ?thesis by (intro exI [of _ jobs]) simp
qed

text \<open>without an explicit suite or example, with examples enabled and no constraint (or the
  constraint \<^verbatim>\<open>example\<close>), exactly the C++ examples whose program is runnable and whose condition
  holds are dispatched, in the order of the lists, and under valgrind those whose valgrind
  condition fails are skipped; under any other constraint no example is dispatched.\<close>

theorem dispatch_examples_exact:
  assumes "\<And>c. w_eval_condition world c = Inr (cond c)"
    and "opt_suite opts = ''''" "opt_example opts = ''''" "opt_pyexample opts = ''''"
  shows "dispatch_examples world cfg opts dir d tests = Inr
    (if (opt_constrain opts = '''' \<or> opt_constrain opts = ''example'') \<and> ENABLE_EXAMPLES cfg
     then map (\<lambda>(name, test, do_run, do_valgrind_run).
            let job = example_job world opts dir name test
            in if opt_valgrind opts \<and> \<not> cond do_valgrind_run
               then job\<lparr>is_skip := True, skip_reason := ''skip in valgrind runs''\<rparr> else job)
          (filter (\<lambda>(name, test, do_run, do_valgrind_run).
             path_basename (str_split1 CHR '' '' test ! 0) \<in> fst ` set d \<and> cond do_run) tests)
     else [])"
  using assms(2-4) example_fold [of world cond opts dir d tests "[]", OF assms(1)]
  by (simp add: dispatch_examples_def no_explicit_test_def)

theorem dispatch_examples_exact_witness:
  "dispatch_examples demo_world demo_config default_options ''out'' [(''ns3-dev-a-debug'', ''x'')]
     (example_tests demo_examples)
   = Inr [example_job demo_world default_options ''out'' ''examples/a'' ''/b/ns3-dev-a-debug --x'']"
  using dispatch_examples_exact [of demo_world "\<lambda>s. s = ''True''" default_options demo_config "''out''"
      "[(''ns3-dev-a-debug'', ''x'')]" "example_tests demo_examples"]
  by (simp add: demo_defs str_split1_def path_basename_def os_sep_def Let_def)

text \<open>Unless exactly one suite was asked for by name or the constraint is \<^verbatim>\<open>performance\<close>, the
  suites that run are the requested ones less the performance tests the test runner lists.\<close>

theorem select_suites_performance:
  assumes "requested_suites world cfg opts trn = Inr (suites, single)"
    and "list_suites world cfg trn '' --print-test-name-list --test-type=performance'' = Inr perf"
    and "distinct suites"
  shows "\<exists>selected. select_suites world cfg opts trn = Inr selected
    \<and> set selected = (if single \<or> opt_constrain opts = ''performance'' then set suites
        else set suites - set (str_split nl perf))"
proof -
  have "distinct (fold remove1 ps xs) \<and> set (fold remove1 ps xs) = set xs - set ps"
    if "distinct xs" for ps xs :: "string list"
    using that by (induction ps arbitrary: xs) (auto simp: set_remove1_eq)
  then show ?thesis using assms by (auto simp: select_suites_def)
qed

theorem select_suites_performance_witness:
  "\<exists>selected. select_suites demo_world demo_config default_options ''runner'' = Inr selected
    \<and> set selected = {''a''}"
proof -
  have r: "requested_suites demo_world demo_config default_options ''runner''
      = Inr ([''a'', ''hot''], False)"
    by code_simp
  have l: "list_suites demo_world demo_config ''runner''
      '' --print-test-name-list --test-type=performance'' = Inr ''hot''"
    by code_simp
  have s: "str_split nl ''hot'' = [''hot'']" by (simp add: nl_def)
  have d: "set [''a'', ''hot''] - set [''hot''] = {''a''}" by auto
  have c: "opt_constrain default_options = ''''" by (simp add: default_options_def)
  show ?thesis using select_suites_performance [OF r l] unfolding s d c by simp
qed

text \<open>asking for a suite by a plain name runs exactly that suite, also when it is a performance
  test; a name the test runner does not list ends the program with exit code 2.\<close>

theorem requested_suite_by_name:
  assumes "opt_suite opts \<noteq> ''''" "plain_pattern (opt_suite opts)" "nl \<notin> set (opt_suite opts)"
    and "list_suites world cfg trn '' --print-test-name-list'' = Inr names"
    and "distinct (str_split nl names)"
  shows "select_suites world cfg opts trn =
    (if opt_suite opts \<in> set (str_split nl names) then Inr [opt_suite opts]
     else Inl (SystemExit 2))"
proof -
  have "filter (\<lambda>s. s = x) xs = (if x \<in> set xs then [x] else [])" if "distinct xs" for x :: string and xs
    using that by (induction xs) auto
  moreover have pat: "fnmatch (opt_suite opts) = (\<lambda>s. s = opt_suite opts)"
    using fnmatch_plain [OF assms(2)] by (rule ext)
  ultimately have f: "fnmatch_filter (str_split nl names) (opt_suite opts)
      = (if opt_suite opts \<in> set (str_split nl names) then [opt_suite opts] else [])"
    using assms(5) unfolding fnmatch_filter_def pat by simp
  have "str_split nl (opt_suite opts) = [opt_suite opts]" using assms(3) by (rule str_split_none)
  then show ?thesis using assms(1,4) f
    by (simp add: select_suites_def requested_suites_def Let_def)
qed

theorem requested_suite_by_name_witness:
  "select_suites demo_world demo_config (default_options\<lparr>opt_suite := ''hot''\<rparr>) ''runner''
     = Inr [''hot'']"
proof -
  have l: "list_suites demo_world demo_config ''runner'' '' --print-test-name-list''
      = Inr (''a'' @ nl # ''hot'')" by code_simp
  have s: "str_split nl (''a'' @ nl # ''hot'') = [''a'', ''hot'']" by code_simp
  show ?thesis
    using requested_suite_by_name [of "default_options\<lparr>opt_suite := ''hot''\<rparr>", OF _ _ _ l]
    unfolding s by (simp add: plain_pattern_def nl_def default_options_def)
qed

text \<open>The C++ examples of a directory below the build directory get the display name directory/name
  followed by their arguments, and are listed only when the program file exists.\<close>

theorem add_cpp_example_name:
  assumes "clean_comps bs" "bs \<noteq> []" "clean_comps ds" "ds \<noteq> []"
    and "NS3_BUILDDIR cfg = os_sep # str_join [os_sep] bs"
    and "original = name @ CHR '' '' # args" "CHR '' '' \<notin> set name" "name \<noteq> ''''" "os_sep \<notin> set name"
  shows "add_cpp_example world cfg (path_join (NS3_BUILDDIR cfg) (str_join [os_sep] ds))
      (original, do_run, do_valgrind_run) exs
    = Inr (let path = path_join (path_join (NS3_BUILDDIR cfg) (str_join [os_sep] ds))
                        (program_name cfg name)
           in if w_exists world path
              then exs\<lparr>example_tests := example_tests exs @
                     [(path_join (str_join [os_sep] ds) name @ '' '' @ args, path @ '' '' @ args,
                       do_run, do_valgrind_run)],
                   example_names_original := example_names_original exs @ [original]\<rparr>
              else exs)"
proof -
  have "str_split1 CHR '' '' original = [name, args]"
    using assms(6,7) by (auto simp: str_split1_def takeWhile_append dropWhile_append)
  then show ?thesis
    using relpath_below [OF assms(1-4), of "w_cwd world"] unfolding add_cpp_example_def assms(5)
    by (simp add: Let_def)
qed

theorem add_cpp_example_name_witness:
  "\<exists>exs. add_cpp_example demo_world demo_config
      (path_join (NS3_BUILDDIR demo_config) (str_join [os_sep] [''examples'', ''udp'']))
      (''echo --n=1'', ''True'', ''True'') demo_examples = Inr exs
    \<and> last (example_tests exs) = (''examples/udp/echo --n=1'',
        ''/ns3/build/examples/udp/ns3-dev-echo-debug --n=1'', ''True'', ''True'')"
  using add_cpp_example_name [of "[''ns3'', ''build'']" "[''examples'', ''udp'']" demo_config
      "''echo --n=1''" "''echo''" "''--n=1''" demo_world "''True''" "''True''" demo_examples]
  by (simp add: clean_comps_def path_component_def os_sep_def demo_defs path_join_def
      program_name_def Let_def)

end
