(* ===== verification/Markup.thy ===== *)
theory Markup
  imports Py_Prelude
begin

text \<open>
  A reader for the markup that \<^verbatim>\<open>test.py\<close> writes (\<^verbatim>\<open>results.xml\<close> and the HTML report): it walks
  over the characters and keeps the stack of open elements. It is the specification against
  which the writers are checked: a text is \<open>neutral\<close> when every element it opens is closed in
  the right order.
\<close>

section \<open>The reader\<close>

record markup =
  open_tags :: "string list"
  in_tag :: "string option"
  nested :: bool

text \<open>What a complete tag, given without its angle brackets, does to the open elements.\<close>

definition tag_effect :: "string \<Rightarrow> markup \<Rightarrow> markup" where
  "tag_effect body m =
     (case body of
        [] \<Rightarrow> m\<lparr>nested := False\<rparr>
      | c # name \<Rightarrow>
          if c = CHR ''?'' then m
          else if c = CHR ''/''
          then (case open_tags m of
                  [] \<Rightarrow> m\<lparr>nested := False\<rparr>
                | t # ts \<Rightarrow> if t = name then m\<lparr>open_tags := ts\<rparr> else m\<lparr>nested := False\<rparr>)
          else if last body = CHR ''/'' then m
          else m\<lparr>open_tags := takeWhile (\<lambda>c. c \<noteq> CHR '' '') body # open_tags m\<rparr>)"

definition markup_char :: "char \<Rightarrow> markup \<Rightarrow> markup" where
  "markup_char c m =
     (case in_tag m of
        None \<Rightarrow> if c = CHR ''<'' then m\<lparr>in_tag := Some []\<rparr>
                else if c = CHR ''>'' then m\<lparr>nested := False\<rparr> else m
      | Some body \<Rightarrow> if c = CHR ''>'' then (tag_effect body m)\<lparr>in_tag := None\<rparr>
                     else m\<lparr>in_tag := Some (body @ [c])\<rparr>)"

definition markup_run :: "string \<Rightarrow> markup \<Rightarrow> markup" where
  "markup_run s m = fold markup_char s m"

definition at_text :: "string list \<Rightarrow> markup" where
  "at_text st = \<lparr>open_tags = st, in_tag = None, nested = True\<rparr>"

definition neutral :: "string \<Rightarrow> bool" where
  "neutral s \<longleftrightarrow> (\<forall>st. markup_run s (at_text st) = at_text st)"

definition opens :: "string \<Rightarrow> string list \<Rightarrow> bool" where
  "opens s ts \<longleftrightarrow> (\<forall>st. markup_run s (at_text st) = at_text (ts @ st))"

definition closes :: "string \<Rightarrow> string list \<Rightarrow> bool" where
  "closes s ts \<longleftrightarrow> (\<forall>st. markup_run s (at_text (ts @ st)) = at_text st)"

text \<open>A whole document: every element is closed at the end.\<close>

definition well_nested :: "string \<Rightarrow> bool" where
  "well_nested s \<longleftrightarrow> markup_run s (at_text []) = at_text []"

text \<open>Text that contains no markup.\<close>

definition plain_text :: "string \<Rightarrow> bool" where
  "plain_text s \<longleftrightarrow> CHR ''<'' \<notin> set s \<and> CHR ''>'' \<notin> set s"

section \<open>Laws\<close>

named_theorems markup_simps

lemmas markup_eval = neutral_def opens_def closes_def markup_run_def markup_char_def tag_effect_def
  at_text_def

lemma markup_run_append: "markup_run (a @ b) m = markup_run b (markup_run a m)"
  by (simp add: markup_run_def)

lemma neutral_Nil [markup_simps, simp]: "neutral []"
  by (simp add: neutral_def markup_run_def)

lemma neutral_append [markup_simps, intro]: "neutral a \<Longrightarrow> neutral b \<Longrightarrow> neutral (a @ b)"
  by (simp add: neutral_def markup_run_append)

lemma neutral_concat [intro]: "(\<And>x. x \<in> set xs \<Longrightarrow> neutral x) \<Longrightarrow> neutral (concat xs)"
  by (induction xs) auto

lemma neutral_wrap:
  assumes "opens a ts" "neutral b" "closes c ts"
  shows "neutral (a @ b @ c)"
  using assms by (simp add: neutral_def opens_def closes_def markup_run_append)

lemma neutral_plain:
  assumes "plain_text s"
  shows "neutral s"
  using assms
  by (induction s) (auto simp: plain_text_def neutral_def markup_run_def markup_char_def at_text_def)

lemma neutral_Cons_plain:
  "c \<noteq> CHR ''<'' \<Longrightarrow> c \<noteq> CHR ''>'' \<Longrightarrow> neutral s \<Longrightarrow> neutral (c # s)"
  using neutral_append [of "[c]" s] neutral_plain [of "[c]"] by (simp add: plain_text_def)

lemma neutral_well_nested: "neutral s \<Longrightarrow> well_nested s"
  by (simp add: neutral_def well_nested_def)

lemma plain_text_append [simp]: "plain_text (a @ b) = (plain_text a \<and> plain_text b)"
  by (auto simp: plain_text_def)

lemma plain_text_Nil [simp]: "plain_text []"
  by (simp add: plain_text_def)

lemma plain_text_Cons [simp]:
  "plain_text (c # s) = (c \<noteq> CHR ''<'' \<and> c \<noteq> CHR ''>'' \<and> plain_text s)"
  by (auto simp: plain_text_def)

lemma run_in_tag:
  assumes "CHR ''>'' \<notin> set s"
  shows "markup_run s \<lparr>open_tags = st, in_tag = Some b, nested = True\<rparr>
    = \<lparr>open_tags = st, in_tag = Some (b @ s), nested = True\<rparr>"
  using assms by (induction s arbitrary: b) (auto simp: markup_run_def markup_char_def)

lemma tag_effect_in_tag: "(tag_effect b (m\<lparr>in_tag := x\<rparr>))\<lparr>in_tag := None\<rparr> = (tag_effect b m)\<lparr>in_tag := None\<rparr>"
  by (simp add: tag_effect_def split: list.splits)

lemma run_tag:
  assumes "CHR ''>'' \<notin> set b"
  shows "markup_run (''<'' @ b @ ''>'') (at_text st) = (tag_effect b (at_text st))\<lparr>in_tag := None\<rparr>"
proof -
  have "markup_run (''<'' @ b @ ''>'') (at_text st)
      = markup_run ''>'' (markup_run b \<lparr>open_tags = st, in_tag = Some [], nested = True\<rparr>)"
    by (simp add: markup_run_def markup_char_def at_text_def)
  also have "\<dots> = (tag_effect b ((at_text st)\<lparr>in_tag := Some b\<rparr>))\<lparr>in_tag := None\<rparr>"
    by (simp add: run_in_tag [OF assms]) (simp add: markup_run_def markup_char_def at_text_def)
  finally show ?thesis by (simp add: tag_effect_in_tag)
qed

text \<open>An element with plain text inside, and an element without content.\<close>

definition element :: "string \<Rightarrow> string \<Rightarrow> string" where
  "element name body = ''<'' @ name @ ''>'' @ body @ ''</'' @ name @ ''>''"

definition tag_name :: "string \<Rightarrow> bool" where
  "tag_name n \<longleftrightarrow> n \<noteq> [] \<and> plain_text n \<and> CHR ''/'' \<notin> set n \<and> CHR ''?'' \<notin> set n \<and> CHR '' '' \<notin> set n"

lemma run_open:
  assumes "tag_name n" and that: "attrs = '''' \<or> (\<exists>a. attrs = CHR '' '' # a)"
    "CHR ''>'' \<notin> set attrs" "attrs \<noteq> '''' \<longrightarrow> last attrs \<noteq> CHR ''/''"
  shows "opens (''<'' @ n @ attrs @ ''>'') [n]"
proof -
  obtain c cs where n: "n = c # cs" using assms by (cases n) (auto simp: tag_name_def)
  have "takeWhile (\<lambda>c. c \<noteq> CHR '' '') (n @ attrs) = n @ takeWhile (\<lambda>c. c \<noteq> CHR '' '') attrs"
    using assms(1) by (intro takeWhile_append2) (auto simp: tag_name_def)
  moreover have "takeWhile (\<lambda>c. c \<noteq> CHR '' '') attrs = ''''" using that(1) by auto
  ultimately have tw: "takeWhile (\<lambda>c. c \<noteq> CHR '' '') (n @ attrs) = n" by simp
  have "last n \<in> set n" "CHR ''/'' \<notin> set n" using n assms(1) by (auto simp: tag_name_def)
  then have ln: "last (n @ attrs) \<noteq> CHR ''/''"
    using that(3) by (cases "attrs = ''''") (auto simp: last_append)
  have gt: "CHR ''>'' \<notin> set (n @ attrs)" using assms that(2) by (auto simp: tag_name_def plain_text_def)
  have "tag_effect (n @ attrs) (at_text st) = at_text (n # st)" for st
    using tw ln n assms(1) by (auto simp: tag_effect_def at_text_def tag_name_def)
  then show ?thesis using run_tag [OF gt] by (simp add: opens_def at_text_def)
qed

lemma run_close:
  assumes "tag_name n"
  shows "closes (''</'' @ n @ ''>'') [n]"
proof -
  have gt: "CHR ''>'' \<notin> set (CHR ''/'' # n)" using assms by (auto simp: tag_name_def plain_text_def)
  have "tag_effect (CHR ''/'' # n) (at_text (n # st)) = at_text st" for st
    by (simp add: tag_effect_def at_text_def)
  then show ?thesis using run_tag [OF gt] by (simp add: closes_def at_text_def)
qed

lemma neutral_element:
  assumes "tag_name n" "neutral body"
  shows "neutral (element n body)"
  using neutral_wrap [OF run_open [OF assms(1), of "''''"] assms(2) run_close [OF assms(1)]]
  by (simp add: element_def)

lemma neutral_newline: "neutral newline"
  by (simp add: neutral_plain newline_def)

lemma neutral_block:
  assumes "tag_name n" "neutral t"
  shows "neutral (''<'' @ n @ ''>'' @ newline @ t @ ''</'' @ n @ ''>'' @ newline)"
proof -
  have "neutral (element n (newline @ t) @ newline)"
    by (intro neutral_append neutral_element neutral_newline assms)
  then show ?thesis by (simp add: element_def)
qed

lemma opens_append: "opens a ts \<Longrightarrow> opens b us \<Longrightarrow> opens (a @ b) (us @ ts)"
  by (simp add: opens_def markup_run_append)

lemma opens_neutral: "opens a ts \<Longrightarrow> neutral b \<Longrightarrow> opens (a @ b) ts"
  by (simp add: opens_def neutral_def markup_run_append)

text \<open>A nesting error is never repaired by what follows.\<close>

lemma nested_tag_effect: "\<not> nested m \<Longrightarrow> \<not> nested (tag_effect b m)"
  by (auto simp: tag_effect_def split: list.splits)

lemma nested_run: "\<not> nested m \<Longrightarrow> \<not> nested (markup_run s m)"
proof (induction s arbitrary: m)
  case (Cons c s)
  have "\<not> nested (markup_char c m)" using Cons.prems nested_tag_effect
    by (auto simp: markup_char_def split: option.splits)
  then show ?case using Cons.IH by (simp add: markup_run_def)
qed (simp add: markup_run_def)

end
