(* ===== verification/Py_Numbers.thy ===== *)
theory Py_Numbers
  imports Complex_Main Py_Prelude
begin

text \<open>
  Python's numbers as exact rationals: \<^verbatim>\<open>int\<close> truncates towards zero, \<^verbatim>\<open>%\<close> has the sign of the
  divisor, \<^verbatim>\<open>/\<close> raises on zero, \<^verbatim>\<open>range\<close> on a step of zero.
\<close>

definition py_trunc :: "rat \<Rightarrow> int" where
  "py_trunc r = (if 0 \<le> r then \<lfloor>r\<rfloor> else \<lceil>r\<rceil>)"

definition py_mod :: "rat \<Rightarrow> rat \<Rightarrow> rat" where
  "py_mod x d = x - d * of_int \<lfloor>x / d\<rfloor>"

definition py_div :: "rat \<Rightarrow> rat \<Rightarrow> rat res" where
  "py_div a b = (if b = 0 then Inl ZeroDivisionError else Inr (a / b))"

definition py_range :: "int \<Rightarrow> int \<Rightarrow> int \<Rightarrow> int list res" where
  "py_range a b step =
     (if step = 0 then Inl ValueError
      else let n = (if 0 < step then (b - a + step - 1) div step else (a - b - step - 1) div (- step))
           in Inr (map (\<lambda>k. a + step * int k) [0..<nat n]))"

section \<open>Numbers and text\<close>

definition round_half_even :: "rat \<Rightarrow> int" where
  "round_half_even x =
     (let n = floor x; r = x - of_int n
      in if r < 1 / 2 \<or> (r = 1 / 2 \<and> even n) then n else n + 1)"

definition pad_left :: "nat \<Rightarrow> char \<Rightarrow> string \<Rightarrow> string" where
  "pad_left w c s = replicate (w - length s) c @ s"

text \<open>\<^verbatim>\<open>'%.kf' % x\<close> for a positive number of places.\<close>

definition fmt_fixed :: "nat \<Rightarrow> rat \<Rightarrow> string" where
  "fmt_fixed k x =
     (let n = round_half_even (x * 10 ^ k); a = nat \<bar>n\<bar>
      in (if x < 0 then ''-'' else []) @ nat_digits (a div 10 ^ k) @ ''.'' @ pad_left k (CHR ''0'') (nat_digits (a mod 10 ^ k)))"

text \<open>\<^verbatim>\<open>float(s)\<close> on a decimal number: sign, digits with a point, exponent; blanks around it allowed. Infinities, \<^verbatim>\<open>nan\<close> and underscores,
  which Python also reads, are not used by the scripts and are refused here.\<close>

definition split_sign :: "string \<Rightarrow> bool \<times> string" where
  "split_sign t = (case t of
     c # cs \<Rightarrow> if c = CHR ''-'' then (True, cs) else if c = CHR ''+'' then (False, cs) else (False, t)
   | [] \<Rightarrow> (False, []))"

definition read_exponent :: "string \<Rightarrow> int option" where
  "read_exponent e = (case e of
     [] \<Rightarrow> Some 0
   | _ # t \<Rightarrow> (case split_sign t of (neg, ds) \<Rightarrow>
        if ds \<noteq> [] \<and> list_all is_digit ds then Some (if neg then - int (nat_of_digits ds) else int (nat_of_digits ds)) else None))"

definition read_decimal :: "string \<Rightarrow> rat option" where
  "read_decimal m =
     (let i = takeWhile (\<lambda>c. c \<noteq> CHR ''.'') m; f = drop (Suc (length i)) m
      in if i @ f \<noteq> [] \<and> list_all is_digit (i @ f) then Some (of_nat (nat_of_digits (i @ f)) / 10 ^ length f) else None)"

definition py_float :: "string \<Rightarrow> rat res" where
  "py_float s =
     (case split_sign (str_strip s) of (neg, t) \<Rightarrow>
        let m = takeWhile (\<lambda>c. c \<noteq> CHR ''e'' \<and> c \<noteq> CHR ''E'') t; e = drop (length m) t
        in case (read_decimal m, read_exponent e) of
             (Some x, Some k) \<Rightarrow> Inr ((if neg then - x else x) * 10 powi k)
           | _ \<Rightarrow> Inl ValueError)"

lemma py_trunc_of_int [simp]: "py_trunc (of_int i) = i"
  by (simp add: py_trunc_def)

lemma py_mod_bounds:
  assumes "0 < d"
  shows "0 \<le> py_mod x d \<and> py_mod x d < d"
  using floor_divide_lower [OF assms, of x] floor_divide_upper [OF assms, of x]
  by (simp add: py_mod_def algebra_simps)

section \<open>Counting up\<close>

text \<open>The values of the loop \<^verbatim>\<open>while cur < stop: ...; cur += step\<close>. When the step is not positive it need not end:
  then it has no value.\<close>

partial_function (option) step_loop :: "rat \<Rightarrow> rat \<Rightarrow> rat \<Rightarrow> rat list option" where
  "step_loop cur stop step =
     (if cur < stop then Option.bind (step_loop (cur + step) stop step) (\<lambda>l. Some (cur # l)) else Some [])"

declare step_loop.simps [code]

lemma step_loop_stop: "\<not> cur < stop \<Longrightarrow> step_loop cur stop step = Some []"
  by (simp add: step_loop.simps)

lemma step_loop_steps:
  assumes "0 < step" "of_nat n * step < stop - cur + step" "stop - cur \<le> of_nat n * step"
  shows "step_loop cur stop step = Some (map (\<lambda>k. cur + of_nat k * step) [0..<n])"
  using assms
proof (induction n arbitrary: cur)
  case (Suc n)
  have "0 \<le> of_nat n * step" using Suc.prems(1) by simp
  then have "cur < stop" using Suc.prems(2) by (simp add: distrib_right)
  have "step_loop (cur + step) stop step = Some (map (\<lambda>k. cur + step + of_nat k * step) [0..<n])"
    using Suc.prems by (intro Suc.IH) (simp_all add: distrib_right)
  moreover have "map (\<lambda>k. cur + of_nat k * step) [0..<Suc n] = cur # map (\<lambda>k. cur + step + of_nat k * step) [0..<n]"
    unfolding upt_conv_Cons [OF zero_less_Suc] map_Suc_upt [symmetric] by (simp add: distrib_right)
  ultimately show ?case using \<open>cur < stop\<close> by (simp add: step_loop.simps [of cur])
qed (simp add: step_loop_stop)

lemma step_loop_ends:
  assumes "step_loop cur stop step = Some l"
  shows "step \<le> 0 \<longrightarrow> stop \<le> cur"
proof (rule step_loop.raw_induct [where P = "\<lambda>cur stop step l. step \<le> 0 \<longrightarrow> stop \<le> cur", OF _ assms])
  fix rec :: "rat \<Rightarrow> rat \<Rightarrow> rat \<Rightarrow> rat list option" and cur stop step :: rat and l
  assume "\<And>cur stop step l. rec cur stop step = Some l \<Longrightarrow> step \<le> 0 \<longrightarrow> stop \<le> cur"
    and "(if cur < stop then Option.bind (rec (cur + step) stop step) (\<lambda>l. Some (cur # l)) else Some []) = Some l"
  then show "step \<le> 0 \<longrightarrow> stop \<le> cur" by (fastforce split: if_splits bind_splits)
qed

lemma step_loop_positive:
  assumes pos: "0 < step"
  shows "step_loop start stop step = Some (map (\<lambda>k. start + of_nat k * step) [0..<nat \<lceil>(stop - start) / step\<rceil>])"
proof (cases "start < stop")
  case True
  let ?n = "nat \<lceil>(stop - start) / step\<rceil>"
  have "0 < (stop - start) / step" using True pos by simp
  then have "of_nat ?n = (of_int \<lceil>(stop - start) / step\<rceil> :: rat)" by (simp add: less_imp_le)
  then have "of_nat ?n * step < stop - start + step" "stop - start \<le> of_nat ?n * step"
    using pos ceiling_divide_lower [OF pos, of "stop - start"] ceiling_divide_upper [OF pos, of "stop - start"]
    by (simp_all add: algebra_simps)
  then show ?thesis using step_loop_steps [OF pos] by simp
next
  case False
  then have "(stop - start) / step \<le> 0" using pos by (simp add: divide_le_0_iff)
  then have "nat \<lceil>(stop - start) / step\<rceil> = 0" by (simp add: ceiling_le_iff)
  then show ?thesis using False by (simp add: step_loop_stop)
qed

lemma step_loop_not_positive:
  "step \<le> 0 \<Longrightarrow> step_loop start stop step = (if start < stop then None else Some [])"
  using step_loop_ends [of start stop step] step_loop_stop [of start stop step]
  by (cases "step_loop start stop step") auto

end
