(* ===== verification/Test_Collect.thy ===== *)
theory Test_Collect
  imports Test_Dispatch Markup Py_Numbers "HOL-Library.List_Lexorder" "HOL-Library.Char_ord"
begin

text \<open>
  \<^verbatim>\<open>test.py\<close>, part 4: the loop of the main thread that takes finished jobs from the output queue,
  counts them, prints a line for each and appends its result to \<^verbatim>\<open>results.xml\<close>; the summary and
  the exit code.

  \<open>fs\<close> is the file system after the test suites have run: the temporary result file of a suite
  is read from it, and a missing file raises. Elapsed times are rationals, printed with
  \<^verbatim>\<open>%.3f\<close> rounded half to even.
\<close>

section \<open>Formatting\<close>

definition esc :: string where
  "esc = [CHR 0x1B]"

text \<open>\<^verbatim>\<open>colors_lst\<close> and \<^verbatim>\<open>get_color\<close>\<close>

definition colors_lst :: "(string \<times> string) list" where
  "colors_lst = [(''BOLD'', esc @ ''[01;1m''), (''RED'', esc @ ''[01;31m''), (''GREEN'', esc @ ''[32m''),
     (''YELLOW'', esc @ ''[33m''), (''PINK'', esc @ ''[35m''), (''BLUE'', esc @ ''[01;34m''),
     (''CYAN'', esc @ ''[36m''), (''GREY'', esc @ ''[37m''), (''NORMAL'', esc @ ''[0m''),
     (''cursor_on'', esc @ ''[?25h''), (''cursor_off'', esc @ ''[?25l'')]"

definition get_color :: "bool \<Rightarrow> string \<Rightarrow> string" where
  "get_color use cl =
     (if use then case map_of colors_lst cl of Some s \<Rightarrow> s | None \<Rightarrow> '''' else '''')"

text \<open>\<^verbatim>\<open>envcolor\<close> and \<^verbatim>\<open>colors_lst['USE']\<close> as set by \<^verbatim>\<open>main\<close>; \<open>nocolor_env\<close> is the variable
  \<^verbatim>\<open>NOCOLOR\<close> of the environment.\<close>

definition use_colors :: "options \<Rightarrow> string \<Rightarrow> bool" where
  "use_colors opts nocolor_env = (\<not> (opt_nocolor opts \<or> nocolor_env \<noteq> ''''))"

definition fmt_3f :: "rat \<Rightarrow> string" where
  "fmt_3f x = fmt_fixed 3 x"

section \<open>Results\<close>

datatype status = PASS | FAIL | VALGR | SKIP | CRASH

definition status_name :: "status \<Rightarrow> string" where
  "status_name st = (case st of PASS \<Rightarrow> ''PASS'' | FAIL \<Rightarrow> ''FAIL'' | VALGR \<Rightarrow> ''VALGR''
     | SKIP \<Rightarrow> ''SKIP'' | CRASH \<Rightarrow> ''CRASH'')"

definition status_color :: "status \<Rightarrow> string" where
  "status_color st = (case st of PASS \<Rightarrow> ''GREEN'' | FAIL \<Rightarrow> ''RED'' | VALGR \<Rightarrow> ''CYAN''
     | SKIP \<Rightarrow> ''GREY'' | CRASH \<Rightarrow> ''PINK'')"

definition job_status :: "job \<Rightarrow> status" where
  "job_status j =
     (if is_skip j then SKIP
      else if returncode j = 0 then PASS
      else if returncode j = 1 then FAIL
      else if returncode j = 2 then VALGR
      else CRASH)"

record summary =
  passed_tests :: nat
  failed_tests :: nat
  failed_testnames :: "string list"
  crashed_tests :: nat
  crashed_testnames :: "string list"
  valgrind_errors :: nat
  valgrind_testnames :: "string list"
  skipped_tests :: nat
  skipped_testnames :: "string list"
  xml_results :: string
  printed :: "string list"

definition start_summary :: summary where
  "start_summary = \<lparr>passed_tests = 0, failed_tests = 0, failed_testnames = [], crashed_tests = 0,
     crashed_testnames = [], valgrind_errors = 0, valgrind_testnames = [], skipped_tests = 0,
     skipped_testnames = [],
     xml_results = ''<?xml version=\"1.0\"?>'' @ newline @ ''<Results>'' @ newline,
     printed = []\<rparr>"

definition count_job :: "job \<Rightarrow> summary \<Rightarrow> summary" where
  "count_job j s =
     (case job_status j of
        SKIP \<Rightarrow> s\<lparr>skipped_tests := skipped_tests s + 1,
                  skipped_testnames := skipped_testnames s
                    @ [display_name j @ '' ('' @ skip_reason j @ '')'']\<rparr>
      | PASS \<Rightarrow> s\<lparr>passed_tests := passed_tests s + 1\<rparr>
      | FAIL \<Rightarrow> s\<lparr>failed_tests := failed_tests s + 1,
                  failed_testnames := failed_testnames s @ [display_name j]\<rparr>
      | VALGR \<Rightarrow> s\<lparr>valgrind_errors := valgrind_errors s + 1,
                  valgrind_testnames := valgrind_testnames s @ [display_name j]\<rparr>
      | CRASH \<Rightarrow> s\<lparr>crashed_tests := crashed_tests s + 1,
                  crashed_testnames := crashed_testnames s @ [display_name j]\<rparr>)"

definition progress_line :: "bool \<Rightarrow> options \<Rightarrow> nat \<Rightarrow> job \<Rightarrow> summary \<Rightarrow> string" where
  "progress_line use opts total_tests j s =
     (let st = job_status j;
          kind = (if is_example j \<or> is_pyexample j then ''Example'' else ''TestSuite'');
          status_print = get_color use (status_color st) @ status_name st @ get_color use ''NORMAL''
      in ''['' @ nat_digits (passed_tests s + failed_tests s + skipped_tests s + crashed_tests s)
         @ ''/'' @ nat_digits total_tests @ ''] ''
         @ (if opt_duration opts \<or> opt_constrain opts = ''performance''
            then status_print @ '' ('' @ fmt_3f (elapsed_time j) @ ''): '' @ kind @ '' '' @ display_name j
            else status_print @ '': '' @ kind @ '' '' @ display_name j))"

definition example_xml :: "job \<Rightarrow> string" where
  "example_xml j =
     ''<Example>'' @ newline @ ''  <Name>'' @ display_name j @ ''</Name>'' @ newline
     @ ''  <Result>'' @ status_name (job_status j) @ ''</Result>'' @ newline
     @ ''  <Time real=\"'' @ fmt_3f (elapsed_time j) @ ''\"/>'' @ newline @ ''</Example>'' @ newline"

definition suite_xml :: "files \<Rightarrow> job \<Rightarrow> string res" where
  "suite_xml fs j =
     (if is_skip j
      then Inr (''<Test>'' @ newline @ ''  <Name>'' @ display_name j @ ''</Name>'' @ newline
             @ ''  <Result>SKIP</Result>'' @ newline
             @ ''  <Reason>'' @ skip_reason j @ ''</Reason>'' @ newline @ ''</Test>'' @ newline)
      else if returncode j = 0 \<or> returncode j = 1 \<or> returncode j = 2
      then (case fs (tmp_file_name j) of Some content \<Rightarrow> Inr content | None \<Rightarrow> Inl OSError)
      else Inr (''<Test>'' @ newline @ ''  <Name>'' @ display_name j @ ''</Name>'' @ newline
             @ ''  <Result>CRASH</Result>'' @ newline @ ''</Test>'' @ newline))"

text \<open>The body of the loop over the output queue.\<close>

definition collect_job ::
    "files \<Rightarrow> bool \<Rightarrow> options \<Rightarrow> nat \<Rightarrow> job \<Rightarrow> summary \<Rightarrow> summary res" where
  "collect_job fs use opts total_tests j s =
     (if is_break j then Inr s
      else let s1 = count_job j s;
               s2 = s1\<lparr>printed := printed s1 @ [progress_line use opts total_tests j s1]\<rparr>
           in if is_example j \<or> is_pyexample j
              then Inr (s2\<lparr>xml_results := xml_results s2 @ example_xml j\<rparr>)
              else res_bind (suite_xml fs j) (\<lambda>x. Inr (s2\<lparr>xml_results := xml_results s2 @ x\<rparr>)))"

definition collect_jobs ::
    "files \<Rightarrow> bool \<Rightarrow> options \<Rightarrow> nat \<Rightarrow> job list \<Rightarrow> summary res" where
  "collect_jobs fs use opts total_tests js =
     res_bind (res_fold (collect_job fs use opts total_tests) js start_summary) (\<lambda>s.
       Inr (s\<lparr>xml_results := xml_results s @ ''</Results>'' @ newline\<rparr>))"

definition names_block :: "string \<Rightarrow> string list \<Rightarrow> string list" where
  "names_block title names =
     (if names = [] then []
      else [title @ newline @ ''    '' @ str_join (newline @ ''    '') (sort names)])"

definition summary_lines :: "nat \<Rightarrow> summary \<Rightarrow> string list" where
  "summary_lines total_tests s =
     [nat_digits (passed_tests s) @ '' of '' @ nat_digits total_tests @ '' tests passed (''
       @ nat_digits (passed_tests s) @ '' passed, '' @ nat_digits (skipped_tests s) @ '' skipped, ''
       @ nat_digits (failed_tests s) @ '' failed, '' @ nat_digits (crashed_tests s) @ '' crashed, ''
       @ nat_digits (valgrind_errors s) @ '' valgrind errors)'']
     @ names_block ''List of SKIPped tests:'' (skipped_testnames s)
     @ names_block ''List of FAILed tests:'' (failed_testnames s)
     @ names_block ''List of CRASHed tests:'' (crashed_testnames s)
     @ names_block ''List of VALGR failures:'' (valgrind_testnames s)"

definition exit_status :: "nat \<Rightarrow> summary \<Rightarrow> int" where
  "exit_status total_tests s = (if passed_tests s + skipped_tests s = total_tests then 0 else 1)"

section \<open>Counting\<close>

text \<open>The jobs with a status, as the counters see them.\<close>

definition tally :: "status \<Rightarrow> job list \<Rightarrow> job list" where
  "tally st js = filter (\<lambda>j. \<not> is_break j \<and> job_status j = st) js"

definition skip_label :: "job \<Rightarrow> string" where
  "skip_label j = display_name j @ '' ('' @ skip_reason j @ '')''"

definition counts_from :: "summary \<Rightarrow> job list \<Rightarrow> summary \<Rightarrow> bool" where
  "counts_from s js s' \<longleftrightarrow>
     passed_tests s' = passed_tests s + length (tally PASS js)
     \<and> failed_tests s' = failed_tests s + length (tally FAIL js)
     \<and> crashed_tests s' = crashed_tests s + length (tally CRASH js)
     \<and> valgrind_errors s' = valgrind_errors s + length (tally VALGR js)
     \<and> skipped_tests s' = skipped_tests s + length (tally SKIP js)
     \<and> failed_testnames s' = failed_testnames s @ map display_name (tally FAIL js)
     \<and> crashed_testnames s' = crashed_testnames s @ map display_name (tally CRASH js)
     \<and> valgrind_testnames s' = valgrind_testnames s @ map display_name (tally VALGR js)
     \<and> skipped_testnames s' = skipped_testnames s @ map skip_label (tally SKIP js)"

lemma tally_append: "tally st (js @ ks) = tally st js @ tally st ks"
  by (simp add: tally_def)

lemma counts_from_trans:
  "counts_from s js t \<Longrightarrow> counts_from t ks u \<Longrightarrow> counts_from s (js @ ks) u"
  by (simp add: counts_from_def tally_append)

lemma counts_from_output:
  "counts_from s js t \<Longrightarrow> counts_from s js (t\<lparr>xml_results := x\<rparr>)"
  "counts_from s js t \<Longrightarrow> counts_from s js (t\<lparr>printed := p\<rparr>)"
  by (simp_all add: counts_from_def)

lemma count_job_counts: "\<not> is_break j \<Longrightarrow> counts_from s [j] (count_job j s)"
  by (cases "job_status j") (simp_all add: counts_from_def count_job_def tally_def skip_label_def)

lemma collect_job_counts:
  assumes "collect_job fs use opts tot j s = Inr s'"
  shows "counts_from s [j] s'"
proof (cases "is_break j")
  case True
  then show ?thesis using assms by (simp add: collect_job_def counts_from_def tally_def)
next
  case False
  then show ?thesis using assms count_job_counts [OF False, of s]
    by (auto simp: collect_job_def Let_def res_simps intro!: counts_from_output split: if_splits)
qed

lemma collect_fold_counts:
  assumes "res_fold (collect_job fs use opts tot) js s = Inr s'"
  shows "counts_from s js s'"
  using assms
proof (induction js arbitrary: s)
  case (Cons j js)
  then obtain t where t: "collect_job fs use opts tot j s = Inr t"
    "res_fold (collect_job fs use opts tot) js t = Inr s'"
    by (auto simp: res_simps)
  show ?case using counts_from_trans [OF collect_job_counts [OF t(1)] Cons.IH [OF t(2)]] by simp
qed (simp add: counts_from_def tally_def)

lemma collect_jobs_counts:
  "collect_jobs fs use opts tot js = Inr s \<Longrightarrow> counts_from start_summary js s"
  by (auto simp: collect_jobs_def res_simps dest!: collect_fold_counts intro: counts_from_output)

lemma tally_total:
  "length (tally PASS js) + length (tally FAIL js) + length (tally CRASH js)
     + length (tally VALGR js) + length (tally SKIP js) = length (filter (\<lambda>j. \<not> is_break j) js)"
proof (induction js)
  case (Cons j js)
  then show ?case by (cases "job_status j") (auto simp: tally_def)
qed (simp add: tally_def)

lemma tally_good:
  "length (tally PASS js) + length (tally SKIP js) = length js
    \<longleftrightarrow> (\<forall>j\<in>set js. \<not> is_break j \<and> job_status j \<in> {PASS, SKIP})"
proof (induction js)
  case (Cons j js)
  have "length (tally PASS js) + length (tally SKIP js) \<le> length js"
    using tally_total [of js] length_filter_le [of "\<lambda>j. \<not> is_break j" js] by linarith
  with Cons show ?case by (cases "job_status j") (auto simp: tally_def)
qed (simp add: tally_def)

section \<open>Success and order\<close>

definition result_ok :: "files \<Rightarrow> job \<Rightarrow> bool" where
  "result_ok fs j \<longleftrightarrow> is_break j \<or> is_example j \<or> is_pyexample j \<or> (\<exists>x. suite_xml fs j = Inr x)"

lemma collect_job_ok: "(\<exists>s'. collect_job fs use opts tot j s = Inr s') \<longleftrightarrow> result_ok fs j"
  by (auto simp: collect_job_def result_ok_def Let_def res_simps)

lemma collect_fold_ok:
  "(\<exists>s'. res_fold (collect_job fs use opts tot) js s = Inr s') \<longleftrightarrow> list_all (result_ok fs) js"
proof (induction js arbitrary: s)
  case (Cons j js)
  then show ?case
    by (simp add: res_simps collect_job_ok [symmetric, where use = use and opts = opts and tot = tot and s = s])
      blast
qed simp

lemma sort_mset: "mset xs = mset ys \<Longrightarrow> sort xs = (sort ys :: string list)"
  by (metis sorted_list_of_multiset_mset)

lemma tally_mset: "mset js = mset ks \<Longrightarrow> mset (tally st js) = mset (tally st ks)"
  by (simp add: tally_def)

lemma names_block_mset: "mset xs = mset ys \<Longrightarrow> names_block t xs = names_block t ys"
  by (auto simp: names_block_def dest: sort_mset)

section \<open>Well-nested results\<close>

lemma plain_nat_digits [simp]: "plain_text (nat_digits n)"
  using nat_digits_digits [of "CHR ''<''" n] nat_digits_digits [of "CHR ''>''" n]
  by (auto simp: plain_text_def is_digit_def)

lemma plain_fmt_3f: "plain_text (fmt_3f x)"
proof -
  have "plain_text (replicate k (CHR ''0''))" for k by (simp add: plain_text_def)
  then show ?thesis by (simp add: fmt_3f_def fmt_fixed_def Let_def pad_left_def)
qed

lemma plain_status: "plain_text (status_name st)"
  by (cases st) (simp_all add: status_name_def)

lemma neutral_line:
  assumes "tag_name n" "plain_text t"
  shows "neutral (''  <'' @ n @ ''>'' @ t @ ''</'' @ n @ ''>'' @ newline)"
proof -
  have "neutral (''  '' @ element n t @ newline)"
    by (intro neutral_append neutral_element neutral_newline assms neutral_plain) simp_all
  then show ?thesis by (simp add: element_def)
qed

lemma tag_names: "tag_name ''Name''" "tag_name ''Result''" "tag_name ''Reason''" "tag_name ''Test''"
  "tag_name ''Example''" "tag_name ''Results''"
  by (simp_all add: tag_name_def)

lemma neutral_time: "plain_text t \<Longrightarrow> neutral (''  <Time real=\"'' @ t @ ''\"/>'' @ newline)"
proof -
  assume t: "plain_text t"
  have gt: "CHR ''>'' \<notin> set (''Time real=\"'' @ t @ ''\"/'')" using t by (simp add: plain_text_def)
  have "tag_effect (''Time real=\"'' @ t @ ''\"/'') (at_text st) = at_text st" for st
    by (simp add: tag_effect_def at_text_def)
  then have "neutral (''<'' @ (''Time real=\"'' @ t @ ''\"/'') @ ''>'')"
    using run_tag [OF gt] by (simp add: neutral_def at_text_def)
  from neutral_append [OF neutral_plain [of "''  ''"] neutral_append [OF this neutral_newline]]
  show ?thesis by simp
qed

lemma neutral_example:
  assumes "plain_text (display_name j)"
  shows "neutral (example_xml j)"
proof -
  note neutral_block [OF tag_names(5) neutral_append [OF neutral_line [OF tag_names(1) assms]
    neutral_append [OF neutral_line [OF tag_names(2) plain_status] neutral_time [OF plain_fmt_3f]]]]
  then show ?thesis by (simp add: example_xml_def)
qed

definition suite_file_ok :: "files \<Rightarrow> job \<Rightarrow> bool" where
  "suite_file_ok fs j \<longleftrightarrow> (\<forall>x. fs (tmp_file_name j) = Some x \<longrightarrow> neutral x)"

lemma neutral_suite:
  assumes "plain_text (display_name j)" "plain_text (skip_reason j)" "suite_file_ok fs j"
    "suite_xml fs j = Inr x"
  shows "neutral x"
proof -
  have r: "plain_text ''SKIP''" "plain_text ''CRASH''" by simp_all
  note skip = neutral_block [OF tag_names(4) neutral_append [OF neutral_line [OF tag_names(1) assms(1)]
    neutral_append [OF neutral_line [OF tag_names(2) r(1)] neutral_line [OF tag_names(3) assms(2)]]]]
  note crash = neutral_block [OF tag_names(4) neutral_append [OF neutral_line [OF tag_names(1) assms(1)]
    neutral_line [OF tag_names(2) r(2)]]]
  show ?thesis using assms skip crash
    by (auto simp: suite_xml_def suite_file_ok_def split: if_splits option.splits)
qed

lemma collect_job_xml:
  assumes "collect_job fs use opts tot j s = Inr s'"
    and "plain_text (display_name j)" "plain_text (skip_reason j)" "suite_file_ok fs j"
  shows "\<exists>x. neutral x \<and> xml_results s' = xml_results s @ x"
proof -
  have c: "xml_results (count_job j s) = xml_results s"
    by (simp add: count_job_def split: status.splits)
  consider "is_break j" | "\<not> is_break j" "is_example j \<or> is_pyexample j"
    | x where "\<not> is_break j" "\<not> (is_example j \<or> is_pyexample j)" "suite_xml fs j = Inr x"
    using assms(1) unfolding collect_job_def Let_def res_simps
    by (cases "is_break j"; cases "is_example j \<or> is_pyexample j"; cases "suite_xml fs j") auto
  then show ?thesis
  proof cases
    case 1
    then show ?thesis using assms(1) by (auto simp: collect_job_def)
  next
    case 2
    then have "xml_results s' = xml_results s @ example_xml j"
      using assms(1) c by (auto simp: collect_job_def Let_def)
    then show ?thesis using neutral_example [OF assms(2)] by blast
  next
    case 3
    then have "xml_results s' = xml_results s @ x"
      using assms(1) c by (auto simp: collect_job_def Let_def)
    then show ?thesis using neutral_suite [OF assms(2-4) 3(3)] by blast
  qed
qed

lemma collect_fold_xml:
  assumes "res_fold (collect_job fs use opts tot) js s = Inr s'"
    and "\<forall>j\<in>set js. plain_text (display_name j) \<and> plain_text (skip_reason j) \<and> suite_file_ok fs j"
  shows "\<exists>x. neutral x \<and> xml_results s' = xml_results s @ x"
  using assms
proof (induction js arbitrary: s)
  case (Cons j js)
  then obtain t where t: "collect_job fs use opts tot j s = Inr t"
    "res_fold (collect_job fs use opts tot) js t = Inr s'"
    by (auto simp: res_simps)
  obtain x where x: "neutral x" "xml_results t = xml_results s @ x"
    using collect_job_xml [OF t(1)] Cons.prems(2) by auto
  obtain y where y: "neutral y" "xml_results s' = xml_results t @ y"
    using Cons.IH [OF t(2)] Cons.prems(2) by auto
  show ?case using neutral_append [OF x(1) y(1)] x(2) y(2)
    by (intro exI [of _ "x @ y"]) simp
qed simp

section \<open>Properties\<close>

text \<open>C31: after the collection loop the five counters are the numbers of received jobs that passed,
  failed, crashed, had valgrind errors or were skipped, they add up to the jobs that are not
  breaks, and the name lists hold the names of exactly those jobs in the order received.\<close>

theorem collect_counts:
  assumes "collect_jobs fs use opts tot js = Inr s"
  shows "passed_tests s = length (tally PASS js) \<and> failed_tests s = length (tally FAIL js)
    \<and> crashed_tests s = length (tally CRASH js) \<and> valgrind_errors s = length (tally VALGR js)
    \<and> skipped_tests s = length (tally SKIP js)
    \<and> passed_tests s + failed_tests s + crashed_tests s + valgrind_errors s + skipped_tests s
        = length (filter (\<lambda>j. \<not> is_break j) js)
    \<and> failed_testnames s = map display_name (tally FAIL js)
    \<and> crashed_testnames s = map display_name (tally CRASH js)
    \<and> valgrind_testnames s = map display_name (tally VALGR js)
    \<and> skipped_testnames s = map skip_label (tally SKIP js)"
  using collect_jobs_counts [OF assms] tally_total [of js]
  by (simp add: counts_from_def start_summary_def)

definition demo_results :: "job list" where
  "demo_results = [(suite_job ''a'')\<lparr>tmp_file_name := ''a.xml''\<rparr>,
     (suite_job ''e'')\<lparr>is_example := True, returncode := 1, elapsed_time := 5 / 4\<rparr>,
     (suite_job ''k'')\<lparr>is_skip := True, skip_reason := ''crashes valgrind''\<rparr>,
     (suite_job ''c'')\<lparr>returncode := 139\<rparr>,
     (suite_job ''v'')\<lparr>returncode := 2, tmp_file_name := ''a.xml''\<rparr>]"

definition demo_files :: files where
  "demo_files = [''a.xml'' \<mapsto> ''<Test>x</Test>'']"

lemmas demo_result_defs = demo_results_def demo_files_def suite_job_def Job_def

lemma demo_collect: "\<exists>s. collect_jobs demo_files False default_options 5 demo_results = Inr s"
proof -
  have "list_all (result_ok demo_files) demo_results"
    by (simp add: demo_result_defs result_ok_def suite_xml_def)
  then obtain s' where "res_fold (collect_job demo_files False default_options 5) demo_results
      start_summary = Inr s'"
    using collect_fold_ok by blast
  then show ?thesis by (auto simp: collect_jobs_def)
qed

theorem collect_counts_witness:
  "\<exists>s. collect_jobs demo_files False default_options 5 demo_results = Inr s \<and> passed_tests s = 1
    \<and> failed_testnames s = [''e''] \<and> crashed_testnames s = [''c''] \<and> valgrind_testnames s = [''v'']
    \<and> skipped_testnames s = [''k (crashes valgrind)'']"
proof -
  obtain s where s: "collect_jobs demo_files False default_options 5 demo_results = Inr s"
    using demo_collect by blast
  have "length (tally PASS demo_results) = 1" "map display_name (tally FAIL demo_results) = [''e'']"
    "map display_name (tally CRASH demo_results) = [''c'']"
    "map display_name (tally VALGR demo_results) = [''v'']"
    "map skip_label (tally SKIP demo_results) = [''k (crashes valgrind)'']"
    by (simp_all add: tally_def demo_result_defs job_status_def skip_label_def)
  with collect_counts [OF s] s show ?thesis by (intro exI [of _ s]) simp
qed

text \<open>the summary that is printed and the exit code do not depend on the order in which the worker
  threads finish: for any reordering of the received jobs the loop succeeds as well, with the
  same summary lines and exit code.\<close>

theorem summary_order_independent:
  assumes "collect_jobs fs use opts tot js = Inr s" "mset ks = mset js"
  shows "\<exists>t. collect_jobs fs use opts tot ks = Inr t
    \<and> summary_lines tot t = summary_lines tot s \<and> exit_status tot t = exit_status tot s"
proof -
  have "list_all (result_ok fs) js"
    using assms(1) collect_fold_ok [of fs use opts tot js start_summary]
    by (auto simp: collect_jobs_def res_simps)
  then have "list_all (result_ok fs) ks"
    using mset_eq_setD [OF assms(2)] by (simp add: list_all_iff)
  then obtain t where t: "collect_jobs fs use opts tot ks = Inr t"
    using collect_fold_ok [of fs use opts tot ks start_summary] by (auto simp: collect_jobs_def)
  note c = collect_jobs_counts [OF assms(1)] collect_jobs_counts [OF t]
  have m: "mset (tally st ks) = mset (tally st js)" for st by (rule tally_mset) (rule assms(2))
  have l: "length (tally st ks) = length (tally st js)" for st using m by (rule mset_eq_length)
  have n: "names_block ti (map f (tally st ks)) = names_block ti (map f (tally st js))"
    for ti f st by (rule names_block_mset) (simp add: m)
  show ?thesis using t c
    by (intro exI [of _ t]) (simp add: counts_from_def start_summary_def summary_lines_def
        exit_status_def l n)
qed

theorem summary_order_independent_witness:
  "\<exists>s t. collect_jobs demo_files False default_options 5 demo_results = Inr s
    \<and> collect_jobs demo_files False default_options 5 (rev demo_results) = Inr t
    \<and> summary_lines 5 t = summary_lines 5 s \<and> exit_status 5 t = 1"
proof -
  obtain s where s: "collect_jobs demo_files False default_options 5 demo_results = Inr s"
    using demo_collect by blast
  have "exit_status 5 s = 1" using collect_jobs_counts [OF s]
    by (simp add: counts_from_def start_summary_def exit_status_def tally_def demo_result_defs
        job_status_def)
  then show ?thesis using summary_order_independent [OF s, of "rev demo_results"] s by auto
qed

text \<open>when test names, skip reasons and the result files of the suites are well formed, the file
  \<^verbatim>\<open>results.xml\<close> is well nested, whatever the jobs and their results were.\<close>

theorem results_xml_well_nested:
  assumes "collect_jobs fs use opts tot js = Inr s"
    and "\<forall>j\<in>set js. plain_text (display_name j) \<and> plain_text (skip_reason j) \<and> suite_file_ok fs j"
  shows "well_nested (xml_results s)"
proof -
  obtain s' where s': "res_fold (collect_job fs use opts tot) js start_summary = Inr s'"
    "xml_results s = xml_results s' @ ''</Results>'' @ newline"
    using assms(1) by (auto simp: collect_jobs_def res_simps)
  obtain x where x: "neutral x" "xml_results s' = xml_results start_summary @ x"
    using collect_fold_xml [OF s'(1) assms(2)] by blast
  have h: "markup_run (''<?xml version=\"1.0\"?>'' @ newline) (at_text []) = at_text []"
    by (simp add: markup_run_def markup_char_def at_text_def tag_effect_def newline_def)
  have e: "xml_results s = (''<?xml version=\"1.0\"?>'' @ newline)
      @ (''<'' @ ''Results'' @ ''>'' @ newline @ x @ ''</'' @ ''Results'' @ ''>'' @ newline)"
    using s'(2) x(2) by (simp add: start_summary_def)
  have "neutral (''<'' @ ''Results'' @ ''>'' @ newline @ x @ ''</'' @ ''Results'' @ ''>'' @ newline)"
    by (rule neutral_block [OF tag_names(6) x(1)])
  then show ?thesis unfolding well_nested_def e markup_run_append [of "_ @ newline"] h neutral_def by blast
qed

theorem results_xml_well_nested_witness:
  "\<exists>s. collect_jobs demo_files False default_options 5 demo_results = Inr s
    \<and> well_nested (xml_results s)"
proof -
  obtain s where s: "collect_jobs demo_files False default_options 5 demo_results = Inr s"
    using demo_collect by blast
  have "neutral (element ''Test'' ''x'')"
    by (rule neutral_element [OF tag_names(4) neutral_plain]) simp
  then have "suite_file_ok demo_files j" for j
    by (auto simp: suite_file_ok_def demo_files_def element_def)
  then have "\<forall>j\<in>set demo_results. plain_text (display_name j) \<and> plain_text (skip_reason j)
      \<and> suite_file_ok demo_files j"
    by (simp add: demo_results_def suite_job_def Job_def)
  from results_xml_well_nested [OF s this] s show ?thesis by blast
qed

end
