(* ===== verification/Test_Report.thy ===== *)
theory Test_Report
  imports Markup
begin

text \<open>
  \<^verbatim>\<open>test.py\<close>, part 5: \<^verbatim>\<open>translate_to_text\<close> and \<^verbatim>\<open>translate_to_html\<close>, which render the parsed
  file \<^verbatim>\<open>results.xml\<close>. The element tree of \<^verbatim>\<open>xml.etree\<close> is a datatype: \<^verbatim>\<open>find\<close> and
  \<^verbatim>\<open>findall\<close> look at the direct children, the \<^verbatim>\<open>text\<close> of an empty element is \<^verbatim>\<open>None\<close>, and
  \<^verbatim>\<open>"%s" % None\<close> is \<^verbatim>\<open>None\<close>. A report is the text written to the file.
\<close>

section \<open>The element tree\<close>

datatype xml = Element (tag: string) (attrs: "(string \<times> string) list") (xml_text: "string option")
  (children: "xml list")

definition findall :: "string \<Rightarrow> xml \<Rightarrow> xml list" where
  "findall name e = filter (\<lambda>c. tag c = name) (children e)"

text \<open>\<^verbatim>\<open>find\<close> returns \<^verbatim>\<open>None\<close> when there is no such child; \<^verbatim>\<open>find_text\<close> is \<^verbatim>\<open>find(name).text\<close>,
  which then raises \<^verbatim>\<open>AttributeError\<close>.\<close>

definition find_child :: "string \<Rightarrow> xml \<Rightarrow> xml option" where
  "find_child name e = List.find (\<lambda>c. tag c = name) (children e)"

definition find_text :: "string \<Rightarrow> xml \<Rightarrow> string option res" where
  "find_text name e =
     (case find_child name e of None \<Rightarrow> Inl AttributeError | Some c \<Rightarrow> Inr (xml_text c))"

definition show_text :: "string option \<Rightarrow> string" where
  "show_text t = (case t of None \<Rightarrow> ''None'' | Some s \<Rightarrow> s)"

section \<open>Reading a test element\<close>

record test_info =
  result :: "string option"
  test_name :: "string option"
  reason :: "string option"
  time_real :: "string option"

definition read_test :: "xml \<Rightarrow> test_info res" where
  "read_test test =
     res_bind (find_text ''Result'' test) (\<lambda>res.
     res_bind (find_text ''Name'' test) (\<lambda>name.
       Inr \<lparr>result = res, test_name = name,
            reason = (case find_child ''Reason'' test of None \<Rightarrow> Some '''' | Some r \<Rightarrow> xml_text r),
            time_real = (case find_child ''Time'' test of
                           None \<Rightarrow> Some '''' | Some t \<Rightarrow> map_of (attrs t) ''real'')\<rparr>))"

section \<open>The text report\<close>

definition details_text :: "xml \<Rightarrow> string res" where
  "details_text details =
     res_bind (find_text ''Message'' details) (\<lambda>msg.
     res_bind (find_text ''Condition'' details) (\<lambda>cond.
     res_bind (find_text ''Actual'' details) (\<lambda>actual.
     res_bind (find_text ''Limit'' details) (\<lambda>limit.
     res_bind (find_text ''File'' details) (\<lambda>file.
     res_bind (find_text ''Line'' details) (\<lambda>line.
       Inr (''    Details:'' @ newline
         @ ''      Message:   '' @ show_text msg @ newline
         @ ''      Condition: '' @ show_text cond @ newline
         @ ''      Actual:    '' @ show_text actual @ newline
         @ ''      Limit:     '' @ show_text limit @ newline
         @ ''      File:      '' @ show_text file @ newline
         @ ''      Line:      '' @ show_text line @ newline)))))))"

definition res_append :: "string res \<Rightarrow> string res \<Rightarrow> string res" where
  "res_append a b = res_bind a (\<lambda>x. res_bind b (\<lambda>y. Inr (x @ y)))"

fun res_concat :: "string res list \<Rightarrow> string res" where
  "res_concat [] = Inr ''''"
| "res_concat (r # rs) = res_append r (res_concat rs)"

definition test_line :: "string \<Rightarrow> test_info \<Rightarrow> string" where
  "test_line test_type i =
     show_text (result i) @ '': Test '' @ test_type @ '' \"'' @ show_text (test_name i) @ ''\" (''
       @ show_text (time_real i) @ '')''
       @ (case reason i of None \<Rightarrow> ''None'' | Some r \<Rightarrow> if r = '''' then '''' else '' ('' @ r @ '')'')
       @ newline"

text \<open>\<^verbatim>\<open>node_to_text\<close> recurses into the nested tests, which are cases.\<close>

function (sequential) node_to_text :: "xml \<Rightarrow> string \<Rightarrow> string res" where
  "node_to_text (Element t a x cs) test_type =
     res_bind (read_test (Element t a x cs)) (\<lambda>i.
       res_append (Inr (test_line test_type i))
         (res_append (res_concat (map details_text (findall ''FailureDetails'' (Element t a x cs))))
           (res_concat (map (\<lambda>c. node_to_text c ''Case'')
             (filter (\<lambda>c. tag c = ''Test'') cs)))))"
  by pat_completeness auto
termination
  by (relation "measure (\<lambda>(e, t). size e)") (auto simp: less_Suc_eq_le size_list_estimation' dest!: size_list_estimation' [where f = size, OF _ order_refl])

declare node_to_text.simps [simp del]

definition example_line :: "xml \<Rightarrow> string res" where
  "example_line example =
     res_bind (find_text ''Result'' example) (\<lambda>res.
     res_bind (find_text ''Name'' example) (\<lambda>name.
       Inr (show_text res @ '': Example \"'' @ show_text name @ ''\" (''
         @ show_text (case find_child ''Time'' example of
                        None \<Rightarrow> Some '''' | Some t \<Rightarrow> map_of (attrs t) ''real'')
         @ '')'' @ newline)))"

definition translate_to_text :: "xml \<Rightarrow> string res" where
  "translate_to_text et =
     res_append (res_concat (map (\<lambda>t. node_to_text t ''Suite'') (findall ''Test'' et)))
       (res_concat (map example_line (findall ''Example'' et)))"

section \<open>The HTML report\<close>

text \<open>A line of HTML with one element, as most of the calls of \<^verbatim>\<open>f.write\<close> produce it.\<close>

definition html_line :: "string \<Rightarrow> string \<Rightarrow> string \<Rightarrow> string" where
  "html_line name attributes body =
     ''<'' @ name @ attributes @ ''>'' @ body @ ''</'' @ name @ ''>'' @ newline"

definition GREEN :: string where "GREEN = '' style=\"color:green\"''"
definition ORANGE :: string where "ORANGE = '' style=\"color:#ff6600\"''"
definition RED :: string where "RED = '' style=\"color:red\"''"

definition suite_header :: "test_info \<Rightarrow> string" where
  "suite_header i =
     (let head = show_text (result i) @ '': '' @ show_text (test_name i) @ '' (''
            @ show_text (time_real i) @ '')''
      in if result i = Some ''PASS'' then html_line ''h3'' GREEN head
         else if result i = Some ''SKIP''
         then html_line ''h3'' ORANGE (head @ '' ('' @ show_text (reason i) @ '')'')
         else html_line ''h3'' RED head)"

definition no_details :: "string option \<Rightarrow> bool" where
  "no_details r = (r \<in> {Some ''CRASH'', Some ''SKIP'', Some ''VALGR''})"

definition crash_row :: "test_info \<Rightarrow> string" where
  "crash_row i =
     ''<tr>'' @ newline
     @ html_line ''td'' (if result i = Some ''SKIP'' then ORANGE else RED) (show_text (result i))
     @ ''</tr>'' @ newline"

text \<open>A row for one failure: its cell and its row are both ended with \<^verbatim>\<open></td>\<close>.\<close>

definition failure_row :: "test_info \<Rightarrow> bool \<Rightarrow> xml \<Rightarrow> string res" where
  "failure_row i first_row details =
     res_bind (find_text ''Message'' details) (\<lambda>msg.
     res_bind (find_text ''Condition'' details) (\<lambda>cond.
     res_bind (find_text ''Actual'' details) (\<lambda>actual.
     res_bind (find_text ''Limit'' details) (\<lambda>limit.
     res_bind (find_text ''File'' details) (\<lambda>file.
     res_bind (find_text ''Line'' details) (\<lambda>line.
       Inr (''<tr>'' @ newline
         @ (if first_row
            then html_line ''td'' RED (show_text (result i)) @ html_line ''td'' '''' (show_text (test_name i))
              @ html_line ''td'' '''' (show_text (time_real i))
            else html_line ''td'' '''' '''' @ html_line ''td'' '''' '''' @ html_line ''td'' '''' '''')
         @ ''<td>'' @ ''<b>Message: </b>'' @ show_text msg @ '', ''
         @ ''<b>Condition: </b>'' @ show_text cond @ '', '' @ ''<b>Actual: </b>'' @ show_text actual @ '', ''
         @ ''<b>Limit: </b>'' @ show_text limit @ '', '' @ ''<b>File: </b>'' @ show_text file @ '', ''
         @ ''<b>Line: </b>'' @ show_text line @ ''</td>'' @ newline @ ''</td>'' @ newline)))))))"

fun failure_rows :: "test_info \<Rightarrow> bool \<Rightarrow> xml list \<Rightarrow> string res" where
  "failure_rows i first_row [] = Inr ''''"
| "failure_rows i first_row (d # ds) =
     res_append (failure_row i first_row d) (failure_rows i False ds)"

definition case_html :: "xml \<Rightarrow> string res" where
  "case_html test_case =
     res_bind (read_test test_case) (\<lambda>i.
       if result i = Some ''FAIL''
       then failure_rows i True (findall ''FailureDetails'' test_case)
       else Inr (''<tr>'' @ newline @ html_line ''td'' GREEN (show_text (result i))
              @ html_line ''td'' '''' (show_text (test_name i))
              @ html_line ''td'' '''' (show_text (time_real i))
              @ html_line ''td'' '''' (show_text (reason i)) @ ''</tr>'' @ newline))"

definition suite_html :: "xml \<Rightarrow> string res" where
  "suite_html suite =
     res_bind (read_test suite) (\<lambda>i.
       res_append (Inr (suite_header i @ ''<table border=\"1\">'' @ newline
           @ html_line ''th'' '''' '' Result ''))
         (if no_details (result i) then Inr (crash_row i @ ''</table>'' @ newline)
          else res_append (Inr (html_line ''th'' '''' ''Test Case Name'' @ html_line ''th'' '''' '' Time ''
                   @ (if result i = Some ''FAIL'' then html_line ''th'' '''' ''Failure Details'' else '''')))
                 (res_append (res_concat (map case_html (findall ''Test'' suite)))
                   (Inr (''</table>'' @ newline)))))"

text \<open>A row of the examples table: the cell of a skipped example is ended with \<^verbatim>\<open></fd>\<close>.\<close>

definition example_html :: "xml \<Rightarrow> string res" where
  "example_html example =
     res_bind (read_test example) (\<lambda>i.
       Inr (''<tr>'' @ newline
         @ (if result i = Some ''PASS'' then html_line ''td'' GREEN (show_text (result i))
            else if result i = Some ''SKIP''
            then ''<td style=\"color:#ff6600\">'' @ show_text (result i) @ ''</fd>'' @ newline
            else html_line ''td'' RED (show_text (result i)))
         @ html_line ''td'' '''' (show_text (test_name i)) @ html_line ''td'' '''' (show_text (time_real i))
         @ html_line ''td'' '''' (show_text (reason i)) @ ''</tr>'' @ newline))"

definition html_prologue :: string where
  "html_prologue = ''<html>'' @ newline @ ''<body>'' @ newline
     @ ''<center><h1>ns-3 Test Results</h1></center>'' @ newline @ html_line ''h2'' '''' ''Test Suites''"

definition html_examples_head :: string where
  "html_examples_head = html_line ''h2'' '''' ''Examples'' @ ''<table border=\"1\">'' @ newline
     @ html_line ''th'' '''' '' Result '' @ html_line ''th'' '''' ''Example Name''
     @ html_line ''th'' '''' ''Elapsed Time'' @ html_line ''th'' '''' ''Details''"

definition html_epilogue :: string where
  "html_epilogue = ''</table>'' @ newline @ ''</body>'' @ newline @ ''</html>'' @ newline"

definition translate_to_html :: "xml \<Rightarrow> string res" where
  "translate_to_html et =
     res_append (Inr html_prologue)
       (res_append (res_concat (map suite_html (findall ''Test'' et)))
         (res_append (Inr html_examples_head)
           (res_append (res_concat (map example_html (findall ''Example'' et)))
             (Inr html_epilogue))))"

section \<open>Success of the reports\<close>

text \<open>An element from which \<^verbatim>\<open>read_test\<close> can read, and failure details with all their parts.\<close>

definition readable :: "xml \<Rightarrow> bool" where
  "readable e \<longleftrightarrow> find_child ''Result'' e \<noteq> None \<and> find_child ''Name'' e \<noteq> None"

definition full_details :: "xml \<Rightarrow> bool" where
  "full_details d \<longleftrightarrow>
     list_all (\<lambda>n. find_child n d \<noteq> None)
       [''Message'', ''Condition'', ''Actual'', ''Limit'', ''File'', ''Line'']"

lemma read_test_ok: "(\<exists>i. read_test e = Inr i) \<longleftrightarrow> readable e"
  by (auto simp: read_test_def readable_def find_text_def res_simps split: option.splits)

lemma details_text_ok: "(\<exists>x. details_text d = Inr x) \<longleftrightarrow> full_details d"
  by (auto simp: details_text_def full_details_def find_text_def res_bind_def split: option.splits)

lemma res_append_ok: "(\<exists>x. res_append a b = Inr x) \<longleftrightarrow> (\<exists>x. a = Inr x) \<and> (\<exists>y. b = Inr y)"
  by (auto simp: res_append_def res_simps)

lemma res_concat_ok: "(\<exists>x. res_concat rs = Inr x) \<longleftrightarrow> (\<forall>r\<in>set rs. \<exists>x. r = Inr x)"
  by (induction rs) (auto simp: res_append_ok)

fun text_readable :: "xml \<Rightarrow> bool" where
  "text_readable (Element t a x cs) =
     (readable (Element t a x cs)
      \<and> list_all full_details (filter (\<lambda>c. tag c = ''FailureDetails'') cs)
      \<and> list_all (\<lambda>c. tag c = ''Test'' \<longrightarrow> text_readable c) cs)"

lemma node_to_text_ok: "(\<exists>x. node_to_text e ty = Inr x) \<longleftrightarrow> text_readable e"
proof (induction e ty rule: node_to_text.induct)
  case (1 t a x cs ty)
  let ?e = "Element t a x cs"
  show ?case
  proof (cases "readable ?e")
    case True
    then obtain i where i: "read_test ?e = Inr i" using read_test_ok by blast
    show ?thesis using True 1
      by (subst node_to_text.simps)
        (simp add: i res_append_ok res_concat_ok details_text_ok findall_def list_all_iff, blast)
  next
    case False
    then have "\<nexists>i. read_test ?e = Inr i" using read_test_ok by blast
    then show ?thesis using False
      by (subst node_to_text.simps) (auto simp: res_bind_def split: sum.splits)
  qed
qed

section \<open>Nesting of the HTML report\<close>

definition plain_info :: "test_info \<Rightarrow> bool" where
  "plain_info i \<longleftrightarrow> plain_text (show_text (result i)) \<and> plain_text (show_text (test_name i))
     \<and> plain_text (show_text (reason i)) \<and> plain_text (show_text (time_real i))"

definition plain_element :: "xml \<Rightarrow> bool" where
  "plain_element e \<longleftrightarrow> (case read_test e of Inl _ \<Rightarrow> True | Inr i \<Rightarrow> plain_info i)"

definition failed_with_details :: "xml \<Rightarrow> bool" where
  "failed_with_details e \<longleftrightarrow>
     (case read_test e of Inl _ \<Rightarrow> False
      | Inr i \<Rightarrow> result i = Some ''FAIL'' \<and> findall ''FailureDetails'' e \<noteq> [])"

definition skipped_element :: "xml \<Rightarrow> bool" where
  "skipped_element e \<longleftrightarrow>
     (case read_test e of Inl _ \<Rightarrow> False | Inr i \<Rightarrow> result i = Some ''SKIP'')"

definition clean_suite :: "xml \<Rightarrow> bool" where
  "clean_suite e \<longleftrightarrow> plain_element e
     \<and> list_all (\<lambda>c. plain_element c \<and> \<not> failed_with_details c) (findall ''Test'' e)"

lemma html_tags: "tag_name ''td''" "tag_name ''tr''" "tag_name ''th''" "tag_name ''h3''" "tag_name ''h2''"
  "tag_name ''table''"
  by (simp_all add: tag_name_def)

lemma neutral_html_line:
  assumes "tag_name n" "plain_text body" "attributes \<in> {'''', GREEN, ORANGE, RED}"
  shows "neutral (html_line n attributes body)"
proof -
  have "opens (''<'' @ n @ attributes @ ''>'') [n]"
    by (rule run_open [OF assms(1)]) (use assms(3) in \<open>auto simp: GREEN_def ORANGE_def RED_def\<close>)
  from neutral_append [OF neutral_wrap [OF this neutral_plain [OF assms(2)] run_close [OF assms(1)]]
      neutral_newline]
  show ?thesis by (simp add: html_line_def)
qed

lemma neutral_row: "neutral t \<Longrightarrow> neutral (''<tr>'' @ newline @ t @ ''</tr>'' @ newline)"
  using neutral_block [OF html_tags(2), of t] by simp

lemmas neutral_lines = neutral_append neutral_html_line html_tags

lemma neutral_table:
  assumes "neutral t"
  shows "neutral (''<table border=\"1\">'' @ newline @ t @ ''</table>'' @ newline)"
proof -
  have "opens (''<'' @ ''table'' @ '' border=\"1\"'' @ ''>'') [''table'']"
    by (rule run_open [OF html_tags(6)]) auto
  from neutral_append [OF neutral_wrap [OF this neutral_append [OF neutral_newline assms]
      run_close [OF html_tags(6)]] neutral_newline]
  show ?thesis by simp
qed

lemma suite_header_neutral: "plain_info i \<Longrightarrow> neutral (suite_header i)"
  by (auto simp: suite_header_def Let_def plain_info_def intro!: neutral_html_line html_tags)

lemma case_html_neutral:
  assumes "case_html c = Inr s" "plain_element c" "\<not> failed_with_details c"
  shows "neutral s"
proof -
  obtain i where i: "read_test c = Inr i" using assms(1) by (auto simp: case_html_def res_simps)
  then have p: "plain_info i" using assms(2) by (simp add: plain_element_def)
  show ?thesis
  proof (cases "result i = Some ''FAIL''")
    case True
    then show ?thesis using assms i by (simp add: case_html_def failed_with_details_def)
  next
    case False
    then have "s = ''<tr>'' @ newline @ (html_line ''td'' GREEN (show_text (result i))
        @ html_line ''td'' '''' (show_text (test_name i)) @ html_line ''td'' '''' (show_text (time_real i))
        @ html_line ''td'' '''' (show_text (reason i))) @ ''</tr>'' @ newline"
      using assms(1) i by (simp add: case_html_def)
    moreover have "neutral (html_line ''td'' GREEN (show_text (result i))
        @ html_line ''td'' '''' (show_text (test_name i)) @ html_line ''td'' '''' (show_text (time_real i))
        @ html_line ''td'' '''' (show_text (reason i)))"
      using p by (intro neutral_lines) (simp_all add: plain_info_def)
    ultimately show ?thesis by (metis neutral_row)
  qed
qed

lemma res_concat_neutral:
  assumes "res_concat (map f xs) = Inr s" "\<And>x y. x \<in> set xs \<Longrightarrow> f x = Inr y \<Longrightarrow> neutral y"
  shows "neutral s"
  using assms
proof (induction xs arbitrary: s)
  case (Cons x xs)
  then obtain a b where ab: "f x = Inr a" "res_concat (map f xs) = Inr b" "s = a @ b"
    by (auto simp: res_append_def res_simps)
  show ?case unfolding ab(3)
    by (rule neutral_append) (use ab Cons in \<open>auto\<close>)
qed simp

lemma suite_html_neutral:
  assumes "suite_html e = Inr s" "clean_suite e"
  shows "neutral s"
proof -
  obtain i where i: "read_test e = Inr i" using assms(1) by (auto simp: suite_html_def res_simps)
  then have p: "plain_info i" using assms(2) by (simp add: clean_suite_def plain_element_def)
  have th: "neutral (html_line ''th'' '''' '' Result '')" by (intro neutral_html_line html_tags) simp_all
  note h = suite_header_neutral [OF p]
  show ?thesis
  proof (cases "no_details (result i)")
    case True
    then have s: "s = suite_header i @ ''<table border=\"1\">'' @ newline
        @ (html_line ''th'' '''' '' Result '' @ crash_row i) @ ''</table>'' @ newline"
      using assms(1) i by (simp add: suite_html_def res_append_def)
    have "neutral (crash_row i)" unfolding crash_row_def
      using p by (intro neutral_row neutral_html_line html_tags) (simp_all add: plain_info_def)
    then show ?thesis unfolding s by (intro neutral_append [OF h] neutral_table neutral_append [OF th])
  next
    case False
    define more where "more = html_line ''th'' '''' ''Test Case Name'' @ html_line ''th'' '''' '' Time ''
        @ (if result i = Some ''FAIL'' then html_line ''th'' '''' ''Failure Details'' else '''')"
    obtain cs where cs: "res_concat (map case_html (findall ''Test'' e)) = Inr cs"
      and s: "s = suite_header i @ ''<table border=\"1\">'' @ newline
        @ (html_line ''th'' '''' '' Result '' @ more @ cs) @ ''</table>'' @ newline"
      using assms(1) i False by (auto simp: suite_html_def res_append_def res_simps more_def)
    have "neutral more" unfolding more_def
      by (cases "result i = Some ''FAIL''") (simp_all add: neutral_lines)
    moreover have "neutral cs" using cs
      by (rule res_concat_neutral)
        (use assms(2) in \<open>auto simp: clean_suite_def list_all_iff intro: case_html_neutral\<close>)
    ultimately show ?thesis unfolding s
      by (intro neutral_append [OF h] neutral_table neutral_append [OF th] neutral_append)
  qed
qed

lemma example_html_neutral:
  assumes "example_html e = Inr s" "plain_element e" "\<not> skipped_element e"
  shows "neutral s"
proof -
  obtain i where i: "read_test e = Inr i" using assms(1) by (auto simp: example_html_def res_simps)
  then have p: "plain_info i" "result i \<noteq> Some ''SKIP''"
    using assms(2,3) by (auto simp: plain_element_def skipped_element_def)
  have s: "s = ''<tr>'' @ newline
      @ (html_line ''td'' (if result i = Some ''PASS'' then GREEN else RED) (show_text (result i))
         @ html_line ''td'' '''' (show_text (test_name i)) @ html_line ''td'' '''' (show_text (time_real i))
         @ html_line ''td'' '''' (show_text (reason i))) @ ''</tr>'' @ newline"
    using assms(1) i p(2) by (auto simp: example_html_def)
  show ?thesis unfolding s
    using p(1) by (intro neutral_row neutral_lines) (simp_all add: plain_info_def)
qed

lemma skipped_example_breaks:
  assumes "example_html e = Inr s" "skipped_element e"
  shows "\<not> nested (markup_run s (at_text st))"
proof -
  obtain i where i: "read_test e = Inr i" "result i = Some ''SKIP''"
    using assms by (auto simp: example_html_def skipped_element_def res_simps split: sum.splits)
  obtain t where t: "s = (''<tr>'' @ newline @ ''<td style=\"color:#ff6600\">SKIP</fd>'') @ t"
    using assms(1) i by (auto simp: example_html_def show_text_def)
  have "\<not> nested (markup_run (''<tr>'' @ newline @ ''<td style=\"color:#ff6600\">SKIP</fd>'') (at_text st))"
    by (simp add: markup_run_def markup_char_def tag_effect_def at_text_def newline_def)
  then show ?thesis unfolding t markup_run_append [of _ t] by (rule nested_run)
qed

lemma res_concat_split:
  assumes "res_concat (map f (xs @ y # ys)) = Inr s"
  obtains a b c where "res_concat (map f xs) = Inr a" "f y = Inr b" "s = a @ b @ c"
  using assms
proof (induction xs arbitrary: s thesis)
  case Nil
  then show ?case by (auto simp: res_append_def res_simps)
next
  case (Cons x xs)
  obtain a s' where a: "f x = Inr a" "res_concat (map f (xs @ y # ys)) = Inr s'" "s = a @ s'"
    using Cons.prems(2) by (auto simp: res_append_def res_simps)
  obtain p q r where "res_concat (map f xs) = Inr p" "f y = Inr q" "s' = p @ q @ r"
    using Cons.IH [OF _ a(2)] by metis
  then show ?case using Cons.prems(1) [of "a @ p" q r] a by (simp add: res_append_def)
qed

lemma html_prologue_opens: "opens html_prologue [''body'', ''html'']"
  by (simp add: html_prologue_def html_line_def newline_def opens_def markup_run_def markup_char_def
      tag_effect_def at_text_def)

lemma html_head_opens: "opens html_examples_head [''table'']"
  by (simp add: html_examples_head_def html_line_def newline_def opens_def markup_run_def
      markup_char_def tag_effect_def at_text_def)

lemma html_epilogue_closes: "closes html_epilogue [''table'', ''body'', ''html'']"
  by (simp add: html_epilogue_def newline_def closes_def markup_run_def markup_char_def
      tag_effect_def at_text_def)

lemma html_frame:
  assumes "neutral suites"
  shows "opens (html_prologue @ suites @ html_examples_head) [''table'', ''body'', ''html'']"
  using opens_append [OF opens_neutral [OF html_prologue_opens assms] html_head_opens] by simp

lemma translate_to_html_parts:
  assumes "translate_to_html et = Inr html"
  obtains ss es where "res_concat (map suite_html (findall ''Test'' et)) = Inr ss"
    "res_concat (map example_html (findall ''Example'' et)) = Inr es"
    "html = (html_prologue @ ss @ html_examples_head) @ es @ html_epilogue"
  using assms by (auto simp: translate_to_html_def res_append_def res_simps)

lemma find_plain: "find_text n d = Inr t \<Longrightarrow> list_all (\<lambda>c. plain_text (show_text (xml_text c))) (children d)
    \<Longrightarrow> plain_text (show_text t)"
  by (auto simp: find_text_def find_child_def find_Some_iff list_all_length split: option.splits)

section \<open>Properties\<close>

text \<open>the text report is written completely exactly when every test and nested test has a result and
  a name, all failure details are complete, and every example has a result and a name; otherwise
  \<^verbatim>\<open>AttributeError\<close> stops it.\<close>

theorem translate_to_text_total:
  "(\<exists>s. translate_to_text et = Inr s) \<longleftrightarrow>
     list_all text_readable (findall ''Test'' et) \<and> list_all readable (findall ''Example'' et)"
proof -
  have "(\<exists>x. example_line e = Inr x) \<longleftrightarrow> readable e" for e
    by (auto simp: example_line_def readable_def find_text_def res_bind_def split: option.splits)
  then show ?thesis
    by (simp add: translate_to_text_def res_append_ok res_concat_ok node_to_text_ok list_all_iff)
qed

text \<open>when no test case has failure details and all texts are free of markup, the HTML report is well
  nested if and only if no example was skipped: the cell of a skipped example is closed with
  the wrong tag.\<close>

theorem html_report_nested:
  assumes "translate_to_html et = Inr html"
    and "list_all clean_suite (findall ''Test'' et)"
    and "list_all plain_element (findall ''Example'' et)"
  shows "well_nested html \<longleftrightarrow> list_all (\<lambda>e. \<not> skipped_element e) (findall ''Example'' et)"
proof -
  obtain ss es where ss: "res_concat (map suite_html (findall ''Test'' et)) = Inr ss"
    and es: "res_concat (map example_html (findall ''Example'' et)) = Inr es"
    and html: "html = (html_prologue @ ss @ html_examples_head) @ es @ html_epilogue"
    using assms(1) by (rule translate_to_html_parts)
  have "neutral ss" using ss
    by (rule res_concat_neutral) (use assms(2) in \<open>auto simp: list_all_iff intro: suite_html_neutral\<close>)
  note frame = html_frame [OF this]
  show ?thesis
  proof (cases "list_all (\<lambda>e. \<not> skipped_element e) (findall ''Example'' et)")
    case True
    have "neutral es" using es
      by (rule res_concat_neutral)
        (use True assms(3) in \<open>auto simp: list_all_iff intro: example_html_neutral\<close>)
    then have "neutral html" unfolding html by (rule neutral_wrap [OF frame _ html_epilogue_closes])
    then show ?thesis using True neutral_well_nested by blast
  next
    case False
    then obtain e where "e \<in> set (findall ''Example'' et)" "skipped_element e"
      by (auto simp: list_all_iff)
    then obtain xs y ys where split: "findall ''Example'' et = xs @ y # ys" "skipped_element y"
      "\<forall>x\<in>set xs. \<not> skipped_element x"
      using split_list_first_prop [of "findall ''Example'' et" skipped_element] by blast
    obtain a b c where abc: "res_concat (map example_html xs) = Inr a" "example_html y = Inr b"
      "es = a @ b @ c"
      using es unfolding split(1) by (rule res_concat_split)
    have "neutral a" using abc(1)
      by (rule res_concat_neutral)
        (use assms(3) split in \<open>auto simp: list_all_iff intro: example_html_neutral\<close>)
    then have "opens ((html_prologue @ ss @ html_examples_head) @ a) [''table'', ''body'', ''html'']"
      by (rule opens_neutral [OF frame])
    then have "\<not> nested (markup_run (((html_prologue @ ss @ html_examples_head) @ a) @ b) (at_text []))"
      unfolding markup_run_append [of _ b] opens_def
      using skipped_example_breaks [OF abc(2) split(2)] by simp
    then have "\<not> nested (markup_run html (at_text []))"
      unfolding html abc(3) using nested_run [of _ "c @ html_epilogue"]
      by (simp add: markup_run_append)
    then show ?thesis using False by (auto simp: well_nested_def at_text_def)
  qed
qed

definition demo_leaf :: "string \<Rightarrow> string \<Rightarrow> xml" where
  "demo_leaf t s = Element t [] (Some s) []"

definition demo_tree :: "string \<Rightarrow> xml" where
  "demo_tree r = Element ''Results'' [] None
     [Element ''Test'' [] None [demo_leaf ''Name'' ''s'', demo_leaf ''Result'' ''PASS'',
        Element ''Test'' [] None [demo_leaf ''Name'' ''c'', demo_leaf ''Result'' ''PASS'']],
      Element ''Example'' [] None [demo_leaf ''Name'' ''e'', demo_leaf ''Result'' r,
        Element ''Time'' [(''real'', ''0.100'')] None []]]"

lemma demo_tree_html: "\<exists>html. translate_to_html (demo_tree r) = Inr html"
  by (simp add: translate_to_html_def res_append_ok res_concat_ok findall_def demo_tree_def demo_leaf_def
      suite_html_def case_html_def example_html_def read_test_def find_text_def find_child_def
      res_append_def no_details_def)

lemma demo_tree_clean:
  "list_all clean_suite (findall ''Test'' (demo_tree r))"
  "plain_text r \<Longrightarrow> list_all plain_element (findall ''Example'' (demo_tree r))"
  "list_all (\<lambda>e. \<not> skipped_element e) (findall ''Example'' (demo_tree r)) \<longleftrightarrow> r \<noteq> ''SKIP''"
  by (simp_all add: findall_def demo_tree_def demo_leaf_def clean_suite_def plain_element_def
      failed_with_details_def skipped_element_def read_test_def find_text_def find_child_def plain_info_def
      show_text_def)

theorem html_report_nested_witness:
  "\<exists>h1 h2. translate_to_html (demo_tree ''PASS'') = Inr h1 \<and> well_nested h1
    \<and> translate_to_html (demo_tree ''SKIP'') = Inr h2 \<and> \<not> well_nested h2"
proof -
  obtain h1 h2 where h: "translate_to_html (demo_tree ''PASS'') = Inr h1"
    "translate_to_html (demo_tree ''SKIP'') = Inr h2"
    using demo_tree_html by metis
  from html_report_nested [OF h(1) demo_tree_clean(1) demo_tree_clean(2)]
    html_report_nested [OF h(2) demo_tree_clean(1) demo_tree_clean(2)] h
  show ?thesis by (simp add: demo_tree_clean(3))
qed

text \<open>The row for a failure of a test case is never well nested: its cell is closed twice and the row
  itself is not closed.\<close>

theorem failure_row_not_nested:
  assumes "failure_row i first_row d = Inr s" "plain_info i"
    and "list_all (\<lambda>c. plain_text (show_text (xml_text c))) (children d)"
  shows "\<not> nested (markup_run s (at_text st))"
proof -
  obtain t1 t2 t3 t4 t5 t6 where t: "find_text ''Message'' d = Inr t1" "find_text ''Condition'' d = Inr t2"
    "find_text ''Actual'' d = Inr t3" "find_text ''Limit'' d = Inr t4" "find_text ''File'' d = Inr t5"
    "find_text ''Line'' d = Inr t6"
    using assms(1) unfolding failure_row_def res_simps by blast
  note p = t [THEN find_plain, OF assms(3)]
  define cells where "cells = (if first_row
    then html_line ''td'' RED (show_text (result i)) @ html_line ''td'' '''' (show_text (test_name i))
      @ html_line ''td'' '''' (show_text (time_real i))
    else html_line ''td'' '''' '''' @ html_line ''td'' '''' '''' @ html_line ''td'' '''' '''')"
  define details where "details = element ''b'' ''Message: '' @ show_text t1 @ '', ''
    @ element ''b'' ''Condition: '' @ show_text t2 @ '', '' @ element ''b'' ''Actual: '' @ show_text t3 @ '', ''
    @ element ''b'' ''Limit: '' @ show_text t4 @ '', '' @ element ''b'' ''File: '' @ show_text t5 @ '', ''
    @ element ''b'' ''Line: '' @ show_text t6"
  have s: "s = (''<'' @ ''tr'' @ '''' @ ''>'') @ ((newline @ cells @ element ''td'' details @ newline)
      @ (''</td>'' @ newline))"
    using assms(1) t unfolding failure_row_def cells_def details_def element_def by auto
  have "neutral cells" unfolding cells_def
    using assms(2) by (auto simp: plain_info_def intro!: neutral_lines)
  moreover have "neutral details" unfolding details_def
    by (intro neutral_append neutral_element neutral_plain p) (simp_all add: tag_name_def)
  ultimately have n: "neutral (newline @ cells @ element ''td'' details @ newline)"
    by (intro neutral_append neutral_newline neutral_element html_tags)
  have o: "opens (''<'' @ ''tr'' @ '''' @ ''>'') [''tr'']" by (rule run_open [OF html_tags(2)]) auto
  have "\<not> nested (markup_run (''</td>'' @ newline) (at_text (''tr'' # st)))"
    by (simp add: markup_run_def markup_char_def tag_effect_def at_text_def newline_def)
  then show ?thesis using o n unfolding s markup_run_append [of "''<'' @ ''tr'' @ '''' @ ''>''"]
      markup_run_append [of "newline @ cells @ element ''td'' details @ newline"]
    by (simp add: opens_def neutral_def)
qed

theorem failure_row_not_nested_witness:
  "\<exists>s. failure_row \<lparr>result = Some ''FAIL'', test_name = Some ''c'', reason = Some '''', time_real = Some ''''\<rparr>
      True (Element ''FailureDetails'' [] None (map (\<lambda>n. demo_leaf n ''x'')
        [''Message'', ''Condition'', ''Actual'', ''Limit'', ''File'', ''Line''])) = Inr s
    \<and> \<not> nested (markup_run s (at_text []))"
proof -
  let ?i = "\<lparr>result = Some ''FAIL'', test_name = Some ''c'', reason = Some '''', time_real = Some ''''\<rparr>"
  let ?d = "Element ''FailureDetails'' [] None (map (\<lambda>n. demo_leaf n ''x'')
    [''Message'', ''Condition'', ''Actual'', ''Limit'', ''File'', ''Line''])"
  have "\<exists>s. failure_row ?i True ?d = Inr s"
    by (simp add: failure_row_def find_text_def find_child_def demo_leaf_def)
  then obtain s where s: "failure_row ?i True ?d = Inr s" by blast
  from failure_row_not_nested [OF s, of "[]"] s show ?thesis
    by (auto simp: plain_info_def show_text_def demo_leaf_def)
qed

end
