(* ===== verification/Test_Main.thy ===== *)
theory Test_Main
  imports Test_Collect Test_Report
begin

text \<open>
  \<^verbatim>\<open>test.py\<close>, part 6: \<^verbatim>\<open>read_ns3_config\<close>, \<^verbatim>\<open>make_paths\<close> and \<^verbatim>\<open>run_tests\<close>, which composes the
  parts: configuration, build, example collection, listing, suite selection, dispatch, execution,
  collection, reports and exit code.

  Further parameters of the outside: \<^verbatim>\<open>exec\<close> of a configuration line (\<open>exec_line\<close>), \<^verbatim>\<open>eval\<close> of a
  string (\<open>ev\<close>), the XML parser (\<open>parse\<close>), the time stamp of the output directory, and what the
  worker threads hand back for the dispatched jobs (\<open>execute\<close>). The interface \<open>job_executor\<close> says
  what is assumed of \<open>execute\<close>; the pool of the theory Test_Pool provides it.
\<close>

section \<open>Configuration and environment\<close>

definition interesting_config_items :: "string list" where
  "interesting_config_items =
     [''NS3_ENABLED_MODULES'', ''NS3_ENABLED_CONTRIBUTED_MODULES'', ''NS3_MODULE_PATH'',
      ''ENABLE_REAL_TIME'', ''ENABLE_EXAMPLES'', ''ENABLE_TESTS'', ''EXAMPLE_DIRECTORIES'',
      ''ENABLE_PYTHON_BINDINGS'', ''NSCLICK'', ''ENABLE_BRITE'', ''ENABLE_OPENFLOW'', ''APPNAME'',
      ''BUILD_PROFILE'', ''VERSION'', ''PYTHON'', ''VALGRIND_FOUND'']"

text \<open>One line of the lock file in the first loop; the state is the pair of \<^verbatim>\<open>top_dir\<close> and
  \<^verbatim>\<open>out_dir\<close>, \<open>None\<close> while unbound. Unpacking a split into two names raises \<^verbatim>\<open>ValueError\<close> on any
  other number of pieces.\<close>

definition eval_value :: "(string \<Rightarrow> string res) \<Rightarrow> string \<Rightarrow> string res" where
  "eval_value ev line =
     (case str_split CHR ''='' line of
        [key, val] \<Rightarrow> ev (str_strip val)
      | _ \<Rightarrow> Inl ValueError)"

definition directory_line ::
    "(string \<Rightarrow> string res) \<Rightarrow> string \<Rightarrow> string option \<times> string option
      \<Rightarrow> (string option \<times> string option) res" where
  "directory_line ev line = (\<lambda>(top_dir, out_dir).
     res_bind (if starts_with line ''top_dir ='' then res_bind (eval_value ev line) (\<lambda>v. Inr (Some v))
               else Inr top_dir) (\<lambda>top'.
     res_bind (if starts_with line ''out_dir ='' then res_bind (eval_value ev line) (\<lambda>v. Inr (Some v))
               else Inr out_dir) (\<lambda>out'. Inr (top', out'))))"

definition config_line ::
    "(string \<Rightarrow> config \<Rightarrow> config res) \<Rightarrow> string \<Rightarrow> config \<Rightarrow> config res" where
  "config_line exec_line line cfg =
     res_fold (\<lambda>item c. if starts_with line item then exec_line line c else Inr c)
       interesting_config_items cfg"

definition lock_filename :: "string \<Rightarrow> string" where
  "lock_filename platform = ''.lock-ns3_'' @ platform @ ''_build''"

definition read_ns3_config ::
    "files \<Rightarrow> (string \<Rightarrow> string res) \<Rightarrow> (string \<Rightarrow> config \<Rightarrow> config res) \<Rightarrow> string \<Rightarrow> config
      \<Rightarrow> config res" where
  "read_ns3_config fs ev exec_line platform cfg =
     (case fs (lock_filename platform) of
        None \<Rightarrow> Inl (SystemExit 2)
      | Some content \<Rightarrow>
          res_bind (res_fold (directory_line ev) (file_lines content) (None, None)) (\<lambda>(top_dir, out_dir).
            case (top_dir, out_dir) of
              (Some t, Some d) \<Rightarrow>
                res_fold (config_line exec_line) (file_lines content)
                  (cfg\<lparr>NS3_BASEDIR := t, NS3_BUILDDIR := d\<rparr>)
            | _ \<Rightarrow> Inl UnboundLocalError))"

definition set_suffix :: "config \<Rightarrow> config" where
  "set_suffix cfg = cfg\<lparr>BUILD_PROFILE_SUFFIX :=
     (if BUILD_PROFILE cfg = ''release'' then '''' else ''-'' @ BUILD_PROFILE cfg)\<rparr>"

type_synonym environ = "string \<Rightarrow> string option"

definition extend_variable ::
    "string \<Rightarrow> string \<Rightarrow> bool \<Rightarrow> string list \<Rightarrow> environ \<Rightarrow> environ" where
  "extend_variable name sep have paths env =
     (let env0 = (if have then env else env(name \<mapsto> ''''))
      in fold (\<lambda>path e. e(name \<mapsto> the (e name) @ sep @ path)) paths env0)"

definition make_paths :: "string \<Rightarrow> config \<Rightarrow> environ \<Rightarrow> environ" where
  "make_paths platform cfg env =
     (let have_DYLD = (env ''DYLD_LIBRARY_PATH'' \<noteq> None);
          have_LD = (env ''LD_LIBRARY_PATH'' \<noteq> None);
          have_PATH = (env ''PATH'' \<noteq> None);
          have_PYTHONPATH = (env ''PYTHONPATH'' \<noteq> None);
          pypath = path_join (path_join (NS3_BUILDDIR cfg) ''bindings'') ''python'';
          env1 = env(''PYTHONPATH'' \<mapsto> pypath);
          env2 = (if \<not> have_PYTHONPATH then env1(''PYTHONPATH'' \<mapsto> pypath)
                  else env1(''PYTHONPATH'' \<mapsto> the (env1 ''PYTHONPATH'') @ '':'' @ pypath))
      in if platform = ''darwin''
         then extend_variable ''DYLD_LIBRARY_PATH'' '':'' have_DYLD (NS3_MODULE_PATH cfg) env2
         else if platform = ''win32''
         then extend_variable ''PATH'' '';'' have_PATH (NS3_MODULE_PATH cfg) env2
         else if platform = ''cygwin''
         then extend_variable ''PATH'' '':'' have_PATH (NS3_MODULE_PATH cfg) env2
         else extend_variable ''LD_LIBRARY_PATH'' '':'' have_LD (NS3_MODULE_PATH cfg) env2)"

section \<open>Listing\<close>

text \<open>What \<^verbatim>\<open>--list\<close> prints.\<close>

definition list_tests ::
    "world \<Rightarrow> config \<Rightarrow> options \<Rightarrow> string \<Rightarrow> string list \<Rightarrow> string list res" where
  "list_tests world cfg opts test_runner_name names =
     res_bind (ask_test_runner world cfg test_runner_name
         (if opt_constrain opts \<noteq> ''''
          then '' --print-test-name-list --print-test-types --test-type='' @ opt_constrain opts
          else '' --print-test-name-list --print-test-types'')) (\<lambda>r.
       if retval r \<noteq> 0
       then Inr [''test.py error:  test-runner return code returned '' @ int_str (retval r),
                 ''To debug, try running '' @ [CHR 0x27] @ ''./ns3 run \"test-runner --print-test-name-list\"''
                   @ [CHR 0x27] @ newline]
       else res_bind (text_of (stdout_results r)) (\<lambda>out.
              Inr ([''Test Type    Test Name'', ''---------    ---------'']
                @ filter (\<lambda>item. str_strip item \<noteq> '''') (sort (str_split nl out))
                @ map (\<lambda>item. ''example      '' @ item) (sort names) @ [''''])))"

section \<open>The whole run\<close>

text \<open>How a run ends: with a return value of \<^verbatim>\<open>run_tests\<close> (\<open>None\<close> for the listing options), the
  lines printed to the standard output and the report files.\<close>

record run_result =
  return_value :: "int option"
  output_lines :: "string list"
  report_files :: "(string \<times> string) list"

record plan =
  plan_jobs :: "job list"
  plan_processors :: nat
  plan_output_dir :: string

text \<open>The jobs and threads of a run, once the listing options are out of the way.\<close>

definition plan_run ::
    "world \<Rightarrow> config \<Rightarrow> options \<Rightarrow> string \<Rightarrow> string list \<Rightarrow> string list \<Rightarrow> example_lists
      \<Rightarrow> plan res" where
  "plan_run world cfg opts date_and_time programs scripts exs =
     (let test_runner_name = program_name cfg ''test-runner'';
          testpy_output_dir = path_join ''testpy-output'' date_and_time
      in res_bind (select_suites world cfg opts test_runner_name) (\<lambda>suite_list.
         res_bind (worker_count world opts) (\<lambda>processors.
         res_bind (dispatch_all world cfg opts test_runner_name testpy_output_dir programs scripts exs
             suite_list) (\<lambda>jobs.
           Inr \<lparr>plan_jobs = jobs, plan_processors = nat processors,
                plan_output_dir = testpy_output_dir\<rparr>))))"

definition write_reports ::
    "(string \<Rightarrow> xml res) \<Rightarrow> options \<Rightarrow> string \<Rightarrow> (string \<times> string) list res" where
  "write_reports parse opts xml =
     res_bind (if opt_html opts \<noteq> ''''
               then res_bind (parse xml) (\<lambda>et. res_bind (translate_to_html et) (\<lambda>s.
                      Inr [(opt_html opts @ ''.html'', s)]))
               else Inr []) (\<lambda>html.
     res_bind (if opt_text opts \<noteq> ''''
               then res_bind (parse xml) (\<lambda>et. res_bind (translate_to_text et) (\<lambda>s.
                      Inr [(opt_text opts @ ''.txt'', s)]))
               else Inr []) (\<lambda>txt.
     Inr (html @ txt @ (if opt_xml opts \<noteq> '''' then [(opt_xml opts @ ''.xml'', xml)] else []))))"

text \<open>The part of \<^verbatim>\<open>run_tests\<close> after the jobs have come back. \<open>fs\<close> is the file system then.\<close>

definition finish_run ::
    "(string \<Rightarrow> xml res) \<Rightarrow> files \<Rightarrow> bool \<Rightarrow> options \<Rightarrow> nat \<Rightarrow> job list \<Rightarrow> run_result res" where
  "finish_run parse fs use opts total_tests received_jobs =
     res_bind (collect_jobs fs use opts total_tests received_jobs) (\<lambda>s.
     res_bind (write_reports parse opts (xml_results s)) (\<lambda>reports.
       Inr \<lparr>return_value = Some (exit_status total_tests s),
            output_lines = printed s @ summary_lines total_tests s, report_files = reports\<rparr>))"

text \<open>The listing options; how Python prints undecodable bytes is left out.\<close>

definition list_run ::
    "world \<Rightarrow> config \<Rightarrow> options \<Rightarrow> string list \<Rightarrow> run_result res" where
  "list_run world cfg opts names =
     (let test_runner_name = program_name cfg ''test-runner''
      in res_bind (if opt_kinds opts
                   then res_bind (ask_test_runner world cfg test_runner_name '' --print-test-type-list'') (\<lambda>r.
                          Inr (case stdout_results r of Decoded out \<Rightarrow> [out] | Undecoded _ \<Rightarrow> []))
                   else Inr []) (\<lambda>kinds.
         res_bind (if opt_list opts then list_tests world cfg opts test_runner_name names else Inr [])
           (\<lambda>listed. Inr \<lparr>return_value = None, output_lines = kinds @ listed, report_files = []\<rparr>)))"

definition run_configured ::
    "world \<Rightarrow> (string \<Rightarrow> xml res) \<Rightarrow> files \<Rightarrow> (nat \<Rightarrow> job list \<Rightarrow> job list) \<Rightarrow> bool \<Rightarrow> string \<Rightarrow> config
      \<Rightarrow> options \<Rightarrow> run_result res" where
  "run_configured world parse fs execute use date_and_time cfg opts =
     (if w_files world (lock_filename (w_platform world)) = None then Inl (SystemExit 2)
      else res_bind (get_list_from_file (w_files world) (w_eval_strings world)
               (lock_filename (w_platform world)) ''ns3_runnable_programs'') (\<lambda>programs.
           res_bind (get_list_from_file (w_files world) (w_eval_strings world)
               (lock_filename (w_platform world)) ''ns3_runnable_scripts'') (\<lambda>scripts.
           res_bind (collect_examples world cfg) (\<lambda>exs.
             if opt_kinds opts \<or> opt_list opts then list_run world cfg opts (example_names_original exs)
             else res_bind (plan_run world cfg opts date_and_time programs (map path_basename scripts) exs)
                    (\<lambda>p. finish_run parse fs use opts (length (plan_jobs p))
                           (execute (plan_processors p) (plan_jobs p)))))))"

definition run_tests ::
    "world \<Rightarrow> (string \<Rightarrow> string res) \<Rightarrow> (string \<Rightarrow> config \<Rightarrow> config res) \<Rightarrow> (string \<Rightarrow> xml res) \<Rightarrow> files
      \<Rightarrow> (nat \<Rightarrow> job list \<Rightarrow> job list) \<Rightarrow> bool \<Rightarrow> string \<Rightarrow> config \<Rightarrow> options \<Rightarrow> run_result res" where
  "run_tests world ev exec_line parse fs execute use date_and_time cfg0 opts =
     res_bind (read_ns3_config (w_files world) ev exec_line (w_platform world) cfg0) (\<lambda>cfg1.
     res_bind (case build_command world opts of
         None \<Rightarrow> Inr 0
       | Some cmd \<Rightarrow> res_bind (w_popen world cmd (w_cwd world)) (\<lambda>proc. Inr (proc_returncode proc)))
       (\<lambda>build_status.
          if build_status \<noteq> 0
          then Inr \<lparr>return_value = Some build_status, output_lines = [], report_files = []\<rparr>
          else run_configured world parse fs execute use date_and_time (set_suffix cfg1) opts))"

section \<open>Reading the configuration\<close>

text \<open>A configuration is only read when both directories are assigned.\<close>

lemma directory_line_sets:
  assumes "directory_line ev l (t, d) = Inr (t', d')"
  shows "t' \<noteq> None \<longrightarrow> t \<noteq> None \<or> starts_with l ''top_dir =''"
    and "d' \<noteq> None \<longrightarrow> d \<noteq> None \<or> starts_with l ''out_dir =''"
  using assms by (auto simp: directory_line_def res_simps split: if_splits)

lemma directory_lines_set:
  assumes "res_fold (directory_line ev) ls (t, d) = Inr (t', d')"
  shows "(t' \<noteq> None \<longrightarrow> t \<noteq> None \<or> (\<exists>l\<in>set ls. starts_with l ''top_dir =''))
    \<and> (d' \<noteq> None \<longrightarrow> d \<noteq> None \<or> (\<exists>l\<in>set ls. starts_with l ''out_dir =''))"
  using assms
proof (induction ls arbitrary: t d)
  case (Cons l ls)
  then obtain t1 d1 where s: "directory_line ev l (t, d) = Inr (t1, d1)"
    "res_fold (directory_line ev) ls (t1, d1) = Inr (t', d')"
    by (auto simp: res_simps)
  show ?case using Cons.IH [OF s(2)] directory_line_sets [OF s(1)] by auto
qed simp

lemma read_ns3_config_directories:
  assumes "read_ns3_config fs ev ex platform cfg = Inr cfg'"
  obtains content where "fs (lock_filename platform) = Some content"
    "\<exists>l\<in>set (file_lines content). starts_with l ''top_dir =''"
    "\<exists>l\<in>set (file_lines content). starts_with l ''out_dir =''"
proof -
  obtain content t d where c: "fs (lock_filename platform) = Some content"
    "res_fold (directory_line ev) (file_lines content) (None, None) = Inr (Some t, Some d)"
    using assms by (auto simp: read_ns3_config_def res_simps split: option.splits)
  then show ?thesis using that directory_lines_set [OF c(2)] by auto
qed

section \<open>The environment\<close>

lemma extend_variable_fold:
  "e name = Some v \<Longrightarrow>
     fold (\<lambda>path e. e(name \<mapsto> the (e name) @ sep @ path)) paths e
       = e(name \<mapsto> v @ concat (map (\<lambda>path. sep @ path) paths))"
  by (induction paths arbitrary: e v) (auto simp: fun_upd_idem)

lemma extend_variable_eq:
  assumes "have \<longleftrightarrow> env name \<noteq> None"
  shows "extend_variable name sep have paths env
    = env(name \<mapsto> (case env name of None \<Rightarrow> '''' | Some v \<Rightarrow> v) @ concat (map (\<lambda>path. sep @ path) paths))"
  using assms by (cases "env name") (auto simp: extend_variable_def Let_def extend_variable_fold)

section \<open>The exit code\<close>

lemma answer_work:
  assumes "dispatched_ok cfg opts j" "job_runnable popen cfg opts j"
  shows "\<not> is_break (answer (work popen decode cfg opts) j)"
proof (cases "is_skip j")
  case True
  then show ?thesis using assms(1) by (simp add: answer_def dispatched_ok_def)
next
  case False
  obtain rc t where "work popen decode cfg opts j = Inr (j\<lparr>returncode := rc, elapsed_time := t\<rparr>)"
    using work_total [OF assms(2) False] by blast
  then show ?thesis using False assms(1) by (simp add: answer_def dispatched_ok_def)
qed

lemma dispatched_job_list_ok:
  assumes "list_all (\<lambda>j. dispatched_ok cfg opts j \<and> job_runnable popen cfg opts j) jobs"
  shows "job_list_ok (work popen decode cfg opts) jobs"
  using assms work_total [of popen cfg opts _ decode]
  by (fastforce simp: job_list_ok_def list_all_iff dispatched_ok_def)

text \<open>The client of an executor: the exit code is decided by the results of the jobs alone.\<close>

context job_executor
begin

lemma exit_status_delivered:
  assumes "delivers jobs rs" "collect_jobs fs use opts (length jobs) rs = Inr s"
    and "list_all (\<lambda>j. \<not> is_break (job_result_of j)) jobs"
  shows "exit_status (length jobs) s =
    (if list_all (\<lambda>j. job_status (job_result_of j) \<in> {PASS, SKIP}) jobs then 0 else 1)"
proof -
  have n: "length rs = length jobs" by (rule delivered_length [OF assms(1)])
  have "exit_status (length jobs) s = (if length (tally PASS rs) + length (tally SKIP rs) = length rs then 0 else 1)"
    using collect_jobs_counts [OF assms(2)] n
    by (simp add: exit_status_def counts_from_def start_summary_def)
  moreover have "list_all (\<lambda>j. \<not> is_break j \<and> job_status j \<in> {PASS, SKIP}) rs
      = list_all (\<lambda>j. \<not> is_break (job_result_of j) \<and> job_status (job_result_of j) \<in> {PASS, SKIP}) jobs"
    by (rule delivered_all [OF assms(1)])
  ultimately show ?thesis using assms(3) unfolding tally_good by (auto simp: list_all_iff)
qed

end

lemma plan_jobs_ok:
  assumes "plan_run world cfg opts date programs scripts exs = Inr p"
  shows "list_all (dispatched_ok cfg opts) (plan_jobs p)"
proof -
  obtain trn dir suites where d: "dispatch_all world cfg opts trn dir programs scripts exs suites
      = Inr (plan_jobs p)"
    using assms by (auto simp: plan_run_def Let_def res_simps)
  obtain e q where "dispatch_examples world cfg opts dir (runnable_dictionary programs)
      (example_tests exs) = Inr e"
    "dispatch_pyexamples world cfg opts dir scripts (python_tests exs) = Inr q"
    "plan_jobs p = dispatch_suites world opts trn dir suites @ e @ q"
    using d by (auto simp: dispatch_all_def res_simps)
  then show ?thesis using suites_ok examples_ok pyexamples_ok by (fastforce simp: list_all_iff)
qed

lemma finish_run_status:
  assumes "finish_run parse fs use opts tot rs = Inr r"
  obtains s where "collect_jobs fs use opts tot rs = Inr s" "return_value r = Some (exit_status tot s)"
  using assms by (auto simp: finish_run_def res_simps)

section \<open>Properties\<close>

text \<open>C25: in a run that is not interrupted and in which every process that is not skipped can be started, for every interleaving of the worker threads the exit code is
  0 exactly when every dispatched job was skipped or its program returned 0, and 1 otherwise.\<close>

theorem run_exit_code:
  assumes "plan_run world cfg opts date programs scripts exs = Inr p"
    and "list_all (job_runnable (w_popen world) cfg opts) (plan_jobs p)" and "0 < plan_processors p"
    and "pool_run (work (w_popen world) (w_decode world) cfg opts)
           (start_pool (plan_processors p) (plan_jobs p)) as = Some S"
    and "pool_done S" "\<not> thread_exit S"
    and "finish_run parse fs use opts (length (plan_jobs p)) (received S) = Inr r"
  shows "return_value r = Some
    (if list_all (\<lambda>j. job_status (answer (work (w_popen world) (w_decode world) cfg opts) j)
          \<in> {PASS, SKIP}) (plan_jobs p) then 0 else 1)"
proof -
  let ?w = "work (w_popen world) (w_decode world) cfg opts"
  have ok: "list_all (\<lambda>j. dispatched_ok cfg opts j \<and> job_runnable (w_popen world) cfg opts j)
      (plan_jobs p)"
    using plan_jobs_ok [OF assms(1)] assms(2) by (simp add: list_all_iff)
  have d: "pool_delivers ?w (plan_processors p) (plan_jobs p) (received S)"
    using dispatched_job_list_ok [OF ok] assms(3-6) unfolding pool_delivers_def by blast
  have nb: "list_all (\<lambda>j. \<not> is_break (answer ?w j)) (plan_jobs p)"
    using ok by (simp add: list_all_iff answer_work)
  obtain s where s: "collect_jobs fs use opts (length (plan_jobs p)) (received S) = Inr s"
    "return_value r = Some (exit_status (length (plan_jobs p)) s)"
    using assms(7) by (rule finish_run_status)
  show ?thesis using pool.exit_status_delivered [OF d s(1) nb] s(2) by simp
qed

definition demo_run_world :: world where
  "demo_run_world = demo_world\<lparr>w_popen := (\<lambda>cmd dir. Inr \<lparr>proc_returncode = (if starts_with cmd ''/b/'' then 139 else 0),
     proc_stdout = (if ends_with cmd ''performance'' then [104, 111, 116] else [97, 10, 104, 111, 116]),
     proc_stderr = [], proc_time = 1\<rparr>)\<rparr>"

definition demo_plan :: plan where
  "demo_plan = (case plan_run demo_run_world demo_config default_options ''t''
     [''build/ns3-dev-a-debug''] [] demo_examples of Inr p \<Rightarrow> p
     | Inl _ \<Rightarrow> \<lparr>plan_jobs = [], plan_processors = 0, plan_output_dir = ''''\<rparr>)"

lemma demo_plan_facts:
  "plan_run demo_run_world demo_config default_options ''t'' [''build/ns3-dev-a-debug''] [] demo_examples
     = Inr demo_plan"
  "plan_processors demo_plan = 4"
  "plan_jobs demo_plan = [suite_job_of demo_run_world default_options ''ns3-dev-test-runner-debug'' ''testpy-output/t'' ''a'',
     example_job demo_run_world default_options ''testpy-output/t'' ''examples/a'' ''/b/ns3-dev-a-debug --x'']"
  by code_simp+

definition demo_schedule :: "action list" where
  "demo_schedule = replicate 6 Put @ [Get 0, Decide 0, Finish 0, Get 1, Decide 1, Finish 1]
     @ concat (map (\<lambda>i. [Get i, Decide i]) [0, 1, 2, 3]) @ [Receive, Receive]"

definition demo_work :: "job \<Rightarrow> job res" where
  "demo_work = work (w_popen demo_run_world) (w_decode demo_run_world) demo_config default_options"

lemma demo_pool:
  "case pool_run demo_work (start_pool 4 (plan_jobs demo_plan)) demo_schedule of None \<Rightarrow> False
   | Some S \<Rightarrow> pool_done S \<and> \<not> thread_exit S"
  by code_simp

lemma demo_finish:
  "case pool_run demo_work (start_pool 4 (plan_jobs demo_plan)) demo_schedule of None \<Rightarrow> False
   | Some S \<Rightarrow> (case finish_run (\<lambda>_. Inl ValueError) (\<lambda>_. Some ''x'') False default_options 2 (received S) of
        Inl _ \<Rightarrow> False | Inr r \<Rightarrow> True)"
  by code_simp

lemma demo_statuses: "map (\<lambda>j. job_status (answer demo_work j)) (plan_jobs demo_plan) = [PASS, CRASH]"
  by code_simp

theorem run_exit_code_witness:
  "\<exists>S r. pool_run demo_work (start_pool 4 (plan_jobs demo_plan)) demo_schedule = Some S
     \<and> finish_run (\<lambda>_. Inl ValueError) (\<lambda>_. Some ''x'') False default_options 2 (received S) = Inr r
     \<and> return_value r = Some 1"
proof -
  from demo_pool obtain S where S: "pool_run demo_work (start_pool 4 (plan_jobs demo_plan)) demo_schedule = Some S"
    "pool_done S \<and> \<not> thread_exit S" by (rule case_SomeE)
  from demo_finish obtain S' where S': "pool_run demo_work (start_pool 4 (plan_jobs demo_plan)) demo_schedule = Some S'"
    "case finish_run (\<lambda>_. Inl ValueError) (\<lambda>_. Some ''x'') False default_options 2 (received S') of
        Inl _ \<Rightarrow> False | Inr r \<Rightarrow> True" by (rule case_SomeE)
  have "S' = S" using S(1) S'(1) by simp
  then obtain r where r: "finish_run (\<lambda>_. Inl ValueError) (\<lambda>_. Some ''x'') False default_options 2 (received S) = Inr r"
    using S'(2) case_InrE by blast
  have n: "length (plan_jobs demo_plan) = 2" by (simp add: demo_plan_facts(3))
  have jr: "list_all (job_runnable (w_popen demo_run_world) demo_config default_options) (plan_jobs demo_plan)"
    by (simp add: list_all_iff job_runnable_def demo_config_def demo_run_world_def)
  have np: "\<not> list_all (\<lambda>j. job_status (answer demo_work j) \<in> {PASS, SKIP}) (plan_jobs demo_plan)"
    using demo_statuses by (auto simp: demo_plan_facts(3))
  have "return_value r = Some 1"
    using run_exit_code [OF demo_plan_facts(1) jr, of demo_schedule S "\<lambda>_. Inl ValueError" "\<lambda>_. Some ''x''" False r]
      demo_plan_facts(2) S r n np unfolding demo_work_def by simp
  then show ?thesis using S(1) r by blast
qed

text \<open>when an interrupt has turned a job into a break, the exit code is 1, whatever the other jobs did.\<close>

theorem interrupted_run_fails:
  assumes "finish_run parse fs use opts (length rs) rs = Inr r" and "\<exists>j\<in>set rs. is_break j"
  shows "return_value r = Some 1"
proof -
  obtain s where s: "collect_jobs fs use opts (length rs) rs = Inr s"
    "return_value r = Some (exit_status (length rs) s)"
    using assms(1) by (rule finish_run_status)
  have "passed_tests s + skipped_tests s \<noteq> length rs"
    using collect_jobs_counts [OF s(1)] tally_good [of rs] assms(2)
    by (auto simp: counts_from_def start_summary_def)
  then show ?thesis using s(2) by (simp add: exit_status_def)
qed

theorem interrupted_run_fails_witness:
  "\<exists>r. finish_run (\<lambda>_. Inl ValueError) (\<lambda>_. None) False default_options 1 [break_job] = Inr r
    \<and> return_value r = Some 1"
proof -
  have "\<exists>r. finish_run (\<lambda>_. Inl ValueError) (\<lambda>_. None) False default_options 1 [break_job] = Inr r"
    by (simp add: finish_run_def collect_jobs_def collect_job_def break_job_def write_reports_def
        default_options_def)
  then obtain r where r: "finish_run (\<lambda>_. Inl ValueError) (\<lambda>_. None) False default_options 1 [break_job] = Inr r"
    by blast
  from interrupted_run_fails [of "\<lambda>_. Inl ValueError" "\<lambda>_. None" False default_options "[break_job]" r] r
  show ?thesis by (simp add: break_job_def)
qed

text \<open>On Linux \<^verbatim>\<open>make_paths\<close> appends every module directory, in order, to \<^verbatim>\<open>LD_LIBRARY_PATH\<close>;
  \<^verbatim>\<open>PYTHONPATH\<close> becomes the bindings directory, twice when the variable was set before, and its
  old value is lost; every other variable is kept.\<close>

theorem make_paths_linux:
  "make_paths ''linux'' cfg env =
     env(''PYTHONPATH'' \<mapsto> (let pypath = path_join (path_join (NS3_BUILDDIR cfg) ''bindings'') ''python''
            in if env ''PYTHONPATH'' = None then pypath else pypath @ '':'' @ pypath),
         ''LD_LIBRARY_PATH'' \<mapsto> (case env ''LD_LIBRARY_PATH'' of None \<Rightarrow> '''' | Some v \<Rightarrow> v)
            @ concat (map (\<lambda>path. '':'' @ path) (NS3_MODULE_PATH cfg)))"
  by (auto simp: make_paths_def Let_def extend_variable_eq fun_upd_twist)

end
