(* ===== verification/Timelines.thy ===== *)
theory Timelines
  imports Complex_Main Config_Files
begin

text \<open>
  \<^verbatim>\<open>utils/grid.py\<close>, part 1: the data model of the timeline viewer. Ranges and events with their
  sorting and binary searches, timelines and their bounds, colours, and the reader of the data
  file.

  The two methods \<^verbatim>\<open>__search\<close> run the same loop (\<open>search_loop\<close>) on different comparisons, its
  contract is the locale \<open>monotone_probe\<close>. Objects that Python returns by reference and then
  changes are updated in place in the model (\<open>update_named\<close>). The calls that exist only in
  Python 2 (\<^verbatim>\<open>dict.has_key\<close>, \<^verbatim>\<open>list.sort(cmp)\<close>) have their meaning there; \<^verbatim>\<open>/\<close> is true division
  and numbers (times, window ends, pixel positions) are exact rationals.
\<close>

section \<open>Ranges and events\<close>

record data_range =
  start :: rat
  end_of :: rat
  value_of :: string

record 'v event =
  at_time :: rat
  ev_value :: 'v

definition ranges_cmp :: "data_range \<Rightarrow> data_range \<Rightarrow> int" where
  "ranges_cmp a b = (let diff = start a - start b in if diff < 0 then - 1 else if diff > 0 then 1 else 0)"

definition events_cmp :: "'v event \<Rightarrow> 'v event \<Rightarrow> int" where
  "events_cmp a b = (let diff = at_time a - at_time b in if diff < 0 then - 1 else if diff > 0 then 1 else 0)"

text \<open>\<^verbatim>\<open>list.sort\<close> is stable: an element goes after those it does not precede.\<close>

fun insert_cmp :: "('a \<Rightarrow> 'a \<Rightarrow> int) \<Rightarrow> 'a \<Rightarrow> 'a list \<Rightarrow> 'a list" where
  "insert_cmp cmp x [] = [x]"
| "insert_cmp cmp x (y # ys) = (if cmp x y \<le> 0 then x # y # ys else y # insert_cmp cmp x ys)"

definition sort_cmp :: "('a \<Rightarrow> 'a \<Rightarrow> int) \<Rightarrow> 'a list \<Rightarrow> 'a list" where
  "sort_cmp cmp xs = foldr (insert_cmp cmp) xs []"

section \<open>Binary search\<close>

datatype search_result = Found int | Missed int

text \<open>A probe is positive when the key lies after the element, negative when it lies before.\<close>

function search_loop :: "(nat \<Rightarrow> int) \<Rightarrow> int \<Rightarrow> int \<Rightarrow> search_result" where
  "search_loop probe l u =
     (if l \<le> u
      then let i = (l + u) div 2
           in if probe (nat i) = 0 then Found i
              else if probe (nat i) < 0 then search_loop probe l (i - 1)
              else search_loop probe (i + 1) u
      else Missed l)"
  by pat_completeness auto
termination
  by (relation "measure (\<lambda>(p, l, u). nat (u - l + 1))") auto

declare search_loop.simps [simp del]

definition range_probe :: "data_range list \<Rightarrow> rat \<Rightarrow> nat \<Rightarrow> int" where
  "range_probe ranges key i =
     (if start (ranges ! i) \<le> key \<and> key \<le> end_of (ranges ! i) then 0
      else if key < start (ranges ! i) then - 1 else 1)"

definition event_probe :: "'v event list \<Rightarrow> rat \<Rightarrow> nat \<Rightarrow> int" where
  "event_probe events key i =
     (if key = at_time (events ! i) then 0 else if key < at_time (events ! i) then - 1 else 1)"

definition range_search :: "data_range list \<Rightarrow> rat \<Rightarrow> int" where
  "range_search ranges key =
     (case search_loop (range_probe ranges key) 0 (int (length ranges) - 1) of
        Found i \<Rightarrow> i | Missed l \<Rightarrow> - 1)"

definition event_search :: "'v event list \<Rightarrow> rat \<Rightarrow> int" where
  "event_search events key =
     (case search_loop (event_probe events key) 0 (int (length events) - 1) of
        Found i \<Rightarrow> i | Missed l \<Rightarrow> l)"

section \<open>One line of data\<close>

record range_line =
  rname :: string
  ranges :: "data_range list"

record 'v event_line =
  ename :: string
  events :: "'v event list"

definition get_ranges_bounds :: "data_range list \<Rightarrow> rat \<Rightarrow> rat \<Rightarrow> int \<times> int" where
  "get_ranges_bounds rs lo hi =
     (let s = range_search rs lo; e = range_search rs hi
      in if s = - 1 \<and> e = - 1 then (0, 0)
         else if s = - 1 then (0, e + 1)
         else if e = - 1 then (s, int (length rs))
         else (s, e + 1))"

definition get_ranges :: "data_range list \<Rightarrow> rat \<Rightarrow> rat \<Rightarrow> data_range list" where
  "get_ranges rs lo hi =
     (let s = range_search rs lo; e = range_search rs hi
      in if s = - 1 \<and> e = - 1 then []
         else if s = - 1 then py_slice rs 0 (e + 1)
         else if e = - 1 then py_slice rs s (int (length rs))
         else py_slice rs s (e + 1))"

definition ranges_bounds :: "data_range list \<Rightarrow> rat \<times> rat" where
  "ranges_bounds rs = (if 0 < length rs then (start (rs ! 0), end_of (rs ! (length rs - 1))) else (0, 0))"

definition get_events_bounds :: "'v event list \<Rightarrow> rat \<Rightarrow> rat \<Rightarrow> int \<times> int" where
  "get_events_bounds es lo hi = (event_search es lo, event_search es hi + 1)"

definition get_events :: "'v event list \<Rightarrow> rat \<Rightarrow> rat \<Rightarrow> 'v event list" where
  "get_events es lo hi = py_slice es (event_search es lo) (event_search es hi + 1)"

definition events_bounds :: "'v event list \<Rightarrow> rat \<times> rat" where
  "events_bounds es = (if 0 < length es then (at_time (es ! 0), at_time (last es)) else (0, 0))"

section \<open>Timelines\<close>

record timeline =
  tname :: string
  t_ranges :: "range_line list"
  t_event_str :: "string event_line list"
  t_event_int :: "int event_line list"

text \<open>The object with a name, changed in place; a new one is appended when there is none.\<close>

fun update_named :: "('a \<Rightarrow> string) \<Rightarrow> (string \<Rightarrow> 'a) \<Rightarrow> string \<Rightarrow> ('a \<Rightarrow> 'a) \<Rightarrow> 'a list \<Rightarrow> 'a list" where
  "update_named nm new n f [] = [f (new n)]"
| "update_named nm new n f (x # xs) = (if nm x = n then f x # xs else x # update_named nm new n f xs)"

definition new_timeline :: "string \<Rightarrow> timeline" where
  "new_timeline n = \<lparr>tname = n, t_ranges = [], t_event_str = [], t_event_int = []\<rparr>"

definition add_range :: "string \<Rightarrow> data_range \<Rightarrow> timeline \<Rightarrow> timeline" where
  "add_range n r t = t\<lparr>t_ranges := update_named rname (\<lambda>n. \<lparr>rname = n, ranges = []\<rparr>) n
     (\<lambda>l. l\<lparr>ranges := ranges l @ [r]\<rparr>) (t_ranges t)\<rparr>"

definition add_event_str :: "string \<Rightarrow> string event \<Rightarrow> timeline \<Rightarrow> timeline" where
  "add_event_str n e t = t\<lparr>t_event_str := update_named ename (\<lambda>n. \<lparr>ename = n, events = []\<rparr>) n
     (\<lambda>l. l\<lparr>events := events l @ [e]\<rparr>) (t_event_str t)\<rparr>"

definition add_event_int :: "string \<Rightarrow> int event \<Rightarrow> timeline \<Rightarrow> timeline" where
  "add_event_int n e t = t\<lparr>t_event_int := update_named ename (\<lambda>n. \<lparr>ename = n, events = []\<rparr>) n
     (\<lambda>l. l\<lparr>events := events l @ [e]\<rparr>) (t_event_int t)\<rparr>"

definition timeline_sort :: "timeline \<Rightarrow> timeline" where
  "timeline_sort t = t\<lparr>
     t_ranges := map (\<lambda>l. l\<lparr>ranges := sort_cmp ranges_cmp (ranges l)\<rparr>) (t_ranges t),
     t_event_int := map (\<lambda>l. l\<lparr>events := sort_cmp events_cmp (events l)\<rparr>) (t_event_int t),
     t_event_str := map (\<lambda>l. l\<lparr>events := sort_cmp events_cmp (events l)\<rparr>) (t_event_str t)\<rparr>"

definition widen :: "rat \<times> rat \<Rightarrow> rat \<times> rat \<Rightarrow> rat \<times> rat" where
  "widen b acc = (let lo = (if fst b < fst acc then fst b else fst acc);
                      hi = (if snd b > snd acc then snd b else snd acc) in (lo, hi))"

definition timeline_bounds :: "timeline \<Rightarrow> rat \<times> rat" where
  "timeline_bounds t =
     fold (\<lambda>l. widen (events_bounds (events l))) (t_event_int t)
       (fold (\<lambda>l. widen (events_bounds (events l))) (t_event_str t)
         (fold (\<lambda>l. widen (ranges_bounds (ranges l))) (t_ranges t) (0, 0)))"

definition timelines_bounds :: "timeline list \<Rightarrow> rat \<times> rat" where
  "timelines_bounds ts = fold (\<lambda>t. widen (timeline_bounds t)) ts (0, 0)"

text \<open>The keys of a dictionary filled in this order.\<close>

definition get_all_range_values :: "timeline list \<Rightarrow> string list" where
  "get_all_range_values ts =
     fold (\<lambda>v vs. if v \<in> set vs then vs else vs @ [v])
       (concat (map (\<lambda>t. concat (map (\<lambda>l. map value_of (ranges l)) (t_ranges t))) ts)) []"

section \<open>Colours\<close>

record color =
  red :: rat
  green :: rat
  blue :: rat

definition rgb :: "rat \<Rightarrow> rat \<Rightarrow> rat \<Rightarrow> color" where
  "rgb r g b = \<lparr>red = r, green = g, blue = b\<rparr>"

text \<open>The list of default colours belongs to the class and shrinks.\<close>

record colors =
  named_colors :: "(string \<times> color) list"
  default_colors :: "color list"

definition new_colors :: colors where
  "new_colors = \<lparr>named_colors = [],
     default_colors = [rgb 1 0 0, rgb 0 1 0, rgb 0 0 1, rgb 1 1 0, rgb 1 0 1, rgb 0 1 1]\<rparr>"

definition color_add :: "string \<Rightarrow> color \<Rightarrow> colors \<Rightarrow> colors" where
  "color_add n c cs = cs\<lparr>named_colors := AList.update n c (named_colors cs)\<rparr>"

definition color_lookup :: "string \<Rightarrow> colors \<Rightarrow> (color \<times> colors) res" where
  "color_lookup n cs =
     (case map_of (named_colors cs) n of
        Some c \<Rightarrow> Inr (c, cs)
      | None \<Rightarrow>
          if default_colors cs = [] then Inl IndexError
          else let c = last (default_colors cs)
               in Inr (c, color_add n c (cs\<lparr>default_colors := butlast (default_colors cs)\<rparr>)))"

text \<open>The loop of \<^verbatim>\<open>main\<close> that looks up a colour for each legend.\<close>

fun lookup_all :: "string list \<Rightarrow> colors \<Rightarrow> (color list \<times> colors) res" where
  "lookup_all [] cs = Inr ([], cs)"
| "lookup_all (n # ns) cs =
     res_bind (color_lookup n cs) (\<lambda>(c, cs').
       res_bind (lookup_all ns cs') (\<lambda>(rest, cs''). Inr (c # rest, cs'')))"

section \<open>Reading the data file\<close>

text \<open>The regular expressions are sequences of words, separated by single blanks; every group but
  the last ends at the next blank, so matching never has to go back.\<close>

datatype field = Word | Digits

definition field_ok :: "field \<Rightarrow> string \<Rightarrow> bool" where
  "field_ok f w \<longleftrightarrow> w \<noteq> '''' \<and> (f = Digits \<longrightarrow> list_all is_digit w)"

fun match_groups :: "field list \<Rightarrow> string \<Rightarrow> string list option" where
  "match_groups [] s = Some []"
| "match_groups [f] s =
     (let w = (if f = Digits then takeWhile is_digit s else takeWhile (\<lambda>c. c \<noteq> CHR '' '') s)
      in if w = '''' then None else Some [w])"
| "match_groups (f # fs) s =
     (let w = takeWhile (\<lambda>c. c \<noteq> CHR '' '') s
      in if field_ok f w \<and> dropWhile (\<lambda>c. c \<noteq> CHR '' '') s \<noteq> ''''
         then map_option ((#) w) (match_groups fs (tl (dropWhile (\<lambda>c. c \<noteq> CHR '' '') s)))
         else None)"

definition match_line :: "string \<Rightarrow> field list \<Rightarrow> string \<Rightarrow> string list option" where
  "match_line keyword groups line =
     (if starts_with line keyword then match_groups groups (drop (length keyword) line) else None)"

definition hex_value :: "char \<Rightarrow> nat option" where
  "hex_value c =
     (let k = (of_char c :: nat)
      in if 48 \<le> k \<and> k \<le> 57 then Some (k - 48)
         else if 97 \<le> k \<and> k \<le> 102 then Some (k - 87)
         else if 65 \<le> k \<and> k \<le> 70 then Some (k - 55) else None)"

definition match_color :: "string \<Rightarrow> (string \<times> color) option" where
  "match_color line =
     (if starts_with line ''color ''
      then let rest = drop 6 line; w = takeWhile (\<lambda>c. c \<noteq> CHR '' '') rest;
               r = dropWhile (\<lambda>c. c \<noteq> CHR '' '') rest
           in (case r of
                 sp # sharp # a # b # c # d # e # f # _ \<Rightarrow>
                   if w \<noteq> '''' \<and> sharp = CHR ''#''
                   then (case map hex_value [a, b, c, d, e, f] of
                           [Some a, Some b, Some c, Some d, Some e, Some f] \<Rightarrow>
                             Some (w, rgb (of_nat (16 * a + b) / 255) (of_nat (16 * c + d) / 255)
                               (of_nat (16 * e + f) / 255))
                         | _ \<Rightarrow> None)
                   else None
               | _ \<Rightarrow> None)
      else None)"

definition int_of_digits :: "string \<Rightarrow> int" where
  "int_of_digits s = int (nat_of_digits s)"

definition read_line :: "string \<Rightarrow> colors \<times> timeline list \<Rightarrow> colors \<times> timeline list" where
  "read_line line = (\<lambda>(cs, ts).
     let on_timeline = (\<lambda>n f. update_named tname new_timeline n f ts)
     in case match_line ''range '' [Word, Word, Word, Digits, Digits] line of
          Some [t, r, v, s, e] \<Rightarrow>
            (cs, on_timeline t (add_range r \<lparr>start = of_int (int_of_digits s), end_of = of_int (int_of_digits e), value_of = v\<rparr>))
        | _ \<Rightarrow>
      case match_line ''event-str '' [Word, Word, Word, Digits] line of
          Some [t, n, v, a] \<Rightarrow> (cs, on_timeline t (add_event_str n \<lparr>at_time = of_int (int_of_digits a), ev_value = v\<rparr>))
        | _ \<Rightarrow>
      case match_line ''event-int '' [Word, Word, Digits, Digits] line of
          Some [t, n, v, a] \<Rightarrow>
            (cs, on_timeline t (add_event_int n \<lparr>at_time = of_int (int_of_digits a), ev_value = int_of_digits v\<rparr>))
        | _ \<Rightarrow>
      case match_color line of
          Some (n, c) \<Rightarrow> (color_add n c cs, ts)
        | None \<Rightarrow> (cs, ts))"

definition read_data :: "string \<Rightarrow> colors \<times> timeline list" where
  "read_data content =
     (let (cs, ts) = fold read_line (file_lines content) (new_colors, [])
      in (cs, map timeline_sort ts))"

section \<open>Sorting\<close>

lemma insert_ranges_cmp: "insert_cmp ranges_cmp = insort_key start"
proof (intro ext)
  show "insert_cmp ranges_cmp x ys = insort_key start x ys" for x ys
    by (induction ys) (auto simp: ranges_cmp_def Let_def)
qed

lemma insert_events_cmp: "insert_cmp events_cmp = insort_key at_time"
proof (intro ext)
  show "insert_cmp events_cmp x ys = insort_key at_time x ys" for x :: "'v event" and ys
    by (induction ys) (auto simp: events_cmp_def Let_def)
qed

lemma sort_ranges: "sort_cmp ranges_cmp rs = sort_key start rs"
  by (simp add: sort_cmp_def sort_key_def insert_ranges_cmp)

lemma sort_events: "sort_cmp events_cmp es = sort_key at_time es"
  by (simp add: sort_cmp_def sort_key_def insert_events_cmp)

section \<open>The search\<close>

text \<open>The contract of the searches: the probes of a list are positive, then zero, then negative.\<close>

locale monotone_probe =
  fixes probe :: "nat \<Rightarrow> int" and n :: nat
  assumes descending: "i \<le> j \<Longrightarrow> j < n \<Longrightarrow> sgn (probe j) \<le> sgn (probe i)"
begin

lemma positive_down: "i \<le> j \<Longrightarrow> j < n \<Longrightarrow> 0 < probe j \<Longrightarrow> 0 < probe i"
  using descending [of i j] by (auto simp: sgn_if split: if_splits)

lemma negative_up: "i \<le> j \<Longrightarrow> j < n \<Longrightarrow> probe i < 0 \<Longrightarrow> probe j < 0"
  using descending [of i j] by (auto simp: sgn_if split: if_splits)

lemma search_loop_spec:
  assumes "0 \<le> l" "u < int n" "l \<le> u + 1"
    and "\<forall>i. int i < l \<longrightarrow> 0 < probe i" "\<forall>i. u < int i \<and> i < n \<longrightarrow> probe i < 0"
  shows "case search_loop probe l u of
      Found k \<Rightarrow> 0 \<le> k \<and> k < int n \<and> probe (nat k) = 0
    | Missed k \<Rightarrow> 0 \<le> k \<and> k \<le> int n \<and> (\<forall>i. int i < k \<longrightarrow> 0 < probe i)
        \<and> (\<forall>i. k \<le> int i \<and> i < n \<longrightarrow> probe i < 0)"
  using assms
proof (induction "nat (u - l + 1)" arbitrary: l u rule: less_induct)
  case less
  define i where "i = (l + u) div 2"
  show ?case
  proof (cases "l \<le> u")
    case False
    then show ?thesis
      using less.prems by (auto simp: search_loop.simps [of probe l u])
  next
    case True
    then have i: "l \<le> i" "i \<le> u" by (auto simp: i_def)
    then have n: "nat i < n" using less.prems(1,2) by simp
    consider "probe (nat i) = 0" | "probe (nat i) < 0" | "0 < probe (nat i)" by linarith
    then show ?thesis
    proof cases
      case 1
      then show ?thesis
        using True i n less.prems(1) by (simp add: search_loop.simps [of probe l u] i_def [symmetric] Let_def)
    next
      case 2
      have up: "\<forall>j. i - 1 < int j \<and> j < n \<longrightarrow> probe j < 0"
        using negative_up [of "nat i"] 2 by auto
      show ?thesis
        using less.hyps [of "i - 1" l] less.prems(1,2,4) up i True 2
        by (simp add: search_loop.simps [of probe l u] i_def [symmetric] Let_def)
    next
      case 3
      have down: "\<forall>j. int j < i + 1 \<longrightarrow> 0 < probe j"
        using positive_down [of _ "nat i"] 3 n by auto
      show ?thesis
        using less.hyps [of u "i + 1"] less.prems(1,2,5) down i True 3 less_not_sym [OF 3]
        by (simp add: search_loop.simps [of probe l u] i_def [symmetric] Let_def)
    qed
  qed
qed

lemma search_cases:
  obtains (found) k where "search_loop probe 0 (int n - 1) = Found (int k)" "k < n" "probe k = 0"
  | (missed) k where "search_loop probe 0 (int n - 1) = Missed (int k)" "k \<le> n"
      "\<forall>i < k. 0 < probe i" "\<forall>i. k \<le> i \<and> i < n \<longrightarrow> probe i < 0"
proof (cases "search_loop probe 0 (int n - 1)")
  case (Found k)
  then show ?thesis
    using search_loop_spec [of 0 "int n - 1"] found [of "nat k"] by (simp add: nat_less_iff)
next
  case (Missed k)
  then show ?thesis
    using search_loop_spec [of 0 "int n - 1"] missed [of "nat k"] by (auto simp: zless_nat_eq_int_zless nat_le_iff)
qed

end

section \<open>Events\<close>

interpretation sorted_events: monotone_probe "event_probe (sort_cmp events_cmp es) key" "length es"
  for es :: "'v event list" and key
proof
  fix i j assume "i \<le> j" "j < length es"
  then have "at_time (sort_key at_time es ! i) \<le> at_time (sort_key at_time es ! j)"
    using sorted_nth_mono [OF sorted_sort_key [of at_time es], of i j] by simp
  then show "sgn (event_probe (sort_cmp events_cmp es) key j) \<le> sgn (event_probe (sort_cmp events_cmp es) key i)"
    by (auto simp: event_probe_def sort_events)
qed

text \<open>The search of a sorted list of events with distinct times returns how many of them are
  earlier than the key.\<close>

lemma sorted_events_strict:
  assumes "distinct (map at_time es)" "i < j" "j < length es"
  shows "at_time (sort_cmp events_cmp es ! i) < at_time (sort_cmp events_cmp es ! j)"
proof -
  have "sorted (map at_time (sort_key at_time es))" "distinct (map at_time (sort_key at_time es))"
    using assms(1) by (simp_all add: distinct_map)
  then have "sorted_wrt (<) (map at_time (sort_key at_time es))"
    using strict_sorted_iff by blast
  then show ?thesis using assms(2,3) by (simp add: sort_events sorted_wrt_iff_nth_less)
qed

lemma event_search_earlier:
  assumes "distinct (map at_time es)"
  defines "xs \<equiv> sort_cmp events_cmp es"
  obtains k where "event_search xs key = int k" "k \<le> length xs"
    "\<forall>i < length xs. i < k \<longleftrightarrow> at_time (xs ! i) < key"
proof -
  have len: "length xs = length es" by (simp add: xs_def sort_events)
  note strict = sorted_events_strict [OF assms(1), folded xs_def len]
  show thesis
  proof (cases rule: sorted_events.search_cases [of es key, folded xs_def, folded len])
    case (1 k)
    then have k: "at_time (xs ! k) = key" by (simp add: event_probe_def split: if_splits)
    have "\<forall>i < length xs. i < k \<longleftrightarrow> at_time (xs ! i) < key"
      using strict [of _ k] strict [of k] 1(2) k by (metis linorder_neqE_nat order_less_asym less_irrefl)
    then show thesis using that [of k] 1(1,2) by (simp add: event_search_def)
  next
    case (2 k)
    have "i < k \<longleftrightarrow> at_time (xs ! i) < key" if "i < length xs" for i
      using 2(3,4) [rule_format, of i] that by (cases "i < k") (auto simp: event_probe_def split: if_splits)
    then show thesis using that [of k] 2(1,2) by (simp add: event_search_def)
  qed
qed

lemma filter_prefix:
  assumes "\<forall>i < length xs. i < k \<longleftrightarrow> P (xs ! i)"
  shows "filter P xs = take k xs" "filter (\<lambda>x. \<not> P x) xs = drop k xs"
proof -
  have "\<forall>x \<in> set (take k xs). P x" "\<forall>x \<in> set (drop k xs). \<not> P x"
    using assms by (auto simp: in_set_conv_nth) (metis less_diff_conv add.commute not_add_less1)
  then show "filter P xs = take k xs" "filter (\<lambda>x. \<not> P x) xs = drop k xs"
    using filter_append [of _ "take k xs" "drop k xs"] by simp_all
qed

lemma filter_window:
  assumes "\<forall>i < length xs. i < s \<longleftrightarrow> f (xs ! i) < (lo :: rat)"
    and "\<forall>i < length xs. i < e \<longleftrightarrow> f (xs ! i) \<le> hi"
  shows "filter (\<lambda>x. lo \<le> f x \<and> f x \<le> hi) xs = drop s (take e xs)"
    and "filter (\<lambda>x. hi < f x) xs = drop e xs"
proof -
  have "filter (\<lambda>x. \<not> f x < lo) (take e xs) = drop s (take e xs)"
    using assms(1) by (intro filter_prefix) simp
  then show "filter (\<lambda>x. lo \<le> f x \<and> f x \<le> hi) xs = drop s (take e xs)"
    by (simp add: filter_prefix(1) [OF assms(2), symmetric] not_less conj_commute)
  show "filter (\<lambda>x. hi < f x) xs = drop e xs"
    using filter_prefix(2) [OF assms(2)] by (simp add: not_le)
qed

text \<open>C30: For sorted events with distinct times, \<^verbatim>\<open>get_events(start, end)\<close> returns the events between
  the two ends, both included, and one more: the first event after \<^verbatim>\<open>end\<close>, unless some event is
  at \<^verbatim>\<open>end\<close> itself.\<close>

theorem get_events_correct:
  assumes "distinct (map at_time es)" "lo \<le> hi"
  shows "get_events (sort_cmp events_cmp es) lo hi =
    filter (\<lambda>e. lo \<le> at_time e \<and> at_time e \<le> hi) (sort_cmp events_cmp es)
    @ (if hi \<in> at_time ` set es then []
       else take 1 (filter (\<lambda>e. hi < at_time e) (sort_cmp events_cmp es)))"
proof -
  define xs where "xs = sort_cmp events_cmp es"
  have len: "length xs = length es" and set: "set xs = set es" by (simp_all add: xs_def sort_events)
  note strict = sorted_events_strict [OF assms(1), folded xs_def len]
  obtain s where s: "event_search xs lo = int s" "s \<le> length xs"
      "\<forall>i < length xs. i < s \<longleftrightarrow> at_time (xs ! i) < lo"
    using event_search_earlier [OF assms(1)] unfolding xs_def by blast
  obtain e where e: "event_search xs hi = int e" "e \<le> length xs"
      "\<forall>i < length xs. i < e \<longleftrightarrow> at_time (xs ! i) < hi"
    using event_search_earlier [OF assms(1)] unfolding xs_def by blast
  have "s \<le> e"
  proof (rule ccontr)
    assume "\<not> s \<le> e"
    then have "e < s" "e < length xs" using s(2) by simp_all
    then have "at_time (xs ! e) < lo" "\<not> at_time (xs ! e) < hi"
      using s(3) [rule_format, of e] e(3) [rule_format, of e] by simp_all
    then show False using assms(2) by simp
  qed
  have slice: "get_events xs lo hi = drop s (take (e + 1) xs)"
    using s(2) e(2) py_slice_nat [of xs s "e + 1"] by (simp add: get_events_def s(1) e(1) min_def add.commute)
  show ?thesis
  proof (cases "hi \<in> at_time ` set es")
    case True
    then obtain j where j: "j < length xs" "at_time (xs ! j) = hi"
      using set by (metis imageE in_set_conv_nth)
    have "j = e"
      using j e(3) strict [of e j] by (metis linorder_neqE_nat less_irrefl order.strict_trans)
    then have "\<forall>i < length xs. i < e + 1 \<longleftrightarrow> at_time (xs ! i) \<le> hi"
      using j e(3) strict [of e] by (metis less_Suc_eq Suc_eq_plus1 order_le_less not_le linorder_neqE_nat)
    then show ?thesis
      using True slice filter_window(1) [OF s(3)] by (simp add: xs_def)
  next
    case False
    then have "\<forall>i < length xs. i < e \<longleftrightarrow> at_time (xs ! i) \<le> hi"
      using e(3) set by (metis image_eqI nth_mem order_le_less)
    note window = filter_window [OF s(3) this]
    have "take (e + 1) xs = take e xs @ take 1 (drop e xs)" by (rule take_add)
    then show ?thesis
      using False slice \<open>s \<le> e\<close> e(2) by (simp add: window xs_def [symmetric])
  qed
qed

theorem get_events_correct_witness:
  "get_events (sort_cmp events_cmp
     [\<lparr>at_time = 7, ev_value = ''c''\<rparr>, \<lparr>at_time = 1, ev_value = ''a''\<rparr>, \<lparr>at_time = 3, ev_value = ''b''\<rparr>]) 1 2
   = [\<lparr>at_time = 1, ev_value = ''a''\<rparr>, \<lparr>at_time = 3, ev_value = ''b''\<rparr>]"
  by (subst get_events_correct) (simp_all add: sort_cmp_def events_cmp_def)

section \<open>Ranges\<close>

definition disjoint_ranges :: "data_range list \<Rightarrow> bool" where
  "disjoint_ranges rs \<longleftrightarrow> sorted_wrt (\<lambda>a b. end_of a < start b) rs \<and> (\<forall>r \<in> set rs. start r \<le> end_of r)"

definition covers :: "rat \<Rightarrow> data_range \<Rightarrow> bool" where
  "covers key r \<longleftrightarrow> start r \<le> key \<and> key \<le> end_of r"

lemma disjoint_rangesD:
  assumes "disjoint_ranges rs"
  shows "i < length rs \<Longrightarrow> start (rs ! i) \<le> end_of (rs ! i)"
    and "i < j \<Longrightarrow> j < length rs \<Longrightarrow> end_of (rs ! i) < start (rs ! j)"
  using assms by (auto simp: disjoint_ranges_def sorted_wrt_iff_nth_less)

lemma ranges_monotone:
  assumes "disjoint_ranges rs"
  shows "monotone_probe (range_probe rs key) (length rs)"
proof
  fix i j assume ij: "i \<le> j" "j < length rs"
  show "sgn (range_probe rs key j) \<le> sgn (range_probe rs key i)"
  proof (cases "i = j")
    case False
    then have "end_of (rs ! i) < start (rs ! j)" "start (rs ! i) \<le> end_of (rs ! i)"
      using disjoint_rangesD [OF assms] ij by auto
    then show ?thesis by (auto simp: range_probe_def)
  qed simp
qed

lemma range_probe_zero: "range_probe rs key i = 0 \<longleftrightarrow> covers key (rs ! i)"
  by (auto simp: range_probe_def covers_def)

lemma range_search_cases:
  assumes "disjoint_ranges rs"
  obtains (none) "range_search rs key = - 1" "\<forall>r \<in> set rs. \<not> covers key r"
  | (one) k where "range_search rs key = int k" "k < length rs" "covers key (rs ! k)"
proof (cases rule: monotone_probe.search_cases [OF ranges_monotone [OF assms, of key]])
  case (1 k)
  then show thesis using one [of k] by (simp add: range_search_def range_probe_zero)
next
  case (2 k)
  have "\<not> covers key (rs ! i)" if "i < length rs" for i
    using 2(3,4) that range_probe_zero [of rs key i] by (metis less_irrefl not_less)
  then have "\<forall>r \<in> set rs. \<not> covers key r" by (auto simp: in_set_conv_nth)
  then show thesis using none 2(1) by (simp add: range_search_def)
qed

text \<open>The ranges from the one that holds \<open>lo\<close>, and up to the one that holds \<open>hi\<close>.\<close>

lemma from_covering:
  assumes "disjoint_ranges rs" "k < length rs" "covers lo (rs ! k)"
  shows "\<forall>i < length rs. i < k \<longleftrightarrow> end_of (rs ! i) < lo"
proof (intro allI impI)
  fix i assume i: "i < length rs"
  show "i < k \<longleftrightarrow> end_of (rs ! i) < lo"
    using disjoint_rangesD(2) [OF assms(1), of i k] disjoint_rangesD(2) [OF assms(1), of k i]
      disjoint_rangesD(1) [OF assms(1) i] assms(2,3) i unfolding covers_def
    by (cases i k rule: linorder_cases) simp_all
qed

lemma up_to_covering:
  assumes "disjoint_ranges rs" "k < length rs" "covers hi (rs ! k)"
  shows "\<forall>i < length rs. i < k + 1 \<longleftrightarrow> start (rs ! i) \<le> hi"
proof (intro allI impI)
  fix i assume i: "i < length rs"
  show "i < k + 1 \<longleftrightarrow> start (rs ! i) \<le> hi"
    using disjoint_rangesD(2) [OF assms(1), of i k] disjoint_rangesD(2) [OF assms(1), of k i]
      disjoint_rangesD(1) [OF assms(1) i] assms(2,3) i unfolding covers_def
    by (cases i k rule: linorder_cases) simp_all
qed

text \<open>For sorted ranges that do not overlap, \<^verbatim>\<open>get_ranges(start, end)\<close> is exactly this: nothing when
  neither end lies inside a range; otherwise the ranges that do not end before \<^verbatim>\<open>start\<close>, where
  \<^verbatim>\<open>start\<close> lies in a range, and do not begin after \<^verbatim>\<open>end\<close>, where \<^verbatim>\<open>end\<close> lies in one. So a window that
  starts and ends in gaps shows no range at all, and one with a single end in a gap is open on
  that side.\<close>

theorem get_ranges_exact:
  assumes "disjoint_ranges rs"
  shows "get_ranges rs lo hi =
    (let in_lo = \<exists>r \<in> set rs. covers lo r; in_hi = \<exists>r \<in> set rs. covers hi r
     in if \<not> in_lo \<and> \<not> in_hi then []
        else filter (\<lambda>r. (in_lo \<longrightarrow> lo \<le> end_of r) \<and> (in_hi \<longrightarrow> start r \<le> hi)) rs)"
proof (cases rule: range_search_cases [OF assms, of lo])
  case 1
  note lo = 1
  show ?thesis
  proof (cases rule: range_search_cases [OF assms, of hi])
    case 1
    then show ?thesis using lo by (simp add: get_ranges_def)
  next
    case (2 e)
    then have "filter (\<lambda>r. start r \<le> hi) rs = take (e + 1) rs"
      using filter_prefix(1) [OF up_to_covering [OF assms 2(2,3)]] by simp
    then show ?thesis
      using lo 2 py_slice_nat [of rs 0 "e + 1"] nth_mem [OF 2(2)]
      by (auto simp: get_ranges_def Let_def add.commute min_def)
  qed
next
  case one: (2 s)
  have from_lo: "filter (\<lambda>r. lo \<le> end_of r) (take e rs) = drop s (take e rs)" for e
    using filter_prefix(2) [of "take e rs" s "\<lambda>r. end_of r < lo"] from_covering [OF assms one(2,3)]
    by (simp add: not_less)
  show ?thesis
  proof (cases rule: range_search_cases [OF assms, of hi])
    case 1
    then show ?thesis
      using one py_slice_nat [of rs s "length rs"] nth_mem [OF one(2)] from_lo [of "length rs"]
      by (auto simp: get_ranges_def Let_def)
  next
    case hi: (2 e)
    then have "filter (\<lambda>r. lo \<le> end_of r \<and> start r \<le> hi) rs = drop s (take (e + 1) rs)"
      using filter_prefix(1) [OF up_to_covering [OF assms hi(2,3)], symmetric] from_lo [of "e + 1"]
      by (simp add: conj_commute)
    moreover have "\<exists>r \<in> set rs. covers lo r" "\<exists>r \<in> set rs. covers hi r"
      using nth_mem [OF one(2)] nth_mem [OF hi(2)] one(3) hi(3) by auto
    ultimately show ?thesis
      using one hi py_slice_nat [of rs s "e + 1"] by (simp add: get_ranges_def Let_def add.commute min_def)
  qed
qed

theorem get_ranges_exact_witness:
  "get_ranges [\<lparr>start = 2, end_of = 4, value_of = ''a''\<rparr>, \<lparr>start = 6, end_of = 8, value_of = ''b''\<rparr>] 1 9 = []
   \<and> get_ranges [\<lparr>start = 2, end_of = 4, value_of = ''a''\<rparr>, \<lparr>start = 6, end_of = 8, value_of = ''b''\<rparr>] 3 5
     = [\<lparr>start = 2, end_of = 4, value_of = ''a''\<rparr>, \<lparr>start = 6, end_of = 8, value_of = ''b''\<rparr>]"
  by (subst (1 2) get_ranges_exact) (simp_all add: disjoint_ranges_def covers_def Let_def)

section \<open>Bounds\<close>

lemma fold_widen:
  fixes f :: "'a \<Rightarrow> rat \<times> rat"
  shows "fst (fold (\<lambda>x. widen (f x)) xs acc) \<le> fst acc \<and> snd acc \<le> snd (fold (\<lambda>x. widen (f x)) xs acc)
    \<and> (\<forall>x \<in> set xs. fst (fold (\<lambda>x. widen (f x)) xs acc) \<le> fst (f x)
                    \<and> snd (f x) \<le> snd (fold (\<lambda>x. widen (f x)) xs acc))"
proof (induction xs arbitrary: acc)
  case (Cons x xs)
  have "fst (widen (f x) acc) \<le> fst (f x)" "fst (widen (f x) acc) \<le> fst acc"
    "snd (f x) \<le> snd (widen (f x) acc)" "snd acc \<le> snd (widen (f x) acc)"
    by (auto simp: widen_def Let_def)
  then show ?case using Cons.IH [of "widen (f x) acc"] by fastforce
qed simp

lemma events_bounds_enclose:
  assumes "e \<in> set (sort_cmp events_cmp es)"
  shows "fst (events_bounds (sort_cmp events_cmp es)) \<le> at_time e
    \<and> at_time e \<le> snd (events_bounds (sort_cmp events_cmp es))"
proof -
  obtain i where i: "i < length es" "e = sort_key at_time es ! i"
    using assms by (metis sort_events in_set_conv_nth length_sort)
  have "at_time (sort_key at_time es ! j) \<le> at_time (sort_key at_time es ! k)" if "j \<le> k" "k < length es" for j k
    using sorted_nth_mono [OF sorted_sort_key [of at_time es], of j k] that by simp
  from this [of 0 i] this [of i "length es - 1"]
  have "at_time (sort_key at_time es ! 0) \<le> at_time e" "at_time e \<le> at_time (sort_key at_time es ! (length es - 1))"
    using i by auto
  moreover have "sort_key at_time es \<noteq> []" using i by (metis length_sort list.size(3) not_less_zero)
  ultimately show ?thesis using i(1) by (auto simp: events_bounds_def sort_events last_conv_nth)
qed

lemma ranges_bounds_enclose:
  assumes "disjoint_ranges rs" "r \<in> set rs"
  shows "fst (ranges_bounds rs) \<le> start r \<and> end_of r \<le> snd (ranges_bounds rs)"
proof -
  obtain i where i: "i < length rs" "r = rs ! i" using assms(2) by (auto simp: in_set_conv_nth)
  have "start (rs ! 0) \<le> start (rs ! i)"
    using disjoint_rangesD [OF assms(1), of 0] i by (cases "i = 0") (force, metis gr_zeroI less_le_trans order.strict_trans1 order_less_imp_le not_less_iff_gr_or_eq)
  moreover have "end_of (rs ! i) \<le> end_of (rs ! (length rs - 1))"
  proof (cases "i = length rs - 1")
    case False
    then have "i < length rs - 1" "length rs - 1 < length rs" using i(1) by linarith+
    then show ?thesis
      using disjoint_rangesD(2) [OF assms(1)] disjoint_rangesD(1) [OF assms(1)]
      by (meson order.strict_trans1 order_less_imp_le order.strict_trans2)
  qed simp
  ultimately show ?thesis using i by (auto simp: ranges_bounds_def)
qed

text \<open>The items of a timeline with the span of time they take.\<close>

definition item_spans :: "timeline \<Rightarrow> (rat \<times> rat) set" where
  "item_spans t =
     (\<Union>l \<in> set (t_ranges t). (\<lambda>r. (start r, end_of r)) ` set (ranges l))
     \<union> (\<Union>l \<in> set (t_event_str t). (\<lambda>e. (at_time e, at_time e)) ` set (events l))
     \<union> (\<Union>l \<in> set (t_event_int t). (\<lambda>e. (at_time e, at_time e)) ` set (events l))"

lemma timeline_bounds_enclose:
  assumes "t' = timeline_sort t" "\<forall>l \<in> set (t_ranges t'). disjoint_ranges (ranges l)" "(a, b) \<in> item_spans t'"
  shows "fst (timeline_bounds t') \<le> a \<and> b \<le> snd (timeline_bounds t')"
proof -
  define R where "R = fold (\<lambda>l. widen (ranges_bounds (ranges l))) (t_ranges t') (0, 0)"
  define S where "S = fold (\<lambda>l. widen (events_bounds (events l))) (t_event_str t') R"
  have B: "timeline_bounds t' = fold (\<lambda>l. widen (events_bounds (events l))) (t_event_int t') S"
    by (simp add: timeline_bounds_def R_def S_def)
  have sorted: "\<forall>l \<in> set (t_event_int t'). \<exists>es. events l = sort_cmp events_cmp es"
    "\<forall>l \<in> set (t_event_str t'). \<exists>es. events l = sort_cmp events_cmp es"
    using assms(1) by (auto simp: timeline_sort_def)
  note R = fold_widen [of "\<lambda>l. ranges_bounds (ranges l)" "t_ranges t'" "(0, 0)", folded R_def]
  note S = fold_widen [of "\<lambda>l. events_bounds (events l)" "t_event_str t'" R, folded S_def]
  note T = fold_widen [of "\<lambda>l. events_bounds (events l)" "t_event_int t'" S, folded B]
  consider l r where "l \<in> set (t_ranges t')" "r \<in> set (ranges l)" "a = start r" "b = end_of r"
    | l e where "l \<in> set (t_event_str t')" "e \<in> set (events l)" "a = at_time e" "b = at_time e"
    | l e where "l \<in> set (t_event_int t')" "e \<in> set (events l)" "a = at_time e" "b = at_time e"
    using assms(3) by (auto simp: item_spans_def)
  then show ?thesis
  proof cases
    case (1 l r)
    then have "fst (ranges_bounds (ranges l)) \<le> a \<and> b \<le> snd (ranges_bounds (ranges l))"
      using ranges_bounds_enclose assms(2) by blast
    then show ?thesis using R S T 1(1) by fastforce
  next
    case (2 l e)
    then have "fst (events_bounds (events l)) \<le> a \<and> b \<le> snd (events_bounds (events l))"
      using events_bounds_enclose sorted(2) by metis
    then show ?thesis using S T 2(1) by fastforce
  next
    case (3 l e)
    then have "fst (events_bounds (events l)) \<le> a \<and> b \<le> snd (events_bounds (events l))"
      using events_bounds_enclose sorted(1) by metis
    then show ?thesis using T 3(1) by fastforce
  qed
qed

text \<open>Whatever the data file holds: when the ranges of each line do not overlap, the bounds the
  viewer computes for all timelines enclose every range and every event, and the origin.\<close>

theorem data_bounds_enclose:
  assumes "read_data content = (cs, ts)"
    and "\<forall>t \<in> set ts. \<forall>l \<in> set (t_ranges t). disjoint_ranges (ranges l)"
    and "t \<in> set ts" "(a, b) \<in> item_spans t"
  shows "fst (timelines_bounds ts) \<le> min 0 a \<and> max 0 b \<le> snd (timelines_bounds ts)"
proof -
  obtain u where u: "t = timeline_sort u"
    using assms(1,3) by (auto simp: read_data_def split: prod.splits)
  have "fst (timeline_bounds t) \<le> a \<and> b \<le> snd (timeline_bounds t)"
    using timeline_bounds_enclose [OF u] assms(2-4) by blast
  then show ?thesis
    using fold_widen [of timeline_bounds ts "(0, 0)"] assms(3) by (fastforce simp: timelines_bounds_def)
qed

theorem data_bounds_enclose_witness:
  "let ts = snd (read_data (''range a tx on 5 7'' @ [CHR 0x0A] @ ''event-str b rx ok 9'')) in
     fst (timelines_bounds ts) \<le> min 0 5 \<and> max 0 7 \<le> snd (timelines_bounds ts)"
proof -
  define content where "content = ''range a tx on 5 7'' @ [CHR 0x0A] @ ''event-str b rx ok 9''"
  define t where "t = \<lparr>tname = ''a'', t_ranges = [\<lparr>rname = ''tx'', ranges = [\<lparr>start = 5, end_of = 7, value_of = ''on''\<rparr>]\<rparr>],
    t_event_str = [], t_event_int = []\<rparr>"
  define u where "u = \<lparr>tname = ''b'', t_ranges = [],
    t_event_str = [\<lparr>ename = ''rx'', events = [\<lparr>at_time = 9, ev_value = ''ok''\<rparr>]\<rparr>], t_event_int = []\<rparr>"
  have read: "read_data content = (new_colors, [t, u])"
    unfolding content_def t_def u_def by code_simp
  have "fst (timelines_bounds [t, u]) \<le> min 0 5 \<and> max 0 7 \<le> snd (timelines_bounds [t, u])"
    by (rule data_bounds_enclose [OF read]) (auto simp: t_def u_def disjoint_ranges_def item_spans_def)
  then show ?thesis unfolding content_def [symmetric] read Let_def snd_conv .
qed

section \<open>Default colours\<close>

lemma color_lookup_cases:
  obtains (known) c where "map_of (named_colors cs) n = Some c" "color_lookup n cs = Inr (c, cs)"
  | (out) "map_of (named_colors cs) n = None" "default_colors cs = []" "color_lookup n cs = Inl IndexError"
  | (fresh) c ds where "map_of (named_colors cs) n = None" "default_colors cs = ds @ [c]"
      "color_lookup n cs = Inr (c, \<lparr>named_colors = AList.update n c (named_colors cs), default_colors = ds\<rparr>)"
  by (cases "map_of (named_colors cs) n"; cases "default_colors cs" rule: rev_cases)
    (auto simp: color_lookup_def color_add_def Let_def)

text \<open>Looking up a colour for each legend succeeds exactly when the names without a colour of their
  own do not outnumber the default colours that are left (six at the start); otherwise it stops
  with \<^verbatim>\<open>IndexError\<close>. On success there is a colour for every legend, and colours given in the
  file are kept.\<close>

theorem lookup_all_exhausts:
  "case lookup_all ns cs of
     Inr (l, cs') \<Rightarrow>
       card (set ns - dom (map_of (named_colors cs))) \<le> length (default_colors cs)
       \<and> map_of (named_colors cs) \<subseteq>\<^sub>m map_of (named_colors cs')
       \<and> map Some l = map (map_of (named_colors cs')) ns
   | Inl e \<Rightarrow>
       length (default_colors cs) < card (set ns - dom (map_of (named_colors cs))) \<and> e = IndexError"
proof (induction ns arbitrary: cs)
  case (Cons n ns)
  show ?case
  proof (cases rule: color_lookup_cases [of cs n])
    case (known c)
    then have "set (n # ns) - dom (map_of (named_colors cs)) = set ns - dom (map_of (named_colors cs))"
      by auto
    then show ?thesis
      using Cons.IH [of cs] known by (auto split: sum.splits prod.splits) (metis map_le_def domI)
  next
    case out
    then have "n \<in> set (n # ns) - dom (map_of (named_colors cs))" by auto
    then have "0 < card (set (n # ns) - dom (map_of (named_colors cs)))"
      by (intro card_gt_0_iff [THEN iffD2]) auto
    then show ?thesis using out by simp
  next
    case (fresh c ds)
    define cs' where "cs' = \<lparr>named_colors = AList.update n c (named_colors cs), default_colors = ds\<rparr>"
    have upd: "map_of (named_colors cs') = (map_of (named_colors cs))(n \<mapsto> c)" "default_colors cs' = ds"
      by (simp_all add: cs'_def update_conv)
    have "set (n # ns) - dom (map_of (named_colors cs))
        = insert n (set ns - dom (map_of (named_colors cs')))"
      using fresh(1) by (auto simp: upd domIff)
    moreover have "n \<notin> set ns - dom (map_of (named_colors cs'))" by (simp add: upd)
    ultimately have card: "card (set (n # ns) - dom (map_of (named_colors cs)))
        = Suc (card (set ns - dom (map_of (named_colors cs'))))"
      by simp
    have le: "map_of (named_colors cs) \<subseteq>\<^sub>m map_of (named_colors cs')"
      using fresh(1) by (auto simp: upd map_le_def)
    show ?thesis
      using Cons.IH [of cs'] fresh(2,3) card le map_le_trans [OF le]
      by (auto simp: cs'_def [symmetric] split: sum.splits prod.splits) (auto simp: upd map_le_def)
  qed
qed simp

end
