(* ===== verification/Timeline_View.thy ===== *)
theory Timeline_View
  imports Timelines Py_Numbers
begin

text \<open>
  \<^verbatim>\<open>utils/grid.py\<close>, part 2: layout and drawing of the timeline viewer.

  Drawing is the sequence of calls on the Cairo context (\<open>cairo\<close>). The extents of a text come from
  Cairo, they are the parameter \<open>ext\<close> of every definition that measures text. Numbers are exact
  rationals; \<^verbatim>\<open>int\<close> truncates towards zero. Attributes that the initializers leave unset and
  \<^verbatim>\<open>main\<close> sets before they are read start as zero.
\<close>

section \<open>Drawing\<close>

record extents =
  y_bearing :: rat
  t_width :: rat
  t_height :: rat

datatype cairo =
    Rectangle rat rat rat rat | Move_to rat rat | Line_to rat rat | Rel_line_to rat rat | Close_path
  | Set_rgb rat rat rat | Line_width rat | Set_dash "rat list" rat | Operator_source
  | Stroke | Stroke_preserve | Fill | Show_text string
  | Save | Restore | Translate rat rat | Clip | Source_surface "cairo list" | Paint

type_synonym 'a drawing = "(cairo list \<times> 'a) res"

definition draws :: "cairo list \<Rightarrow> 'a \<Rightarrow> 'a drawing" where
  "draws cs x = Inr (cs, x)"

definition draw_then :: "'a drawing \<Rightarrow> ('a \<Rightarrow> 'b drawing) \<Rightarrow> 'b drawing" where
  "draw_then d f = res_bind d (\<lambda>(cs, a). res_bind (f a) (\<lambda>(ds, b). Inr (cs @ ds, b)))"

fun draw_each :: "('a \<Rightarrow> 's \<Rightarrow> 's drawing) \<Rightarrow> 'a list \<Rightarrow> 's \<Rightarrow> 's drawing" where
  "draw_each f [] s = draws [] s"
| "draw_each f (x # xs) s = draw_then (f x s) (draw_each f xs)"

definition black :: cairo where
  "black = Set_rgb 0 0 0"

definition grey :: cairo where
  "grey = Set_rgb (9 / 10) (9 / 10) (9 / 10)"

definition rgb_of :: "color \<Rightarrow> cairo" where
  "rgb_of c = Set_rgb (red c) (green c) (blue c)"

section \<open>The legend\<close>

record legend =
  lg_padding :: rat
  lg_legends :: "string list"
  lg_colors :: "color list"
  lg_width :: rat
  lg_height :: rat

text \<open>The loop state of \<^verbatim>\<open>layout\<close> and \<^verbatim>\<open>draw\<close>: \<open>(line_height, total_height, line_used)\<close>.\<close>

definition item_width :: "rat \<Rightarrow> extents \<Rightarrow> rat" where
  "item_width pad e = pad + pad + t_width e + pad"

definition legend_step :: "rat \<Rightarrow> rat \<Rightarrow> extents \<Rightarrow> rat \<times> rat \<times> rat \<Rightarrow> rat \<times> rat \<times> rat" where
  "legend_step pad width e = (\<lambda>(line_height, total_height, line_used).
     let item_height = t_height e + pad;
         line_height = (if item_height > line_height then item_height else line_height)
     in if line_used + item_width pad e > width
        then (line_height, total_height + line_height, pad + item_width pad e)
        else (line_height, total_height, line_used + item_width pad e))"

definition legend_layout :: "(string \<Rightarrow> extents) \<Rightarrow> rat \<Rightarrow> legend \<Rightarrow> legend" where
  "legend_layout ext width lg =
     (let pad = lg_padding lg;
          (line_height, total_height, line_used) =
            fold (\<lambda>l. legend_step pad width (ext l)) (lg_legends lg) (0, pad, pad)
      in lg\<lparr>lg_width := width, lg_height := total_height + line_height\<rparr>)"

fun legend_items ::
  "(string \<Rightarrow> extents) \<Rightarrow> rat \<Rightarrow> rat \<Rightarrow> color list \<Rightarrow> nat \<Rightarrow> string list \<Rightarrow> rat \<times> rat \<times> rat \<Rightarrow> unit drawing" where
  "legend_items ext pad width cols i [] s = draws [] ()"
| "legend_items ext pad width cols i (l # ls) s =
     (let e = ext l; s' = legend_step pad width e s; total_height = fst (snd s');
          x = snd (snd s') - item_width pad e
      in res_bind (py_index cols (int i)) (\<lambda>c.
           draw_then (draws
             [Rectangle x total_height pad pad, black, Line_width 2, Stroke_preserve, rgb_of c, Fill,
              Move_to (x + pad * 2) (total_height + t_height e), black, Show_text l] ())
             (\<lambda>_. legend_items ext pad width cols (i + 1) ls s')))"

definition legend_draw :: "(string \<Rightarrow> extents) \<Rightarrow> legend \<Rightarrow> unit drawing" where
  "legend_draw ext lg = legend_items ext (lg_padding lg) (lg_width lg) (lg_colors lg) 0 (lg_legends lg)
     (0, lg_padding lg, lg_padding lg)"

section \<open>The timelines\<close>

record data_view =
  dv_padding :: rat
  dv_timelines :: "timeline list"
  dv_colors :: colors
  dv_start :: rat
  dv_end :: rat
  left_width :: rat
  right_width :: rat
  dv_text_height :: rat
  dv_width :: rat
  dv_height :: rat

definition get_data_x_start :: "data_view \<Rightarrow> rat" where
  "get_data_x_start d = dv_padding d / 2 + left_width d + dv_padding d + right_width d + dv_padding d / 2"

definition all_letters :: string where
  "all_letters = ''ABCDEFGHIJKLMNOPQRSTUVWXYZabcedefghijklmnopqrstuvwxyz0123456789''"

definition max_width :: "(string \<Rightarrow> extents) \<Rightarrow> string list \<Rightarrow> rat \<Rightarrow> rat" where
  "max_width ext names w = fold (\<lambda>n w. max w (t_width (ext n))) names w"

definition line_names :: "timeline \<Rightarrow> string list" where
  "line_names t = map rname (t_ranges t) @ map ename (t_event_int t) @ map ename (t_event_str t)"

definition data_layout :: "(string \<Rightarrow> extents) \<Rightarrow> rat \<Rightarrow> data_view \<Rightarrow> data_view" where
  "data_layout ext width d =
     (let text_height = t_height (ext all_letters); ts = dv_timelines d; pad = dv_padding d;
          left_n_lines = of_nat (length ts);
          range_n = of_nat (sum_list (map (length \<circ> t_ranges) ts));
          eventint_n = of_nat (sum_list (map (length \<circ> t_event_int) ts));
          eventstr_n = of_nat (sum_list (map (length \<circ> t_event_str) ts));
          left_height = left_n_lines * text_height + (left_n_lines - 1) * pad;
          right_n_lines = range_n + eventint_n + eventstr_n;
          right_height = (right_n_lines - 1) * pad + right_n_lines * text_height;
          right_data_height = (eventint_n + eventstr_n) * (text_height + 5) + range_n * 10
            + (right_n_lines - 1) * pad
      in d\<lparr>left_width := max_width ext (map tname ts) 0,
           right_width := max_width ext (concat (map line_names ts)) 0,
           dv_text_height := text_height, dv_width := width,
           dv_height := max (max left_height right_height) right_data_height + pad\<rparr>)"

definition draw_line :: "rat \<Rightarrow> rat \<Rightarrow> rat \<Rightarrow> rat \<Rightarrow> cairo list" where
  "draw_line x y width height =
     [Move_to x y, Rel_line_to width height, Close_path, Operator_source, Line_width 1, black, Stroke]"

definition background :: "data_view \<Rightarrow> nat \<Rightarrow> rat \<Rightarrow> rat \<Rightarrow> rat \<Rightarrow> rat \<Rightarrow> cairo list" where
  "background d grey_background x y width height =
     (if grey_background mod 2 = 0
      then [Rectangle x (y - dv_padding d / 2) width (height + dv_padding d), grey, Fill] else [])"

text \<open>The pixel of a time in the window of the data area.\<close>

definition data_pixel :: "data_view \<Rightarrow> rat \<Rightarrow> rat \<Rightarrow> rat \<Rightarrow> int res" where
  "data_pixel d x width time =
     res_bind (py_div ((time - dv_start d) * width) (dv_end d - dv_start d)) (\<lambda>q. Inr (py_trunc (x + q)))"

definition draw_event :: "data_view \<Rightarrow> ('v \<Rightarrow> string) \<Rightarrow> rat \<Rightarrow> rat \<Rightarrow> rat \<Rightarrow> 'v event \<Rightarrow> int \<Rightarrow> int drawing" where
  "draw_event d str x y width e last_x_drawn =
     res_bind (data_pixel d x width (at_time e)) (\<lambda>real_x.
       if real_x > last_x_drawn + 2
       then draws [Rectangle (of_int real_x) y 1 1, Set_rgb 1 0 0, Stroke,
                   Move_to (of_int real_x) (y + dv_text_height d), black, Show_text (str (ev_value e))] real_x
       else draws [] last_x_drawn)"

definition draw_events ::
  "data_view \<Rightarrow> ('v \<Rightarrow> string) \<Rightarrow> 'v event_line \<Rightarrow> rat \<Rightarrow> rat \<Rightarrow> rat \<Rightarrow> rat \<Rightarrow> nat \<Rightarrow> nat drawing" where
  "draw_events d str l x y width height grey_background =
     (let (lo, hi) = get_events_bounds (events l) (dv_start d) (dv_end d)
      in draw_then (draws (background d grey_background x y width height) (py_trunc x))
           (\<lambda>last_x. draw_then (draw_each (draw_event d str x y width) (py_slice (events l) lo hi) last_x)
             (\<lambda>_. draws [] (grey_background + 1))))"

definition draw_range :: "data_view \<Rightarrow> rat \<Rightarrow> rat \<Rightarrow> rat \<Rightarrow> data_range \<Rightarrow> int \<times> colors \<Rightarrow> (int \<times> colors) drawing" where
  "draw_range d x y width r = (\<lambda>(last_x_drawn, cols).
     res_bind (data_pixel d x width (max (start r) (dv_start d))) (\<lambda>x_start.
     res_bind (data_pixel d x width (min (end_of r) (dv_end d))) (\<lambda>x_end.
       if x_end > last_x_drawn
       then res_bind (color_lookup (value_of r) cols) (\<lambda>(c, cols').
              draws [Rectangle (of_int x_start) y (of_int (x_end - x_start)) 10, black, Stroke_preserve,
                     rgb_of c, Fill] (x_end, cols'))
       else draws [] (last_x_drawn, cols))))"

definition draw_ranges ::
  "data_view \<Rightarrow> range_line \<Rightarrow> rat \<Rightarrow> rat \<Rightarrow> rat \<Rightarrow> rat \<Rightarrow> nat \<times> colors \<Rightarrow> (nat \<times> colors) drawing" where
  "draw_ranges d l x y width height = (\<lambda>(grey_background, cols).
     let (lo, hi) = get_ranges_bounds (ranges l) (dv_start d) (dv_end d)
     in draw_then (draws (background d grey_background x y width height) (py_trunc (x - 1), cols))
          (\<lambda>s. draw_then (draw_each (draw_range d x y width) (py_slice (ranges l) lo hi) s)
            (\<lambda>(_, cols'). draws [] (grey_background + 1, cols'))))"

text \<open>The loop state of \<^verbatim>\<open>draw\<close>: \<open>(cur_y, grey_background, colours)\<close>. \<open>draw_name\<close> writes the name of
  a line, \<open>close_line\<close> moves on by \<open>step\<close> and draws the line below.\<close>

definition draw_name :: "(string \<Rightarrow> extents) \<Rightarrow> data_view \<Rightarrow> rat \<Rightarrow> rat \<Rightarrow> string \<Rightarrow> cairo list" where
  "draw_name ext d x cur_y n =
     [Move_to x (cur_y + dv_text_height d - (t_height (ext n) + y_bearing (ext n))), Show_text n]"

definition close_line :: "data_view \<Rightarrow> rat \<Rightarrow> rat \<Rightarrow> cairo list" where
  "close_line d right_x_start cur_y =
     draw_line (right_x_start - dv_padding d / 2) (cur_y - dv_padding d / 2) (right_width d + dv_padding d) 0"

definition draw_event_row ::
  "(string \<Rightarrow> extents) \<Rightarrow> data_view \<Rightarrow> ('v \<Rightarrow> string) \<Rightarrow> rat \<Rightarrow> rat \<Rightarrow> 'v event_line
     \<Rightarrow> rat \<times> nat \<times> colors \<Rightarrow> (rat \<times> nat \<times> colors) drawing" where
  "draw_event_row ext d str right_x_start x l = (\<lambda>(cur_y, g, cols).
     let next_y = cur_y + dv_text_height d + 5 + dv_padding d
     in draw_then (draws (draw_name ext d right_x_start cur_y (ename l)) ())
          (\<lambda>_. draw_then (draw_events d str l x cur_y (dv_width d - x) (dv_text_height d + 5) g)
            (\<lambda>g'. draws (close_line d right_x_start next_y) (next_y, g', cols))))"

definition draw_range_row ::
  "(string \<Rightarrow> extents) \<Rightarrow> data_view \<Rightarrow> rat \<Rightarrow> rat \<Rightarrow> range_line
     \<Rightarrow> rat \<times> nat \<times> colors \<Rightarrow> (rat \<times> nat \<times> colors) drawing" where
  "draw_range_row ext d right_x_start x l = (\<lambda>(cur_y, g, cols).
     let next_y = cur_y + dv_text_height d + dv_padding d
     in draw_then (draws (draw_name ext d right_x_start cur_y (rname l)) ())
          (\<lambda>_. draw_then (draw_ranges d l x cur_y (dv_width d - x) 10 (g, cols))
            (\<lambda>(g', cols'). draws (close_line d right_x_start next_y) (next_y, g', cols'))))"

definition draw_timeline ::
  "(string \<Rightarrow> extents) \<Rightarrow> data_view \<Rightarrow> rat \<Rightarrow> rat \<Rightarrow> timeline
     \<Rightarrow> rat \<times> nat \<times> colors \<Rightarrow> (rat \<times> nat \<times> colors) drawing" where
  "draw_timeline ext d right_x_start x t s =
     draw_then (draws (draw_name ext d (dv_padding d / 2) (fst s) (tname t)) s)
       (\<lambda>s. draw_then (draw_each (draw_event_row ext d int_str right_x_start x) (t_event_int t) s)
       (\<lambda>s. draw_then (draw_each (draw_event_row ext d (\<lambda>v. v) right_x_start x) (t_event_str t) s)
       (\<lambda>s. draw_then (draw_each (draw_range_row ext d right_x_start x) (t_ranges t) s)
       (\<lambda>s. draws (draw_line 0 (fst s - dv_padding d / 2) (dv_width d) 0) s))))"

definition data_draw :: "(string \<Rightarrow> extents) \<Rightarrow> data_view \<Rightarrow> data_view drawing" where
  "data_draw ext d =
     (let pad = dv_padding d; left_x_end = pad / 2 + left_width d; right_x_start = left_x_end + pad;
          right_x_end = right_x_start + right_width d; data_x_start = right_x_end + pad / 2
      in draw_then (draws (draw_line 0 0 (dv_width d) 0) (pad / 2, 1, dv_colors d))
           (\<lambda>s. draw_then (draw_each (draw_timeline ext d right_x_start data_x_start) (dv_timelines d) s)
           (\<lambda>(cur_y, g, cols).
              draws (draw_line (left_x_end + pad / 2) 0 0 (cur_y - pad / 2)
                     @ draw_line (right_x_end + pad / 2) 0 0 (cur_y - pad / 2))
                (d\<lparr>dv_colors := cols\<rparr>))))"

section \<open>The scales\<close>

record scale =
  sc_top :: bool
  sc_lo :: rat
  sc_hi :: rat
  sc_delta :: rat
  sc_width :: rat
  sc_text_height :: rat
  sc_height :: rat

definition new_scale :: "bool \<Rightarrow> scale" where
  "new_scale on_top = \<lparr>sc_top = on_top, sc_lo = 0, sc_hi = 0, sc_delta = 0, sc_width = 0,
     sc_text_height = 0, sc_height = 0\<rparr>"

definition set_bounds :: "rat \<Rightarrow> rat \<Rightarrow> scale \<Rightarrow> scale" where
  "set_bounds lo hi s = s\<lparr>sc_lo := lo, sc_hi := hi\<rparr>"

definition get_position :: "scale \<Rightarrow> rat \<Rightarrow> rat res" where
  "get_position s x = py_div ((x - sc_lo s) * sc_width s) (sc_hi s - sc_lo s)"

text \<open>The loop multiplies \<open>closest\<close> by ten until ten times it reaches \<open>data_delta\<close>; it starts at 1,
  so the guard \<open>0 < closest\<close>, which makes the function total, always holds.\<close>

function grow :: "rat \<Rightarrow> int \<Rightarrow> int" where
  "grow data_delta closest =
     (if 0 < closest \<and> of_int (closest * 10) < data_delta then grow data_delta (closest * 10) else closest)"
  by pat_completeness auto
termination
proof (relation "measure (\<lambda>(d, c). nat (\<lceil>d\<rceil> - c))")
  fix d :: rat and c :: int
  assume "0 < c \<and> of_int (c * 10) < d"
  then have "c * 10 < \<lceil>d\<rceil>" "0 < c" by (simp_all add: less_ceiling_iff)
  then show "((d, c * 10), d, c) \<in> measure (\<lambda>(d, c). nat (\<lceil>d\<rceil> - c))" by auto
qed simp

declare grow.simps [simp del]

definition scale_delta :: "rat \<Rightarrow> rat" where
  "scale_delta data_delta =
     (let closest = of_int (grow data_delta 1)
      in if data_delta / closest = 0 then closest
         else if data_delta / closest = 1 then closest / 10 else closest)"

definition scale_layout :: "(string \<Rightarrow> extents) \<Rightarrow> rat \<Rightarrow> scale \<Rightarrow> scale" where
  "scale_layout ext width s =
     s\<lparr>sc_delta := scale_delta (sc_hi s - sc_lo s), sc_width := width,
       sc_text_height := t_height (ext all_letters), sc_height := t_height (ext all_letters) + 10\<rparr>"

definition tick_range :: "scale \<Rightarrow> rat \<Rightarrow> int list res" where
  "tick_range s delta =
     (let first = sc_lo s - py_mod (sc_lo s) delta + delta; last = sc_hi s - py_mod (sc_hi s) delta
      in py_range (py_trunc first) (py_trunc (last + delta)) (py_trunc delta))"

definition draw_tick :: "(string \<Rightarrow> extents) \<Rightarrow> scale \<Rightarrow> rat \<Rightarrow> int \<Rightarrow> unit \<Rightarrow> unit drawing" where
  "draw_tick ext sc s x _ =
     res_bind (get_position sc (of_int x)) (\<lambda>real_x.
       let e = ext (int_str x); text_delta = (if sc_top sc then t_height e + y_bearing e else - y_bearing e)
       in draws [Move_to real_x 0, Line_to real_x (5 * s), Close_path, Stroke,
                 Move_to (real_x - t_width e / 2) ((5 + 5 + text_delta) * s), Show_text (int_str x)] ())"

definition draw_subtick :: "scale \<Rightarrow> rat \<Rightarrow> int \<Rightarrow> unit \<Rightarrow> unit drawing" where
  "draw_subtick sc s x _ =
     res_bind (get_position sc (of_int x)) (\<lambda>real_x.
       draws [Move_to real_x 0, Line_to real_x (3 * s), Close_path, Stroke] ())"

definition scale_draw :: "(string \<Rightarrow> extents) \<Rightarrow> scale \<Rightarrow> unit drawing" where
  "scale_draw ext sc =
     (let s = (if sc_top sc then - 1 else 1); delta = sc_delta sc
      in res_bind (tick_range sc delta) (\<lambda>ticks.
           draw_then (draws [black, Line_width 1] ())
             (\<lambda>_. draw_then (draw_each (draw_tick ext sc s) ticks ())
               (\<lambda>_. if delta / 10 > 0
                     then res_bind (tick_range sc (delta / 10)) (\<lambda>xs. draw_each (draw_subtick sc s) xs ())
                     else draws [] ()))))"

section \<open>The whole picture\<close>

record graphic =
  g_start :: rat
  g_end :: rat
  g_legend :: legend
  g_data :: data_view
  g_mid :: scale
  g_bot :: scale
  g_width :: rat
  g_height :: rat
  r_start :: rat
  r_end :: rat

definition new_graphic :: "rat \<Rightarrow> rat \<Rightarrow> legend \<Rightarrow> data_view \<Rightarrow> graphic" where
  "new_graphic lo hi lg d =
     \<lparr>g_start = lo, g_end = hi, g_legend = lg, g_data = d, g_mid = new_scale True,
      g_bot = set_bounds lo hi (new_scale False), g_width = 1, g_height = 1, r_start = 0, r_end = 0\<rparr>"

definition graphic_layout :: "(string \<Rightarrow> extents) \<Rightarrow> rat \<Rightarrow> rat \<Rightarrow> graphic \<Rightarrow> graphic" where
  "graphic_layout ext width height g =
     (let d = data_layout ext width (g_data g)
      in g\<lparr>g_width := width, g_height := height, g_legend := legend_layout ext width (g_legend g),
           g_data := d, g_mid := scale_layout ext (width - get_data_x_start d) (g_mid g),
           g_bot := scale_layout ext width (g_bot g)\<rparr>)"

definition set_range :: "(string \<Rightarrow> extents) \<Rightarrow> rat \<Rightarrow> rat \<Rightarrow> graphic \<Rightarrow> graphic" where
  "set_range ext a b g =
     (let lo = max (g_start g) (min a b); hi = min (g_end g) (max a b)
      in graphic_layout ext (g_width g) (g_height g)
           (g\<lparr>r_start := lo, r_end := hi, g_data := (g_data g)\<lparr>dv_start := lo, dv_end := hi\<rparr>,
              g_mid := set_bounds lo hi (g_mid g)\<rparr>))"

type_synonym rectangle = "rat \<times> rat \<times> rat \<times> rat"

definition get_data_rectangle :: "graphic \<Rightarrow> rectangle" where
  "get_data_rectangle g =
     (let x = get_data_x_start (g_data g)
      in (x, lg_height (g_legend g), g_width g - x, dv_height (g_data g)))"

definition scale_data :: "graphic \<Rightarrow> rat \<Rightarrow> rat res" where
  "scale_data g x =
     res_bind (py_div x (g_width g - get_data_x_start (g_data g))) (\<lambda>q. Inr (q * (r_end g - r_start g)))"

definition get_selection_rectangle :: "graphic \<Rightarrow> rectangle res" where
  "get_selection_rectangle g =
     res_bind (get_position (g_bot g) (r_start g)) (\<lambda>x_start.
     res_bind (get_position (g_bot g) (r_end g)) (\<lambda>x_end.
       Inr (x_start, lg_height (g_legend g) + dv_height (g_data g) + sc_height (g_mid g) + 20,
            x_end - x_start, sc_height (g_bot g) + 20)))"

definition scale_selection :: "graphic \<Rightarrow> rat \<Rightarrow> rat res" where
  "scale_selection g x = res_bind (py_div x (g_width g)) (\<lambda>q. Inr (q * (g_end g - g_start g)))"

text \<open>The frame: the parts of \<^verbatim>\<open>draw\<close> between the three renderers.\<close>

definition separator :: "rat \<Rightarrow> rat \<Rightarrow> cairo list" where
  "separator w y = [Move_to 0 y, Line_to w y, Close_path, Line_width 2, black, Stroke]"

definition connections :: "graphic \<Rightarrow> rat \<Rightarrow> rat \<Rightarrow> rat \<Rightarrow> cairo list" where
  "connections g y select_start select_end =
     [Move_to 0 y, Line_to (get_data_x_start (g_data g)) y, Line_to select_start (y + 20), Line_to 0 (y + 20),
      Line_to 0 y, black, Line_width 1, Stroke_preserve, grey, Fill,
      Move_to (g_width g) y, Line_to (g_width g) (y + 20), Line_to select_end (y + 20), Line_to (g_width g) y,
      black, Line_width 1, Stroke_preserve, grey, Fill]"

definition selection_frame :: "graphic \<Rightarrow> rat \<Rightarrow> rat \<Rightarrow> rat \<Rightarrow> rat \<Rightarrow> cairo list" where
  "selection_frame g y h unused_start unused_end =
     [Rectangle 0 y unused_start h, Rectangle unused_end y (g_width g - unused_end) h, grey, Fill,
      Move_to unused_end y, Line_to (g_width g) y, Line_to (g_width g) (y + h), Line_to 0 (y + h), Line_to 0 y,
      Line_to unused_start y, Close_path, Line_width 2, black, Stroke,
      Move_to unused_start y, Line_to unused_end y, Close_path, Line_width 1, grey, Stroke,
      Save, Move_to (max unused_start 2) y, Rel_line_to 0 h,
      Move_to (min unused_end (g_width g - 2)) y, Rel_line_to 0 h, Set_dash [5] 0, black, Line_width 1,
      Stroke, Restore]"

definition graphic_draw :: "(string \<Rightarrow> extents) \<Rightarrow> graphic \<Rightarrow> graphic drawing" where
  "graphic_draw ext g =
     (let legend_height = lg_height (g_legend g); x = get_data_x_start (g_data g);
          height_used = legend_height + dv_height (g_data g) + sc_height (g_mid g)
      in draw_then (draws [Save, Set_rgb 1 1 1, Operator_source, Rectangle 0 0 (g_width g) (g_height g), Fill, Save] ())
         (\<lambda>_. draw_then (legend_draw ext (g_legend g))
         (\<lambda>_. draw_then (draws (Restore # separator (g_width g) legend_height @ [Save, Translate 0 legend_height]) ())
         (\<lambda>_. draw_then (data_draw ext (g_data g))
         (\<lambda>d. draw_then (draws [Restore, Save, Translate x height_used] ())
         (\<lambda>_. draw_then (scale_draw ext (g_mid g))
         (\<lambda>_. res_bind (get_position (g_bot g) (r_start g)) (\<lambda>select_start.
              res_bind (get_position (g_bot g) (r_end g)) (\<lambda>select_end.
                draw_then (draws
                  ([Restore, Move_to x height_used, Rel_line_to 0 (- sc_height (g_mid g)), Close_path, black,
                    Line_width 2, Stroke]
                   @ separator (g_width g) height_used
                   @ connections g height_used select_start select_end
                   @ selection_frame g (height_used + 20) (sc_height (g_bot g) + 20) select_start select_end
                   @ [Save, Translate 0 (height_used + 20)]) ())
                (\<lambda>_. draw_then (scale_draw ext (g_bot g))
                (\<lambda>_. draws [Restore] (g\<lparr>g_data := d\<rparr>))))))))))))"

section \<open>Composition of drawings\<close>

lemma draw_then_draws [simp]:
  "draw_then (draws cs a) f = res_bind (f a) (\<lambda>(ds, b). Inr (cs @ ds, b))"
  by (simp add: draw_then_def draws_def)

lemma draw_then_Inl [simp]: "draw_then (Inl e) f = Inl e"
  by (simp add: draw_then_def)

definition completes :: "'a drawing \<Rightarrow> bool" where
  "completes d \<longleftrightarrow> (\<exists>cs x. d = Inr (cs, x))"

lemma completes_draws [simp]: "completes (draws cs x)"
  by (simp add: completes_def draws_def)

lemma completes_thenI:
  assumes "completes d" "\<And>x. completes (f x)"
  shows "completes (draw_then d f)"
proof -
  obtain cs x where d: "d = Inr (cs, x)" using assms(1) by (auto simp: completes_def)
  obtain ds y where "f x = Inr (ds, y)" using assms(2) [of x] by (auto simp: completes_def)
  then show ?thesis using d by (simp add: completes_def draw_then_def res_bind_def)
qed

lemma completes_then_Inl:
  assumes "completes d" "\<And>x. f x = Inl e"
  shows "draw_then d f = Inl e"
  using assms by (auto simp: completes_def draw_then_def res_bind_def)

lemma completes_eachI: "(\<And>x s. x \<in> set xs \<Longrightarrow> completes (f x s)) \<Longrightarrow> completes (draw_each f xs s)"
  by (induction xs arbitrary: s) (auto intro!: completes_thenI)

section \<open>Ticks of the scale\<close>

lemma grow_spec:
  assumes "0 < c"
  shows "c dvd grow d c \<and> c \<le> grow d c
    \<and> (grow d c = c \<and> d \<le> of_int (10 * c) \<or> 10 * c dvd grow d c \<and> of_int (grow d c) < d)"
  using assms
proof (induction d c rule: grow.induct)
  case (1 d c)
  show ?case
  proof (cases "of_int (c * 10) < d")
    case True
    then have "grow d c = grow d (c * 10)" using 1(2) by (simp add: grow.simps [of d c])
    moreover have "c dvd grow d (c * 10)" if "c * 10 dvd grow d (c * 10)"
      using that by (rule dvd_mult_left)
    ultimately show ?thesis
      using 1 True by (auto simp: mult.commute dest: dvd_mult_left)
  next
    case False
    then show ?thesis using 1(2) by (simp add: grow.simps [of d c] mult.commute)
  qed
qed

lemma scale_delta_small: "d \<le> 10 \<Longrightarrow> scale_delta d = (if d = 1 then 1 / 10 else 1)"
  by (simp add: scale_delta_def grow.simps [of d 1])

lemma scale_delta_large:
  assumes "10 < d"
  obtains k where "scale_delta d = of_int (10 * k)" "0 < k"
proof -
  have c: "10 dvd grow d 1" "1 \<le> grow d 1" "of_int (grow d 1) < d"
    using grow_spec [of 1 d] assms by auto
  then obtain k where k: "grow d 1 = 10 * k" by (auto elim: dvdE)
  have "scale_delta d = of_int (grow d 1)"
    using c assms by (simp add: scale_delta_def Let_def divide_eq_eq)
  then show thesis using that [of k] k c(2) by simp
qed

lemma tick_range_zero: "0 \<le> delta \<Longrightarrow> delta < 1 \<Longrightarrow> tick_range s delta = Inl ValueError"
  by (simp add: tick_range_def py_range_def py_trunc_def Let_def floor_eq_iff)

lemma tick_range_int: "0 < k \<Longrightarrow> \<exists>xs. tick_range s (of_int k) = Inr xs"
  by (simp add: tick_range_def py_range_def py_trunc_def Let_def)

lemma completes_tick:
  "sc_lo sc \<noteq> sc_hi sc \<Longrightarrow> completes (draw_tick ext sc s x u)"
  "sc_lo sc \<noteq> sc_hi sc \<Longrightarrow> completes (draw_subtick sc s x u)"
  by (simp_all add: draw_tick_def draw_subtick_def get_position_def py_div_def Let_def)

text \<open>A scale over at most ten units has no tick that could fail before the subticks are computed.\<close>

lemma short_scale_ticks:
  assumes "tick_range sc 1 = Inr xs" "sc_lo sc = sc_hi sc"
  shows "xs = []"
  using assms by (auto simp: tick_range_def py_range_def py_mod_def py_trunc_def Let_def split: if_splits)

text \<open>Once laid out, a scale can be drawn exactly when it spans more than ten units of time; on
  any shorter span the step of its subticks is truncated to zero and \<^verbatim>\<open>range\<close> raises
  \<^verbatim>\<open>ValueError\<close>.\<close>

theorem scale_draw_spans:
  "case scale_draw ext (scale_layout ext width s) of
     Inr _ \<Rightarrow> 10 < sc_hi s - sc_lo s
   | Inl e \<Rightarrow> sc_hi s - sc_lo s \<le> 10 \<and> e = ValueError"
proof -
  define sc where "sc = scale_layout ext width s"
  have sc: "sc_lo sc = sc_lo s" "sc_hi sc = sc_hi s" "sc_delta sc = scale_delta (sc_hi s - sc_lo s)"
    by (simp_all add: sc_def scale_layout_def)
  show ?thesis
  proof (cases "10 < sc_hi s - sc_lo s")
    case True
    then obtain k where k: "sc_delta sc = of_int (10 * k)" "0 < k"
      using scale_delta_large [OF True] sc by metis
    have ne: "sc_lo sc \<noteq> sc_hi sc" using True sc by auto
    obtain xs where xs: "tick_range sc (of_int (10 * k)) = Inr xs" using tick_range_int [of "10 * k"] k by auto
    obtain ys where ys: "tick_range sc (of_int k) = Inr ys" using tick_range_int [of k] k by auto
    have "completes (scale_draw ext sc)"
      using k xs ys ne
      by (auto simp: scale_draw_def Let_def simp del: draw_then_draws intro!: completes_thenI completes_eachI completes_tick)
    then show ?thesis using True by (auto simp: completes_def sc_def)
  next
    case False
    define d where "d = sc_delta sc"
    have d: "d = 1 \<or> d = 1 / 10 \<and> sc_hi s - sc_lo s = 1"
      using scale_delta_small [of "sc_hi s - sc_lo s"] False sc by (auto simp: d_def)
    have sub: "tick_range sc (1 / 10) = Inl ValueError" by (rule tick_range_zero) simp_all
    have "scale_draw ext sc = Inl ValueError"
    proof (cases "d = 1")
      case True
      obtain xs where xs: "tick_range sc 1 = Inr xs" using tick_range_int [of 1 sc] by auto
      have "completes (draw_each (draw_tick ext sc t) xs ())" for t
        using short_scale_ticks [OF xs] completes_tick(1) [of sc]
        by (cases "sc_lo sc = sc_hi sc") (auto intro!: completes_eachI)
      then show ?thesis
        using True xs sub by (simp add: scale_draw_def d_def Let_def completes_then_Inl)
    next
      case False
      then have tenth: "sc_delta sc = 1 / 10" using d by (simp add: d_def)
      show ?thesis unfolding scale_draw_def Let_def tenth by (simp add: sub)
    qed
    then show ?thesis using False by (simp add: sc_def)
  qed
qed

section \<open>Placement of the legend\<close>

lemma legend_step_mono:
  assumes "0 \<le> t_height e" "0 \<le> pad" "legend_step pad width e (lh, th, lu) = (lh', th', lu')" "0 \<le> lh"
  shows "lh \<le> lh' \<and> th \<le> th' \<and> pad \<le> lh'"
  using assms by (auto simp: legend_step_def Let_def split: if_splits)

lemma legend_fold_mono:
  assumes "\<forall>l. 0 \<le> t_height (ext l)" "0 \<le> pad" "0 \<le> lh"
    and "fold (\<lambda>l. legend_step pad width (ext l)) ls (lh, th, lu) = (lh', th', lu')"
  shows "lh \<le> lh' \<and> th \<le> th'"
  using assms(3,4)
proof (induction ls arbitrary: lh th lu)
  case (Cons l ls)
  obtain a b c where s: "legend_step pad width (ext l) (lh, th, lu) = (a, b, c)"
    by (cases "legend_step pad width (ext l) (lh, th, lu)")
  note m = legend_step_mono [OF _ assms(2) s Cons.prems(1)]
  have "a \<le> lh' \<and> b \<le> th'"
    using Cons.IH [of a b c] Cons.prems m assms(1) s by auto
  then show ?case using m assms(1) by fastforce
qed simp

lemma legend_items_inside:
  assumes "\<forall>l. 0 \<le> t_width (ext l) \<and> 0 \<le> t_height (ext l)" "0 \<le> pad" "0 \<le> lh" "pad \<le> th" "pad \<le> lu"
    and "legend_items ext pad width cols i ls (lh, th, lu) = Inr (cs, u)" "Rectangle x y w h \<in> set cs"
    and "fold (\<lambda>l. legend_step pad width (ext l)) ls (lh, th, lu) = (lh', th', lu')"
  shows "pad \<le> x \<and> (x = pad \<or> x + w \<le> width) \<and> pad \<le> y \<and> y + h \<le> th' + lh'"
  using assms(3-8)
proof (induction ls arbitrary: i lh th lu cs)
  case (Cons l ls)
  obtain a b c where s: "legend_step pad width (ext l) (lh, th, lu) = (a, b, c)"
    by (cases "legend_step pad width (ext l) (lh, th, lu)")
  define x0 where "x0 = c - item_width pad (ext l)"
  note m = legend_step_mono [OF _ assms(2) s Cons.prems(1)]
  have iw: "pad \<le> item_width pad (ext l)"
    using assms(1,2) by (simp add: item_width_def add_increasing)
  have x0: "pad \<le> x0 \<and> (x0 = pad \<or> x0 + pad \<le> width) \<and> pad \<le> c"
    using s Cons.prems(3) iw assms(2)
    by (auto simp: legend_step_def Let_def x0_def split: if_splits)
  obtain col ds where rest: "py_index cols (int i) = Inr col"
      "legend_items ext pad width cols (i + 1) ls (a, b, c) = Inr (ds, u)"
      "cs = [Rectangle x0 b pad pad, black, Line_width 2, Stroke_preserve, rgb_of col, Fill,
         Move_to (x0 + pad * 2) (b + t_height (ext l)), black, Show_text l] @ ds"
    using Cons.prems(4) s by (auto simp: x0_def Let_def res_bind_def split: sum.splits)
  have f: "fold (\<lambda>l. legend_step pad width (ext l)) ls (a, b, c) = (lh', th', lu')"
    using Cons.prems(6) s by simp
  consider "Rectangle x y w h = Rectangle x0 b pad pad" | "Rectangle x y w h \<in> set ds"
    using Cons.prems(5) rest(3) by (auto simp: black_def rgb_of_def)
  then show ?case
  proof cases
    case 1
    then show ?thesis
      using x0 m legend_fold_mono [OF _ assms(2) _ f] assms(1) Cons.prems(1,2) by fastforce
  next
    case 2
    show ?thesis
      by (rule Cons.IH [OF _ _ _ rest(2) 2 f]) (use x0 m assms(1) Cons.prems(1,2) in \<open>auto intro: order_trans\<close>)
  qed
qed (simp add: draws_def)

text \<open>With a padding and text extents that are not negative, every box the legend draws after its layout
  lies below and to the right of the padding and ends within the height the layout reserved; it
  ends within the width too, unless it is the first of its line.\<close>

theorem legend_boxes_fit:
  assumes "\<forall>l. 0 \<le> t_width (ext l) \<and> 0 \<le> t_height (ext l)" "0 \<le> lg_padding lg"
    and "legend_draw ext (legend_layout ext width lg) = Inr (cs, u)" "Rectangle x y w h \<in> set cs"
  shows "lg_padding lg \<le> x \<and> (x = lg_padding lg \<or> x + w \<le> width)
    \<and> lg_padding lg \<le> y \<and> y + h \<le> lg_height (legend_layout ext width lg)"
proof -
  define pad where "pad = lg_padding lg"
  obtain a b c where f: "fold (\<lambda>l. legend_step pad width (ext l)) (lg_legends lg) (0, pad, pad) = (a, b, c)"
    by (cases "fold (\<lambda>l. legend_step pad width (ext l)) (lg_legends lg) (0, pad, pad)")
  have lay: "legend_layout ext width lg = lg\<lparr>lg_width := width, lg_height := b + a\<rparr>"
    using f by (simp add: legend_layout_def pad_def)
  have "legend_items ext pad width (lg_colors lg) 0 (lg_legends lg) (0, pad, pad) = Inr (cs, u)"
    using assms(3) by (simp add: legend_draw_def lay pad_def)
  from legend_items_inside [OF assms(1) _ _ _ _ this assms(4) f] show ?thesis
    using assms(2) by (simp add: lay pad_def)
qed

theorem legend_boxes_fit_witness:
  "let ext = \<lambda>s. \<lparr>y_bearing = 0, t_width = of_nat (6 * length s), t_height = 8\<rparr>;
       lg = \<lparr>lg_padding = 10, lg_legends = [''idle'', ''busy''], lg_colors = [rgb 1 0 0, rgb 0 1 0], lg_width = 0, lg_height = 0\<rparr>
   in 10 + 10 \<le> lg_height (legend_layout ext 70 lg)"
proof -
  define ext where "ext = (\<lambda>s :: string. \<lparr>y_bearing = 0, t_width = of_nat (6 * length s), t_height = 8\<rparr>)"
  define lg where "lg = \<lparr>lg_padding = 10, lg_legends = [''idle'', ''busy''],
    lg_colors = [rgb 1 0 0, rgb 0 1 0], lg_width = 0, lg_height = 0\<rparr>"
  obtain cs u where cs: "legend_draw ext (legend_layout ext 70 lg) = Inr (cs, u)" "Rectangle 10 28 10 10 \<in> set cs"
    by (simp add: ext_def lg_def legend_draw_def legend_layout_def legend_step_def item_width_def Let_def
        py_index_def) (simp add: draws_def)
  show ?thesis
    using legend_boxes_fit [OF _ _ cs] by (simp add: ext_def lg_def legend_layout_def legend_step_def item_width_def)
qed

end
