(* ===== verification/Timeline_Widget.thy ===== *)
theory Timeline_Widget
  imports Timeline_View
begin

text \<open>
  \<^verbatim>\<open>utils/grid.py\<close>, part 3: the widget that selects the window of time (\<^verbatim>\<open>GtkGraphicRenderer\<close>), the
  zoom buttons of the main window and \<^verbatim>\<open>main\<close>.

  A callback that raises has already changed the widget; GTK reports the exception and goes on. So
  a callback returns the widget it leaves and the result, an exception or the returned truth
  value. Attributes that a callback may read before any other has set them are options. The
  redraws requested from GTK and the cursor shown are recorded in the state.
\<close>

section \<open>State\<close>

datatype cursor = Double_arrow | Fleur

datatype redraw = Whole | Area int int int int

record widget =
  w_data :: graphic
  moving_left :: bool
  moving_right :: bool
  moving_both :: bool
  moving_top :: bool
  moving_left_cur :: "rat option"
  moving_right_cur :: "rat option"
  moving_both_start :: "rat option"
  moving_both_cur :: "rat option"
  moving_top_start :: "rat option"
  moving_top_cur :: "rat option"
  force_full_redraw :: bool
  w_width :: "rat option"
  w_height :: "rat option"
  buffer_surface :: "cairo list option"
  shown_cursor :: "cursor option"
  queued :: "redraw list"

definition new_widget :: "graphic \<Rightarrow> widget" where
  "new_widget g = \<lparr>w_data = g, moving_left = False, moving_right = False, moving_both = False,
     moving_top = False, moving_left_cur = None, moving_right_cur = None, moving_both_start = None,
     moving_both_cur = None, moving_top_start = None, moving_top_cur = None, force_full_redraw = True,
     w_width = None, w_height = None, buffer_surface = None, shown_cursor = None, queued = []\<rparr>"

type_synonym 'a callback = "widget \<times> 'a res"

text \<open>The value of an expression in a callback, and of an attribute that may be unset.\<close>

definition with_value :: "widget \<Rightarrow> 'a res \<Rightarrow> ('a \<Rightarrow> 'b callback) \<Rightarrow> 'b callback" where
  "with_value w r f = (case r of Inl e \<Rightarrow> (w, Inl e) | Inr x \<Rightarrow> f x)"

definition attr :: "'a option \<Rightarrow> 'a res" where
  "attr a = (case a of None \<Rightarrow> Inl AttributeError | Some x \<Rightarrow> Inr x)"

definition queue_draw :: "widget \<Rightarrow> widget" where
  "queue_draw w = w\<lparr>queued := queued w @ [Whole]\<rparr>"

definition queue_draw_area :: "int \<Rightarrow> int \<Rightarrow> int \<Rightarrow> int \<Rightarrow> widget \<Rightarrow> widget" where
  "queue_draw_area x y width height w = w\<lparr>queued := queued w @ [Area x y width height]\<rparr>"

text \<open>The last three steps of every callback that changes the window.\<close>

definition change_range :: "(string \<Rightarrow> extents) \<Rightarrow> rat \<Rightarrow> rat \<Rightarrow> widget \<Rightarrow> widget" where
  "change_range ext lo hi w =
     queue_draw (w\<lparr>w_data := set_range ext lo hi (w_data w), force_full_redraw := True\<rparr>)"

definition set_smaller_zoom :: "(string \<Rightarrow> extents) \<Rightarrow> widget \<Rightarrow> widget" where
  "set_smaller_zoom ext w =
     (let lo = r_start (w_data w); hi = r_end (w_data w) in change_range ext lo (lo + (hi - lo) * 2) w)"

definition set_bigger_zoom :: "(string \<Rightarrow> extents) \<Rightarrow> widget \<Rightarrow> widget" where
  "set_bigger_zoom ext w =
     (let lo = r_start (w_data w); hi = r_end (w_data w) in change_range ext lo (lo + (hi - lo) / 2) w)"

section \<open>Callbacks\<close>

definition button_press :: "rat \<Rightarrow> rat \<Rightarrow> widget \<Rightarrow> bool callback" where
  "button_press ex ey w =
     with_value w (get_selection_rectangle (w_data w)) (\<lambda>(x, y, width, height).
       let (d_x, d_y, d_width, d_height) = get_data_rectangle (w_data w);
           on_data =
             (if (ey > d_y \<and> ey < d_y + d_height) \<and> ex > d_x \<and> ex < d_x + d_width
              then (w\<lparr>moving_top := True, moving_top_start := Some ex, moving_top_cur := Some ex\<rparr>, Inr True)
              else (w, Inr False))
       in if ey > y \<and> ey < y + height
          then if \<bar>ex - x\<bar> < 5 then (w\<lparr>moving_left := True\<rparr>, Inr True)
               else if \<bar>ex - (x + width)\<bar> < 5 then (w\<lparr>moving_right := True\<rparr>, Inr True)
               else if ex > x \<and> ex < x + width
               then (w\<lparr>moving_both := True, moving_both_start := Some ex, moving_both_cur := Some ex\<rparr>, Inr True)
               else on_data
          else on_data)"

definition button_release :: "(string \<Rightarrow> extents) \<Rightarrow> widget \<Rightarrow> bool callback" where
  "button_release ext w =
     (if moving_left w
      then let w = w\<lparr>moving_left := False\<rparr> in
           with_value w (res_bind (attr (moving_left_cur w)) (scale_selection (w_data w)))
             (\<lambda>left. (change_range ext left (r_end (w_data w)) w, Inr True))
      else if moving_right w
      then let w = w\<lparr>moving_right := False\<rparr> in
           with_value w (res_bind (attr (moving_right_cur w)) (scale_selection (w_data w)))
             (\<lambda>right. (change_range ext (r_start (w_data w)) right w, Inr True))
      else if moving_both w
      then let w = w\<lparr>moving_both := False\<rparr> in
           with_value w (res_bind (attr (moving_both_cur w)) (\<lambda>c. res_bind (attr (moving_both_start w))
                          (\<lambda>s. scale_selection (w_data w) (c - s))))
             (\<lambda>delta. (change_range ext (r_start (w_data w) + delta) (r_end (w_data w) + delta) w, Inr True))
      else if moving_top w then (w\<lparr>moving_top := False\<rparr>, Inr False)
      else (w, Inr False))"

text \<open>The redraw of the selection area after a motion.\<close>

definition selection_moved :: "rat \<Rightarrow> rat \<Rightarrow> widget \<Rightarrow> bool callback" where
  "selection_moved y height w =
     with_value w (attr (w_width w)) (\<lambda>width.
       (queue_draw_area 0 (py_trunc y) (py_trunc width) (py_trunc height) w, Inr True))"

definition show_cursor :: "rectangle \<Rightarrow> rat \<Rightarrow> rat \<Rightarrow> widget \<Rightarrow> bool callback" where
  "show_cursor sel ex ey w =
     (let (x, y, width, height) = sel; (d_x, d_y, d_width, d_height) = get_data_rectangle (w_data w);
          on_data =
            (if (ey > d_y \<and> ey < d_y + d_height) \<and> ex > d_x \<and> ex < d_x + d_width
             then (w\<lparr>shown_cursor := Some Fleur\<rparr>, Inr True) else (w\<lparr>shown_cursor := None\<rparr>, Inr False))
      in if ey > y \<and> ey < y + height
         then if \<bar>ex - x\<bar> < 5 \<or> \<bar>ex - (x + width)\<bar> < 5 then (w\<lparr>shown_cursor := Some Double_arrow\<rparr>, Inr True)
              else if ex > x \<and> ex < x + width then (w\<lparr>shown_cursor := Some Fleur\<rparr>, Inr True)
              else on_data
         else on_data)"

text \<open>At the right edge the code assigns the width to \<^verbatim>\<open>__moving_right\<close>, the flag, and not to
  \<^verbatim>\<open>__moving_right_cur\<close>; as a truth value the flag is then whether the width is not zero.\<close>

definition motion_in :: "(string \<Rightarrow> extents) \<Rightarrow> rectangle \<Rightarrow> rat \<Rightarrow> rat \<Rightarrow> widget \<Rightarrow> bool callback" where
  "motion_in ext sel ex ey w =
     (case sel of (x, y, width, height) \<Rightarrow>
       if moving_left w
       then selection_moved y height (w\<lparr>moving_left_cur :=
              Some (if ex \<le> 0 then 0 else if ex \<ge> x + width then x + width else ex)\<rparr>)
       else if moving_right w
       then with_value w (attr (w_width w)) (\<lambda>ww.
              selection_moved y height
                (if ex \<ge> ww then w\<lparr>moving_right := (ww \<noteq> 0)\<rparr>
                 else w\<lparr>moving_right_cur := Some (if ex < x then x else ex)\<rparr>))
       else if moving_both w
       then with_value w (attr (w_width w)) (\<lambda>ww. with_value w (attr (moving_both_start w)) (\<lambda>s.
              let cur_e = ww - (x + width - s); cur_s = s - x
              in selection_moved y height (w\<lparr>moving_both_cur :=
                   Some (if ex < cur_s then cur_s else if ex > cur_e then cur_e else ex)\<rparr>)))
       else if moving_top w
       then let w = w\<lparr>moving_top_cur := Some ex\<rparr> in
            with_value w (res_bind (attr (moving_top_start w)) (\<lambda>s. scale_data (w_data w) (s - ex))) (\<lambda>delta.
              (queue_draw (w\<lparr>w_data := set_range ext (r_start (w_data w) + delta) (r_end (w_data w) + delta) (w_data w),
                 force_full_redraw := True, moving_top_start := Some ex\<rparr>), Inr True))
       else show_cursor (x, y, width, height) ex ey w)"

definition motion_notify :: "(string \<Rightarrow> extents) \<Rightarrow> rat \<Rightarrow> rat \<Rightarrow> widget \<Rightarrow> bool callback" where
  "motion_notify ext ex ey w =
     with_value w (get_selection_rectangle (w_data w)) (\<lambda>sel. motion_in ext sel ex ey w)"

definition size_allocate :: "(string \<Rightarrow> extents) \<Rightarrow> rat \<Rightarrow> rat \<Rightarrow> widget \<Rightarrow> widget" where
  "size_allocate ext width height w =
     queue_draw (w\<lparr>w_width := Some width, w_height := Some height,
       w_data := graphic_layout ext width height (w_data w), force_full_redraw := True\<rparr>)"

definition refresh :: "(string \<Rightarrow> extents) \<Rightarrow> widget \<Rightarrow> unit callback" where
  "refresh ext w =
     (if force_full_redraw w
      then let w = w\<lparr>buffer_surface := Some []\<rparr> in
           with_value w (graphic_draw ext (w_data w)) (\<lambda>(cs, g).
             (w\<lparr>w_data := g, buffer_surface := Some cs, force_full_redraw := False\<rparr>, Inr ()))
      else (w, Inr ()))"

definition marker :: "rat \<Rightarrow> rat \<Rightarrow> rat \<Rightarrow> cairo list" where
  "marker x y height = [Move_to x y, Rel_line_to 0 height, Close_path]"

definition moving_marks :: "widget \<Rightarrow> rectangle \<Rightarrow> cairo list res" where
  "moving_marks w = (\<lambda>(x, y, width, height).
     res_bind (if moving_left w
               then res_bind (attr (moving_left_cur w)) (\<lambda>c.
                      Inr (marker (max c 2) y height @ [Line_width 1, black, Stroke]))
               else Inr []) (\<lambda>l.
     res_bind (if moving_right w
               then res_bind (attr (moving_right_cur w)) (\<lambda>c. res_bind (attr (w_width w)) (\<lambda>ww.
                      Inr (marker (min c (ww - 2)) y height @ [Line_width 1, black, Stroke])))
               else Inr []) (\<lambda>r.
     res_bind (if moving_both w
               then res_bind (attr (moving_both_cur w)) (\<lambda>c. res_bind (attr (moving_both_start w)) (\<lambda>s.
                      Inr (marker (x + (c - s)) y height @ marker (x + width + (c - s)) y height
                           @ [black, Line_width 1, Stroke])))
               else Inr []) (\<lambda>b. Inr (l @ r @ b)))))"

definition expose :: "(string \<Rightarrow> extents) \<Rightarrow> rectangle \<Rightarrow> widget \<Rightarrow> cairo list callback" where
  "expose ext area w =
     (case refresh ext w of
        (w, Inl e) \<Rightarrow> (w, Inl e)
      | (w, Inr _) \<Rightarrow>
          with_value w (attr (buffer_surface w)) (\<lambda>buf.
          with_value w (get_selection_rectangle (w_data w)) (\<lambda>sel.
          with_value w (moving_marks w sel) (\<lambda>marks.
            (w, Inr ([case area of (x, y, width, height) \<Rightarrow> Rectangle x y width height, Clip,
                      Source_surface buf, Paint] @ marks))))))"

text \<open>\<^verbatim>\<open>output_png\<close> draws on the buffer again and writes the new surface, on which nothing is drawn;
  the result is what the file shows.\<close>

definition output_png :: "(string \<Rightarrow> extents) \<Rightarrow> widget \<Rightarrow> cairo list callback" where
  "output_png ext w =
     (let surface = [] in
      with_value w (attr (buffer_surface w)) (\<lambda>buf.
      with_value w (graphic_draw ext (w_data w)) (\<lambda>(cs, g).
        (w\<lparr>w_data := g, buffer_surface := Some (buf @ cs)\<rparr>, Inr surface))))"

section \<open>Main\<close>

text \<open>The picture that \<^verbatim>\<open>main\<close> opens with, for the mixed reading of the two Python versions that the theory Timelines explains:
  sorting with a comparison function, and true division. No theorem rests on it: they hold from any bounds and any window.\<close>

definition main_widget :: "(string \<Rightarrow> extents) \<Rightarrow> string \<Rightarrow> widget res" where
  "main_widget ext content =
     (let (cs, ts) = read_data content;
          (lower_bound, upper_bound) = timelines_bounds ts;
          range_values = get_all_range_values ts
      in res_bind (lookup_all range_values cs) (\<lambda>(range_colors, cs').
           let lg = \<lparr>lg_padding = 10, lg_legends = range_values, lg_colors = range_colors,
                     lg_width = 0, lg_height = 0\<rparr>;
               d = \<lparr>dv_padding = 10, dv_timelines = ts, dv_colors = cs', dv_start = 0, dv_end = 0,
                    left_width = 0, right_width = 0, dv_text_height = 0, dv_width = 0, dv_height = 0\<rparr>;
               range_mid = (upper_bound - lower_bound) / 2;
               range_width = (upper_bound - lower_bound) / 10;
               range_lo = range_mid - range_width / 2;
               range_hi = range_mid + range_width / 2
           in Inr (new_widget (set_range ext range_lo range_hi (new_graphic lower_bound upper_bound lg d)))))"

text \<open>The events GTK delivers. An exception ends the callback, not the program.\<close>

datatype gui_event =
    Press rat rat | Release | Motion rat rat | Resize rat rat | Zoom_out | Zoom_in
  | Expose rectangle | Output_png

definition handle :: "(string \<Rightarrow> extents) \<Rightarrow> gui_event \<Rightarrow> widget \<Rightarrow> widget" where
  "handle ext ev w =
     (case ev of
        Press x y \<Rightarrow> fst (button_press x y w)
      | Release \<Rightarrow> fst (button_release ext w)
      | Motion x y \<Rightarrow> fst (motion_notify ext x y w)
      | Resize a b \<Rightarrow> size_allocate ext a b w
      | Zoom_out \<Rightarrow> set_smaller_zoom ext w
      | Zoom_in \<Rightarrow> set_bigger_zoom ext w
      | Expose area \<Rightarrow> fst (expose ext area w)
      | Output_png \<Rightarrow> fst (output_png ext w))"

text \<open>A session with the viewer: \<^verbatim>\<open>main\<close> makes a picture with some bounds and sets some window on it, then events arrive.\<close>

inductive session :: "(string \<Rightarrow> extents) \<Rightarrow> widget \<Rightarrow> bool" for ext where
  opened: "session ext (new_widget (set_range ext range_lo range_hi (new_graphic lower_bound upper_bound lg d)))"
| event: "session ext w \<Longrightarrow> session ext (handle ext ev w)"

lemma main_session: "main_widget ext content = Inr w \<Longrightarrow> session ext w"
  by (auto simp: main_widget_def Let_def res_bind_def intro: session.opened split: prod.splits sum.splits)

section \<open>The window of time\<close>

definition coherent :: "graphic \<Rightarrow> bool" where
  "coherent g \<longleftrightarrow> g_start g \<le> r_start g \<and> r_end g \<le> g_end g
     \<and> dv_start (g_data g) = r_start g \<and> dv_end (g_data g) = r_end g
     \<and> sc_lo (g_mid g) = r_start g \<and> sc_hi (g_mid g) = r_end g
     \<and> sc_lo (g_bot g) = g_start g \<and> sc_hi (g_bot g) = g_end g
     \<and> sc_width (g_bot g) = g_width g"

lemma layout_simps [simp]:
  "g_start (graphic_layout ext a b g) = g_start g" "g_end (graphic_layout ext a b g) = g_end g"
  "r_start (graphic_layout ext a b g) = r_start g" "r_end (graphic_layout ext a b g) = r_end g"
  "g_width (graphic_layout ext a b g) = a"
  by (simp_all add: graphic_layout_def Let_def)

lemma set_range_simps [simp]:
  "g_start (set_range ext a b g) = g_start g" "g_end (set_range ext a b g) = g_end g"
  "r_start (set_range ext a b g) = max (g_start g) (min a b)"
  "r_end (set_range ext a b g) = min (g_end g) (max a b)"
  "g_width (set_range ext a b g) = g_width g"
  by (simp_all add: set_range_def Let_def)

lemma coherent_layout: "coherent g \<Longrightarrow> coherent (graphic_layout ext a b g)"
  by (simp add: coherent_def) (simp add: graphic_layout_def Let_def data_layout_def scale_layout_def)

lemma coherent_set_range:
  "sc_lo (g_bot g) = g_start g \<Longrightarrow> sc_hi (g_bot g) = g_end g \<Longrightarrow> coherent (set_range ext a b g)"
  by (simp add: coherent_def)
    (simp add: set_range_def graphic_layout_def Let_def data_layout_def scale_layout_def set_bounds_def)

text \<open>What is known of the value a drawing returns.\<close>

definition yields :: "('a \<Rightarrow> bool) \<Rightarrow> 'a drawing \<Rightarrow> bool" where
  "yields P d \<longleftrightarrow> (\<forall>cs x. d = Inr (cs, x) \<longrightarrow> P x)"

lemma yields_draws: "P x \<Longrightarrow> yields P (draws cs x)"
  by (simp add: yields_def draws_def)

lemma yields_bind: "(\<And>a. yields P (f a)) \<Longrightarrow> yields P (res_bind r f)"
  by (cases r) (auto simp: yields_def)

lemma yields_then_known:
  assumes "yields Q d" "\<And>a. Q a \<Longrightarrow> yields P (f a)"
  shows "yields P (draw_then d f)"
  using assms by (auto simp: yields_def draw_then_def res_bind_def split: sum.splits prod.splits)

lemma yields_then: "(\<And>a. yields P (f a)) \<Longrightarrow> yields P (draw_then d f)"
  by (rule yields_then_known [where Q = "\<lambda>_. True"]) (simp_all add: yields_def)

lemma yields_data: "yields (\<lambda>d'. \<exists>cols. d' = d\<lparr>dv_colors := cols\<rparr>) (data_draw ext d)"
  unfolding data_draw_def Let_def
  by (intro yields_then) (auto split: prod.split intro!: yields_draws)

lemma yields_graphic: "yields (\<lambda>g'. \<exists>cols. g' = g\<lparr>g_data := (g_data g)\<lparr>dv_colors := cols\<rparr>\<rparr>) (graphic_draw ext g)"
  unfolding graphic_draw_def Let_def
  by (rule yields_then, rule yields_then, rule yields_then, rule yields_then_known [OF yields_data],
      rule yields_then, rule yields_then, rule yields_bind, rule yields_bind, rule yields_then, rule yields_then,
      rule yields_draws) blast

lemma graphic_draw_result:
  "graphic_draw ext g = Inr (cs, g') \<Longrightarrow> \<exists>cols. g' = g\<lparr>g_data := (g_data g)\<lparr>dv_colors := cols\<rparr>\<rparr>"
  using yields_graphic unfolding yields_def by blast

lemma coherent_draw: "coherent g \<Longrightarrow> graphic_draw ext g = Inr (cs, g') \<Longrightarrow> coherent g'"
  by (drule graphic_draw_result) (auto simp: coherent_def)

text \<open>Every callback leaves the picture as it was, changes the window, lays it out again or draws it.\<close>

definition picture_step :: "(string \<Rightarrow> extents) \<Rightarrow> graphic \<Rightarrow> graphic \<Rightarrow> bool" where
  "picture_step ext g g' \<longleftrightarrow> g' = g \<or> (\<exists>a b. g' = set_range ext a b g) \<or> (\<exists>a b. g' = graphic_layout ext a b g)
     \<or> (\<exists>cs. graphic_draw ext g = Inr (cs, g'))"

lemmas callback_defs = with_value_def change_range_def queue_draw_def queue_draw_area_def
  selection_moved_def show_cursor_def Let_def

lemma press_picture: "w_data (fst (button_press x y w)) = w_data w"
  by (auto simp: button_press_def callback_defs split: sum.splits prod.splits)

lemma release_picture: "picture_step ext (w_data w) (w_data (fst (button_release ext w)))"
  by (auto simp: button_release_def callback_defs picture_step_def split: sum.splits)

lemma picture_refl: "picture_step ext g g"
  by (simp add: picture_step_def)

lemma with_value_picture:
  "picture_step ext g (w_data w) \<Longrightarrow> (\<And>x. r = Inr x \<Longrightarrow> picture_step ext g (w_data (fst (f x))))
    \<Longrightarrow> picture_step ext g (w_data (fst (with_value w r f)))"
  by (simp add: with_value_def split: sum.split)

lemma selection_moved_picture: "w_data (fst (selection_moved y height w)) = w_data w"
  by (simp add: selection_moved_def with_value_def queue_draw_area_def split: sum.split)

lemma show_cursor_picture: "w_data (fst (show_cursor sel x y w)) = w_data w"
  by (simp add: show_cursor_def Let_def split: prod.split)

lemma motion_in_picture: "picture_step ext (w_data w) (w_data (fst (motion_in ext sel ex ey w)))"
proof (cases sel)
  case (fields x y width height)
  have "picture_step ext (w_data w) (set_range ext a b (w_data w))" for a b
    by (auto simp: picture_step_def)
  then show ?thesis
    unfolding fields motion_in_def prod.case Let_def
    by (simp add: selection_moved_picture show_cursor_picture picture_refl with_value_picture queue_draw_def)
qed

lemma motion_picture: "picture_step ext (w_data w) (w_data (fst (motion_notify ext ex ey w)))"
  unfolding motion_notify_def by (rule with_value_picture) (rule picture_refl motion_in_picture)+

lemma refresh_picture: "picture_step ext (w_data w) (w_data (fst (refresh ext w)))"
  by (auto simp: refresh_def callback_defs picture_step_def split: sum.splits prod.splits)

lemma expose_picture: "picture_step ext (w_data w) (w_data (fst (expose ext area w)))"
proof -
  have "fst (expose ext area w) = fst (refresh ext w)"
    by (auto simp: expose_def with_value_def split: prod.splits sum.splits)
  then show ?thesis using refresh_picture by metis
qed

lemma png_picture: "picture_step ext (w_data w) (w_data (fst (output_png ext w)))"
  by (auto simp: output_png_def callback_defs picture_step_def split: sum.splits prod.splits)

lemma handle_picture: "picture_step ext (w_data w) (w_data (handle ext ev w))"
proof (cases ev)
  case Zoom_out
  then show ?thesis by (auto simp: handle_def set_smaller_zoom_def callback_defs picture_step_def)
next
  case Zoom_in
  then show ?thesis by (auto simp: handle_def set_bigger_zoom_def callback_defs picture_step_def)
next
  case (Resize a b)
  then show ?thesis by (auto simp: handle_def size_allocate_def queue_draw_def picture_step_def)
next
  case (Press x y)
  then show ?thesis by (simp add: handle_def press_picture picture_step_def)
qed (simp_all add: handle_def release_picture motion_picture expose_picture png_picture)

lemma coherent_step: "picture_step ext g g' \<Longrightarrow> coherent g \<Longrightarrow> coherent g'"
  by (auto simp: picture_step_def coherent_layout coherent_draw intro!: coherent_set_range)
    (simp_all add: coherent_def)

lemma session_coherent: "session ext w \<Longrightarrow> coherent (w_data w)"
proof (induction rule: session.induct)
  case opened
  then show ?case by (auto simp: new_widget_def new_graphic_def set_bounds_def intro!: coherent_set_range)
next
  case (event w ev)
  then show ?case using coherent_step handle_picture by blast
qed

lemma set_range_ordered:
  assumes "g_start g \<le> g_end g" "g_start g \<le> max a b" "min a b \<le> g_end g"
  shows "r_start (set_range ext a b g) \<le> r_end (set_range ext a b g)"
  using assms by simp

text \<open>The events after which a window may be inverted: a motion while the data area is dragged, and the end of a drag of the window.\<close>

definition unclamped :: "gui_event \<Rightarrow> widget \<Rightarrow> bool" where
  "unclamped ev w \<longleftrightarrow> (case ev of Motion _ _ \<Rightarrow> moving_top w | Release \<Rightarrow> moving_both w | _ \<Rightarrow> False)"

lemma release_ordered:
  assumes "coherent (w_data w)" "r_start (w_data w) \<le> r_end (w_data w)" "\<not> moving_both w"
  shows "r_start (w_data (fst (button_release ext w))) \<le> r_end (w_data (fst (button_release ext w)))"
proof -
  have "g_start (w_data w) \<le> r_start (w_data w)" "r_end (w_data w) \<le> g_end (w_data w)" using assms(1) by (simp_all add: coherent_def)
  then have "r_start (set_range ext a (r_end (w_data w)) (w_data w)) \<le> r_end (set_range ext a (r_end (w_data w)) (w_data w))"
    "r_start (set_range ext (r_start (w_data w)) a (w_data w)) \<le> r_end (set_range ext (r_start (w_data w)) a (w_data w))" for a
    using assms(2) by (intro set_range_ordered; linarith)+
  then show ?thesis using assms(2,3) by (auto simp: button_release_def callback_defs split: sum.splits)
qed

lemma motion_keeps_picture: "\<not> moving_top w \<Longrightarrow> w_data (fst (motion_notify ext ex ey w)) = w_data w"
  by (auto simp: motion_notify_def motion_in_def with_value_def selection_moved_picture show_cursor_picture Let_def split: sum.split prod.split)

lemma refresh_window: "r_start (w_data (fst (refresh ext w))) = r_start (w_data w) \<and> r_end (w_data (fst (refresh ext w))) = r_end (w_data w)"
  by (auto simp: refresh_def with_value_def Let_def dest!: graphic_draw_result split: sum.splits prod.splits)

lemma expose_window:
  "r_start (w_data (fst (expose ext area w))) = r_start (w_data w) \<and> r_end (w_data (fst (expose ext area w))) = r_end (w_data w)"
proof -
  have "fst (expose ext area w) = fst (refresh ext w)" by (auto simp: expose_def with_value_def split: prod.splits sum.splits)
  then show ?thesis using refresh_window by metis
qed

lemma png_window:
  "r_start (w_data (fst (output_png ext w))) = r_start (w_data w) \<and> r_end (w_data (fst (output_png ext w))) = r_end (w_data w)"
  by (auto simp: output_png_def with_value_def Let_def dest!: graphic_draw_result split: sum.splits prod.splits)

lemma zoom_ordered:
  assumes "coherent g" "r_start g \<le> r_end g" "0 \<le> k"
  shows "r_start (set_range ext (r_start g) (r_start g + (r_end g - r_start g) * k) g)
    \<le> r_end (set_range ext (r_start g) (r_start g + (r_end g - r_start g) * k) g)"
proof -
  have "0 \<le> (r_end g - r_start g) * k" using assms(2,3) by simp
  then show ?thesis using assms(1,2) by (intro set_range_ordered) (simp_all add: coherent_def)
qed

lemma handle_ordered:
  assumes "coherent (w_data w)" "r_start (w_data w) \<le> r_end (w_data w)" "\<not> unclamped ev w"
  shows "r_start (w_data (handle ext ev w)) \<le> r_end (w_data (handle ext ev w))"
proof (cases ev)
  case Zoom_out
  then show ?thesis using zoom_ordered [OF assms(1,2), of 2 ext] by (simp add: handle_def set_smaller_zoom_def callback_defs del: set_range_simps)
next
  case Zoom_in
  then show ?thesis
    using zoom_ordered [OF assms(1,2), of "1 / 2" ext] by (simp add: handle_def set_bigger_zoom_def callback_defs del: set_range_simps)
qed (use assms release_ordered [OF assms(1,2)] in \<open>simp_all add: handle_def unclamped_def press_picture motion_keeps_picture size_allocate_def
    queue_draw_def expose_window png_window\<close>)

text \<open>C33: Whatever the user does, the selected window never starts before the data and never ends after the data, and the data area, the upper and
  the lower scale all show the same window and the same bounds. A window whose end is not before its start, which is then inside the
  bounds of the data, stays so with every event but two: a motion that drags the data area, and the release that ends a drag of the whole window.\<close>

theorem session_window_kept:
  assumes "session ext w"
  shows "g_start (w_data w) \<le> r_start (w_data w) \<and> r_end (w_data w) \<le> g_end (w_data w)
    \<and> dv_start (g_data (w_data w)) = r_start (w_data w) \<and> dv_end (g_data (w_data w)) = r_end (w_data w)
    \<and> sc_lo (g_mid (w_data w)) = r_start (w_data w) \<and> sc_hi (g_mid (w_data w)) = r_end (w_data w)
    \<and> sc_lo (g_bot (w_data w)) = g_start (w_data w) \<and> sc_hi (g_bot (w_data w)) = g_end (w_data w)
    \<and> (r_start (w_data w) \<le> r_end (w_data w) \<and> \<not> unclamped ev w \<longrightarrow>
        (let g = w_data (handle ext ev w) in g_start g \<le> r_start g \<and> r_start g \<le> r_end g \<and> r_end g \<le> g_end g))"
proof -
  have "coherent (w_data w)" "coherent (w_data (handle ext ev w))" using assms session_coherent session.event by blast+
  then show ?thesis using handle_ordered [of w ev ext] by (simp add: coherent_def Let_def)
qed

theorem session_window_kept_witness:
  "let ext = \<lambda>_. \<lparr>y_bearing = 0, t_width = 0, t_height = 8\<rparr>;
       w = new_widget (set_range ext 45 55 (new_graphic 0 100 \<lparr>lg_padding = 10, lg_legends = [], lg_colors = [], lg_width = 0, lg_height = 0\<rparr>
         \<lparr>dv_padding = 10, dv_timelines = [], dv_colors = new_colors, dv_start = 0, dv_end = 0,
          left_width = 0, right_width = 0, dv_text_height = 0, dv_width = 0, dv_height = 0\<rparr>))
   in g_start (w_data w) \<le> r_start (w_data w) \<and> r_start (w_data (handle ext Zoom_out w)) \<le> r_end (w_data (handle ext Zoom_out w))"
proof -
  define ext where "ext = (\<lambda>_ :: string. \<lparr>y_bearing = 0, t_width = 0, t_height = 8\<rparr>)"
  define w where "w = new_widget (set_range ext 45 55 (new_graphic 0 100 \<lparr>lg_padding = 10, lg_legends = [], lg_colors = [], lg_width = 0, lg_height = 0\<rparr>
     \<lparr>dv_padding = 10, dv_timelines = [], dv_colors = new_colors, dv_start = 0, dv_end = 0,
      left_width = 0, right_width = 0, dv_text_height = 0, dv_width = 0, dv_height = 0\<rparr>))"
  have "session ext w" unfolding w_def by (rule session.opened)
  note t = session_window_kept [OF this, of Zoom_out]
  have "r_start (w_data w) \<le> r_end (w_data w)" by (simp add: w_def new_widget_def new_graphic_def set_bounds_def)
  then show ?thesis using t unfolding ext_def [symmetric] w_def [symmetric] Let_def by (simp add: unclamped_def)
qed

section \<open>Dragging the window\<close>

definition run :: "(string \<Rightarrow> extents) \<Rightarrow> gui_event list \<Rightarrow> widget \<Rightarrow> widget" where
  "run ext evs w = fold (handle ext) evs w"

text \<open>A widget at rest that shows a proper window of a picture as wide as itself.\<close>

definition proper :: "graphic \<Rightarrow> bool" where
  "proper g \<longleftrightarrow> coherent g \<and> r_start g \<le> r_end g \<and> g_start g < g_end g \<and> 0 < g_width g"

definition at_rest :: "widget \<Rightarrow> bool" where
  "at_rest w \<longleftrightarrow> \<not> moving_left w \<and> \<not> moving_right w \<and> \<not> moving_both w \<and> \<not> moving_top w
     \<and> proper (w_data w) \<and> w_width w = Some (g_width (w_data w))"

text \<open>The pixels of the window in the selection bar.\<close>

definition bar_pixel :: "graphic \<Rightarrow> rat \<Rightarrow> rat" where
  "bar_pixel g t = (t - g_start g) * g_width g / (g_end g - g_start g)"

lemma selection_rectangle:
  assumes "coherent g" "g_start g < g_end g"
  obtains y h where "get_selection_rectangle g =
    Inr (bar_pixel g (r_start g), y, bar_pixel g (r_end g) - bar_pixel g (r_start g), h)"
  using assms by (auto simp: get_selection_rectangle_def get_position_def py_div_def coherent_def bar_pixel_def)

lemma bar_pixel_mono: "g_start g < g_end g \<Longrightarrow> 0 < g_width g \<Longrightarrow> a \<le> b \<Longrightarrow> bar_pixel g a \<le> bar_pixel g b"
  by (simp add: bar_pixel_def divide_right_mono mult_right_mono)

lemma bar_pixel_ends: "g_start g < g_end g \<Longrightarrow> bar_pixel g (g_start g) = 0 \<and> bar_pixel g (g_end g) = g_width g"
  by (simp add: bar_pixel_def)

text \<open>\<open>bar_time\<close> is what \<^verbatim>\<open>scale_selection\<close> returns, a span of time for a span of pixels.\<close>

definition bar_time :: "graphic \<Rightarrow> rat \<Rightarrow> rat" where
  "bar_time g x = x / g_width g * (g_end g - g_start g)"

lemma scale_selection_time: "0 < g_width g \<Longrightarrow> scale_selection g x = Inr (bar_time g x)"
  by (simp add: scale_selection_def py_div_def bar_time_def)

lemma bar_time_pixel: "g_start g < g_end g \<Longrightarrow> 0 < g_width g \<Longrightarrow> bar_time g (bar_pixel g t) = t - g_start g"
  by (simp add: bar_time_def bar_pixel_def)

lemma bar_time_mono: "g_start g < g_end g \<Longrightarrow> 0 < g_width g \<Longrightarrow> a \<le> b \<Longrightarrow> bar_time g a \<le> bar_time g b"
  by (simp add: bar_time_def divide_right_mono mult_right_mono)

lemma bar_time_diff: "bar_time g (a - b) = bar_time g a - bar_time g b"
  by (simp add: bar_time_def diff_divide_distrib left_diff_distrib)

lemma bar_time_width: "0 < g_width g \<Longrightarrow> bar_time g (g_width g) = g_end g - g_start g"
  by (simp add: bar_time_def)

lemma set_range_within:
  assumes "g_start g \<le> a" "a \<le> b" "b \<le> g_end g"
  shows "r_start (set_range ext a b g) = a \<and> r_end (set_range ext a b g) = b"
  using assms by simp

text \<open>While the window is dragged: the picture does not change, and the current position keeps the
  window on the bar.\<close>

definition dragging :: "graphic \<Rightarrow> rat \<Rightarrow> widget \<Rightarrow> bool" where
  "dragging g s w \<longleftrightarrow> w_data w = g \<and> \<not> moving_left w \<and> \<not> moving_right w \<and> moving_both w \<and> \<not> moving_top w
     \<and> w_width w = Some (g_width g) \<and> moving_both_start w = Some s
     \<and> (\<exists>c. moving_both_cur w = Some c \<and> s - bar_pixel g (r_start g) \<le> c
             \<and> c \<le> g_width g - (bar_pixel g (r_end g) - s))"

lemma bar_order:
  assumes "proper g"
  shows "0 \<le> bar_pixel g (r_start g)" "bar_pixel g (r_start g) \<le> bar_pixel g (r_end g)"
    "bar_pixel g (r_end g) \<le> g_width g"
  using assms bar_pixel_mono [of g] bar_pixel_ends [of g] unfolding proper_def coherent_def by metis+

lemma dragging_motion:
  assumes "proper g" "dragging g s w"
  shows "dragging g s (handle ext (Motion ex ey) w)"
proof -
  obtain y h where sel: "get_selection_rectangle g =
      Inr (bar_pixel g (r_start g), y, bar_pixel g (r_end g) - bar_pixel g (r_start g), h)"
    using selection_rectangle assms(1) unfolding proper_def by metis
  note b = bar_order [OF assms(1)]
  define c where "c = (if ex < s - bar_pixel g (r_start g) then s - bar_pixel g (r_start g)
    else if ex > g_width g - (bar_pixel g (r_end g) - s) then g_width g - (bar_pixel g (r_end g) - s) else ex)"
  have "handle ext (Motion ex ey) w =
      queue_draw_area 0 (py_trunc y) (py_trunc (g_width g)) (py_trunc h) (w\<lparr>moving_both_cur := Some c\<rparr>)"
    using assms(2) sel
    by (simp add: dragging_def handle_def motion_notify_def motion_in_def with_value_def attr_def
        selection_moved_def c_def Let_def)
  moreover have "s - bar_pixel g (r_start g) \<le> c \<and> c \<le> g_width g - (bar_pixel g (r_end g) - s)"
    using b by (auto simp: c_def)
  ultimately show ?thesis
    using assms(2) by (auto simp: dragging_def queue_draw_area_def)
qed

lemma dragging_motions:
  assumes "proper g"
  shows "dragging g s w \<Longrightarrow> dragging g s (fold (handle ext) (map (\<lambda>(x, y). Motion x y) ms) w)"
  by (induction ms arbitrary: w) (auto intro: dragging_motion [OF assms])

lemma dragging_release:
  assumes "proper g" "dragging g s w"
  obtains delta where "w_data (handle ext Release w) = set_range ext (r_start g + delta) (r_end g + delta) g"
    "g_start g \<le> r_start g + delta" "r_end g + delta \<le> g_end g"
proof -
  obtain c where c: "moving_both_cur w = Some c" "s - bar_pixel g (r_start g) \<le> c"
      "c \<le> g_width g - (bar_pixel g (r_end g) - s)"
    using assms(2) by (auto simp: dragging_def)
  have g: "g_start g < g_end g" "0 < g_width g" using assms(1) by (auto simp: proper_def)
  note time = bar_time_mono [OF g] bar_time_diff bar_time_pixel [OF g] bar_time_width [OF g(2)]
  have "bar_time g (0 - bar_pixel g (r_start g)) \<le> bar_time g (c - s)"
    "bar_time g (c - s) \<le> bar_time g (g_width g - bar_pixel g (r_end g))"
    using c(2,3) by (auto intro!: bar_time_mono [OF g])
  then have "g_start g \<le> r_start g + bar_time g (c - s)" "r_end g + bar_time g (c - s) \<le> g_end g"
    unfolding bar_time_diff time(3,4) by (simp_all add: bar_time_def)
  moreover have "w_data (handle ext Release w) =
      set_range ext (r_start g + bar_time g (c - s)) (r_end g + bar_time g (c - s)) g"
    using assms(2) c(1)
    by (simp add: dragging_def handle_def button_release_def with_value_def attr_def Let_def
        scale_selection_time [OF g(2)] change_range_def queue_draw_def)
  ultimately show thesis using that by blast
qed

text \<open>C28: Dragging the selected window moves it and nothing else: pressed inside the window (away from
  its two edges), moved in any way and released, the new window has the width of the old one and
  still lies within the bounds of the data, however far the pointer went.\<close>

theorem drag_keeps_width:
  assumes "at_rest w" "get_selection_rectangle (w_data w) = Inr (x, y, width, height)"
    and "y < ey" "ey < y + height" "x + 5 \<le> ex" "ex + 5 \<le> x + width"
    and w': "w' = run ext (Press ex ey # map (\<lambda>(mx, my). Motion mx my) ms @ [Release]) w"
  shows "r_end (w_data w') - r_start (w_data w') = r_end (w_data w) - r_start (w_data w)
    \<and> g_start (w_data w') = g_start (w_data w) \<and> g_end (w_data w') = g_end (w_data w)
    \<and> g_start (w_data w') \<le> r_start (w_data w') \<and> r_end (w_data w') \<le> g_end (w_data w')"
proof -
  define g where "g = w_data w"
  have g: "proper g" using assms(1) by (simp add: at_rest_def g_def)
  have sel: "x = bar_pixel g (r_start g)" "width = bar_pixel g (r_end g) - bar_pixel g (r_start g)"
    using assms(2) g selection_rectangle [of g] unfolding proper_def g_def by (metis Inr_inject prod.inject)+
  have "handle ext (Press ex ey) w
      = w\<lparr>moving_both := True, moving_both_start := Some ex, moving_both_cur := Some ex\<rparr>"
    using assms(3-6) by (simp add: handle_def button_press_def assms(2) with_value_def split: prod.split)
  then have "dragging g ex (handle ext (Press ex ey) w)"
    using assms(1) bar_order [OF g] by (simp add: dragging_def at_rest_def g_def)
  note drag = dragging_motions [OF g this, where ext = ext and ms = ms]
  obtain delta where d: "w_data w' = set_range ext (r_start g + delta) (r_end g + delta) g"
      "g_start g \<le> r_start g + delta" "r_end g + delta \<le> g_end g"
    using dragging_release [OF g drag] by (auto simp: w' run_def)
  have "r_start g \<le> r_end g" using g by (simp add: proper_def)
  then show ?thesis
    using d(2,3) unfolding d(1) g_def [symmetric] by simp
qed

text \<open>A small widget for the examples below: data from 0 to 100, the window from 45 to 55, no timeline,
  200 pixels wide.\<close>

definition small_extents :: "string \<Rightarrow> extents" where
  "small_extents = (\<lambda>_. \<lparr>y_bearing = 0, t_width = 0, t_height = 8\<rparr>)"

definition small_widget :: widget where
  "small_widget = size_allocate small_extents 200 200 (new_widget (set_range small_extents 45 55
     (new_graphic 0 100 \<lparr>lg_padding = 10, lg_legends = [], lg_colors = [], lg_width = 0, lg_height = 0\<rparr>
       \<lparr>dv_padding = 10, dv_timelines = [], dv_colors = new_colors, dv_start = 0, dv_end = 0,
        left_width = 0, right_width = 0, dv_text_height = 0, dv_width = 0, dv_height = 0\<rparr>)))"

lemma small_widget_at_rest: "at_rest small_widget"
  by (simp add: at_rest_def proper_def coherent_def small_widget_def size_allocate_def queue_draw_def
      new_widget_def) (simp add: set_range_def graphic_layout_def new_graphic_def set_bounds_def Let_def
      data_layout_def scale_layout_def)

lemma small_widget_selection: "get_selection_rectangle (w_data small_widget) = Inr (90, 48, 20, 38)"
  by (simp add: small_widget_def size_allocate_def queue_draw_def new_widget_def set_range_def graphic_layout_def
      new_graphic_def new_scale_def set_bounds_def Let_def data_layout_def scale_layout_def legend_layout_def
      small_extents_def get_selection_rectangle_def get_position_def py_div_def max_def min_def)

theorem drag_keeps_width_witness:
  "r_end (w_data (run small_extents [Press 100 60, Motion 900 60, Release] small_widget))
   - r_start (w_data (run small_extents [Press 100 60, Motion 900 60, Release] small_widget))
   = r_end (w_data small_widget) - r_start (w_data small_widget)"
  using drag_keeps_width [OF small_widget_at_rest small_widget_selection, of 60 100 _ small_extents "[(900, 60)]"]
  by simp

section \<open>Dragging the right edge\<close>

text \<open>Dragging the right edge of the window to the right end of the widget or beyond does not take
  the window there: on release the code uses the position of an earlier drag of that edge, and
  when there was none it raises \<^verbatim>\<open>AttributeError\<close> and leaves the window as it was.\<close>

theorem drag_right_past_edge:
  assumes "at_rest w" "get_selection_rectangle (w_data w) = Inr (x, y, width, height)"
    and "y < ey" "ey < y + height" "5 \<le> \<bar>ex - x\<bar>" "\<bar>ex - (x + width)\<bar> < 5" "g_width (w_data w) \<le> mx"
  shows "case moving_right_cur w of
      None \<Rightarrow> snd (button_release ext (run ext [Press ex ey, Motion mx my] w)) = Inl AttributeError
        \<and> w_data (run ext [Press ex ey, Motion mx my, Release] w) = w_data w
    | Some c \<Rightarrow> w_data (run ext [Press ex ey, Motion mx my, Release] w)
        = set_range ext (r_start (w_data w)) (bar_time (w_data w) c) (w_data w)"
proof -
  define g where "g = w_data w"
  have g: "0 < g_width g" "w_width w = Some (g_width g)" using assms(1) by (auto simp: at_rest_def proper_def g_def)
  have "handle ext (Press ex ey) w = w\<lparr>moving_right := True\<rparr>"
    using assms(3-6) by (simp add: handle_def button_press_def assms(2) with_value_def split: prod.split)
  moreover have "handle ext (Motion mx my) (w\<lparr>moving_right := True\<rparr>)
      = queue_draw_area 0 (py_trunc y) (py_trunc (g_width g)) (py_trunc height) (w\<lparr>moving_right := True\<rparr>)"
    using assms(1,7) g
    by (simp add: handle_def motion_notify_def motion_in_def assms(2) with_value_def attr_def at_rest_def
        selection_moved_def g_def)
  ultimately have moved: "run ext [Press ex ey, Motion mx my] w
      = queue_draw_area 0 (py_trunc y) (py_trunc (g_width g)) (py_trunc height) (w\<lparr>moving_right := True\<rparr>)"
    by (simp add: run_def)
  have released: "run ext [Press ex ey, Motion mx my, Release] w
      = fst (button_release ext (run ext [Press ex ey, Motion mx my] w))"
    by (simp add: run_def handle_def)
  show ?thesis
    using assms(1) unfolding released moved
    by (simp add: at_rest_def button_release_def with_value_def attr_def queue_draw_area_def Let_def
        scale_selection_time [OF g(1) [unfolded g_def]] change_range_def queue_draw_def split: option.split)
qed

theorem drag_right_past_edge_witness:
  "snd (button_release small_extents (run small_extents [Press 110 60, Motion 300 60] small_widget))
   = Inl AttributeError"
proof -
  have "g_width (w_data small_widget) \<le> 300" "moving_right_cur small_widget = None"
    by (simp_all add: small_widget_def size_allocate_def queue_draw_def new_widget_def)
  then show ?thesis
    using drag_right_past_edge [OF small_widget_at_rest small_widget_selection, of 60 110 300 small_extents 60]
    by simp
qed

section \<open>Saving the picture\<close>

text \<open>The file that \<^verbatim>\<open>output_png\<close> writes shows nothing, whatever the widget shows.\<close>

lemma output_png_blank: "snd (output_png ext w) = Inr png \<Longrightarrow> png = []"
  by (auto simp: output_png_def with_value_def Let_def split: sum.splits)

text \<open>The exception is real. Dragging the data area is not clamped: the window can be left with its end before its start.\<close>

lemma drag_top_inverts:
  "let g = w_data (run small_extents [Motion (- 1000) 20] (small_widget\<lparr>moving_top := True,
     moving_top_start := Some 100\<rparr>)) in r_end g < r_start g"
  by code_simp

end
