(* ===== verification/Gym_Data.thy ===== *)
theory Gym_Data
  imports Complex_Main Py_Prelude
begin

text \<open>
  \<^verbatim>\<open>contrib/opengym/model/ns3gym/ns3gym/ns3env.py\<close>, part 1: spaces and data. \<^verbatim>\<open>_create_space\<close> turns the
  description sent by the simulator into a space of the package gym, \<^verbatim>\<open>_pack_data\<close> turns an action
  into a data container and \<^verbatim>\<open>_create_data\<close> a container into an observation. The messages are those
  of \<^verbatim>\<open>messages.proto\<close>.

  Third-party behaviour is a parameter: \<open>check\<close> is the check a gym constructor makes of its
  arguments, \<open>float32\<close> the rounding of a number that a \<^verbatim>\<open>float\<close> field of protobuf stores. Numbers are
  exact rationals, so that an integral float and the integer are one value; protobuf refuses what does not fit an integer field. \<^verbatim>\<open>Any.Unpack\<close> leaves the
  default message when the type does not match; \<^verbatim>\<open>np.int\<close> is taken as numpy had it (64 bits). A dictionary in place of a tuple is refused.
\<close>

section \<open>Messages\<close>

datatype space_type = NoSpaceType | Discrete | Box | Tuple | Dict

datatype dtype = NoDType | PB_INT | PB_UINT | PB_FLOAT | PB_DOUBLE

datatype space_desc = Space_desc (desc_type: space_type) (desc_space: space_msg) (desc_name: string)
and space_msg =
    DiscreteSpace int
  | BoxSpace rat rat dtype "nat list"
  | TupleSpace "space_desc list"
  | DictSpace "space_desc list"

text \<open>The repeated fields of a box container: \<open>intData\<close>, \<open>uintData\<close>, \<open>floatData\<close>, \<open>doubleData\<close>.\<close>

datatype container = Container (con_type: space_type) (con_data: data_msg) (con_name: string)
and data_msg =
    NoMsg
  | DiscreteData int
  | BoxData dtype "nat list" "int list" "int list" "rat list" "rat list"
  | TupleData "container list"
  | DictData "container list"

section \<open>Spaces\<close>

text \<open>The data type of a box, by the name numpy gives it.\<close>

datatype space =
    Discrete_space int
  | Box_space rat rat "nat list" string
  | Tuple_space "space list"
  | Dict_space "(string \<times> space) list"

definition np_dtype :: "dtype \<Rightarrow> string" where
  "np_dtype t = (case t of PB_INT \<Rightarrow> ''int64'' | PB_UINT \<Rightarrow> ''uint64'' | PB_DOUBLE \<Rightarrow> ''float64'' | _ \<Rightarrow> ''float64'')"

definition checked :: "(space \<Rightarrow> bool) \<Rightarrow> space \<Rightarrow> space option res" where
  "checked check s = (if check s then Inr (Some s) else Inl AssertionError)"

text \<open>The elements of a tuple or dictionary space; a space of no known type is \<^verbatim>\<open>None\<close>, which gym
  refuses as an element.\<close>

definition part_space :: "space option \<Rightarrow> space res" where
  "part_space s = (case s of None \<Rightarrow> Inl AssertionError | Some s \<Rightarrow> Inr s)"

fun res_map :: "('a \<Rightarrow> 'b res) \<Rightarrow> 'a list \<Rightarrow> 'b list res" where
  "res_map f [] = Inr []"
| "res_map f (x # xs) = res_bind (f x) (\<lambda>y. res_bind (res_map f xs) (\<lambda>ys. Inr (y # ys)))"

lemma res_map_cong [fundef_cong]:
  "xs = ys \<Longrightarrow> (\<And>x. x \<in> set ys \<Longrightarrow> f x = g x) \<Longrightarrow> res_map f xs = res_map g ys"
  by (induction xs arbitrary: ys) auto

lemma element_size: "x \<in> set xs \<Longrightarrow> f x < Suc (Suc (size_list f xs))"
  by (induction xs) auto

function create_space :: "(space \<Rightarrow> bool) \<Rightarrow> space_desc \<Rightarrow> space option res" where
  "create_space check (Space_desc t m n) =
     (case t of
        Discrete \<Rightarrow> checked check (Discrete_space (case m of DiscreteSpace k \<Rightarrow> k | _ \<Rightarrow> 0))
      | Box \<Rightarrow> checked check (case m of BoxSpace low high dt shape \<Rightarrow> Box_space low high shape (np_dtype dt)
                 | _ \<Rightarrow> Box_space 0 0 [] (np_dtype NoDType))
      | Tuple \<Rightarrow> res_bind (res_map (create_space check) (case m of TupleSpace ds \<Rightarrow> ds | _ \<Rightarrow> [])) (\<lambda>ss.
                   res_bind (res_map part_space ss) (\<lambda>ss. checked check (Tuple_space ss)))
      | Dict \<Rightarrow> res_bind (res_map (\<lambda>d. res_bind (create_space check d) (\<lambda>s. Inr (desc_name d, s)))
                     (case m of DictSpace ds \<Rightarrow> ds | _ \<Rightarrow> [])) (\<lambda>nss.
                   res_bind (res_map (\<lambda>(n, s). res_bind (part_space s) (\<lambda>s. Inr (n, s)))
                       (fold (\<lambda>(n, s) d. AList.update n s d) nss [])) (\<lambda>nss. checked check (Dict_space nss)))
      | NoSpaceType \<Rightarrow> Inr None)"
  by pat_completeness auto
termination
  by (relation "measure (\<lambda>(c, d). size d)") (auto simp: element_size split: space_msg.splits)

section \<open>Observations and actions\<close>

datatype data =
    Num rat
  | Array "rat list"
  | Tup "data list"
  | Dic "(string \<times> data) list"
  | No_data

function create_data :: "container \<Rightarrow> data" where
  "create_data (Container t m n) =
     (case t of
        Discrete \<Rightarrow> Num (case m of DiscreteData d \<Rightarrow> of_int d | _ \<Rightarrow> 0)
      | Box \<Rightarrow> (case m of
                 BoxData dt shape ints uints floats doubles \<Rightarrow>
                   (case dt of PB_INT \<Rightarrow> Array (map of_int ints) | PB_UINT \<Rightarrow> Array (map of_int uints)
                    | PB_DOUBLE \<Rightarrow> Array doubles | _ \<Rightarrow> Array floats)
               | _ \<Rightarrow> Array [])
      | Tuple \<Rightarrow> Tup (map create_data (case m of TupleData cs \<Rightarrow> cs | _ \<Rightarrow> []))
      | Dict \<Rightarrow> Dic (fold (\<lambda>(n, d) ds. AList.update n d ds)
                  (map (\<lambda>c. (con_name c, create_data c)) (case m of DictData cs \<Rightarrow> cs | _ \<Rightarrow> [])) [])
      | NoSpaceType \<Rightarrow> No_data)"
  by pat_completeness auto
termination
  by (relation "measure size") (auto simp: element_size split: data_msg.splits)

text \<open>Integer fields of 32 bits: an integral number in range.\<close>

definition pb_int :: "int \<Rightarrow> int \<Rightarrow> rat \<Rightarrow> int res" where
  "pb_int lo hi r =
     (if of_int \<lfloor>r\<rfloor> \<noteq> r then Inl TypeError
      else if \<lfloor>r\<rfloor> < lo \<or> hi < \<lfloor>r\<rfloor> then Inl ValueError else Inr \<lfloor>r\<rfloor>)"

definition int32 :: "rat \<Rightarrow> int res" where
  "int32 = pb_int (- (2 ^ 31)) (2 ^ 31 - 1)"

definition uint32 :: "rat \<Rightarrow> int res" where
  "uint32 = pb_int 0 (2 ^ 32 - 1)"

definition pack_box :: "(rat \<Rightarrow> rat) \<Rightarrow> string \<Rightarrow> rat list \<Rightarrow> container res" where
  "pack_box float32 dt xs =
     (let box = (\<lambda>t is us fs ds. Container Box (BoxData t [length xs] is us fs ds) '''')
      in if dt \<in> set [''int'', ''int8'', ''int16'', ''int32'', ''int64'']
         then res_bind (res_map int32 xs) (\<lambda>is. Inr (box PB_INT is [] [] []))
         else if dt \<in> set [''uint'', ''uint8'', ''uint16'', ''uint32'', ''uint64'']
         then res_bind (res_map uint32 xs) (\<lambda>us. Inr (box PB_UINT [] us [] []))
         else if dt \<in> set [''float'', ''float32'', ''float64'']
         then Inr (box PB_FLOAT [] [] (map float32 xs) [])
         else if dt \<in> set [''double'']
         then Inr (box PB_DOUBLE [] [] [] xs)
         else Inr (box PB_FLOAT [] [] (map float32 xs) []))"

definition numbers_of :: "data \<Rightarrow> rat list res" where
  "numbers_of a = (case a of
       Array xs \<Rightarrow> Inr xs
     | Tup as \<Rightarrow> res_map (\<lambda>a. case a of Num r \<Rightarrow> Inr r | _ \<Rightarrow> Inl TypeError) as
     | Dic [] \<Rightarrow> Inr []
     | _ \<Rightarrow> Inl TypeError)"

definition items_of :: "data \<Rightarrow> data list res" where
  "items_of a = (case a of
       Tup as \<Rightarrow> Inr as | Array xs \<Rightarrow> Inr (map Num xs) | Dic [] \<Rightarrow> Inr [] | _ \<Rightarrow> Inl TypeError)"

definition entries_of :: "data \<Rightarrow> (string \<times> data) list res" where
  "entries_of a = (case a of Dic nas \<Rightarrow> Inr nas | _ \<Rightarrow> Inl AttributeError)"

text \<open>The parts of the action space, which the code takes from \<^verbatim>\<open>self._action_space\<close> at every depth.
  The list of the spaces of a dictionary is the list of its keys, which are no spaces (\<open>None\<close>).\<close>

definition part_list :: "space option \<Rightarrow> space option list res" where
  "part_list act_space = (case act_space of
       Some (Tuple_space ss) \<Rightarrow> Inr (map Some ss)
     | Some (Dict_space nss) \<Rightarrow> Inr (map (\<lambda>_. None) nss)
     | _ \<Rightarrow> Inl AttributeError)"

definition part_named :: "space option \<Rightarrow> string \<Rightarrow> space res" where
  "part_named act_space n = (case act_space of
       Some (Dict_space nss) \<Rightarrow> (case map_of nss n of None \<Rightarrow> Inl KeyError | Some s \<Rightarrow> Inr s)
     | Some (Tuple_space ss) \<Rightarrow> Inl TypeError
     | _ \<Rightarrow> Inl AttributeError)"

definition with_name :: "string \<Rightarrow> container \<Rightarrow> container" where
  "with_name n c = Container (con_type c) (con_data c) n"

definition data_weight :: "data \<Rightarrow> nat" where
  "data_weight a = 2 * size a + (case a of Array _ \<Rightarrow> 1 | _ \<Rightarrow> 0)"

lemma smaller_weight: "size x < size a \<Longrightarrow> data_weight x < data_weight a"
  by (auto simp: data_weight_def split: data.split)

lemma items_smaller:
  assumes "items_of a = Inr as" "x \<in> set as"
  shows "data_weight x < data_weight a"
proof (cases a)
  case (Array xs)
  then show ?thesis using assms by (auto simp: items_of_def data_weight_def)
next
  case (Tup bs)
  then have "size x < size a" using assms by (auto simp: items_of_def less_Suc_eq_le size_list_estimation')
  then show ?thesis by (rule smaller_weight)
qed (use assms in \<open>auto simp: items_of_def split: list.splits\<close>)

lemma entries_smaller:
  assumes "entries_of a = Inr nas" "(n, x) \<in> set nas"
  shows "data_weight x < data_weight a"
proof (cases a)
  case (Dic nbs)
  have "size x \<le> size_list (size_prod (\<lambda>_. 0) size) nbs"
    using assms Dic by (intro size_list_estimation' [of "(n, x)"]) (auto simp: entries_of_def)
  then show ?thesis using Dic by (intro smaller_weight) simp
qed (use assms in \<open>auto simp: entries_of_def\<close>)

function pack_data :: "(rat \<Rightarrow> rat) \<Rightarrow> space option \<Rightarrow> data \<Rightarrow> space option \<Rightarrow> container res" where
  "pack_data float32 act_space a s =
     (case s of
        None \<Rightarrow> Inr (Container NoSpaceType NoMsg '''')
      | Some (Discrete_space k) \<Rightarrow>
          (case a of Num r \<Rightarrow> res_bind (int32 r) (\<lambda>i. Inr (Container Discrete (DiscreteData i) ''''))
           | _ \<Rightarrow> Inl TypeError)
      | Some (Box_space low high shape dt) \<Rightarrow> res_bind (numbers_of a) (pack_box float32 dt)
      | Some (Tuple_space ss) \<Rightarrow>
          (case part_list act_space of Inl e \<Rightarrow> Inl e | Inr ps \<Rightarrow>
          (case items_of a of Inl e \<Rightarrow> Inl e | Inr as \<Rightarrow>
             res_bind (res_map (\<lambda>(x, p). pack_data float32 act_space x p) (zip as ps)) (\<lambda>cs.
               Inr (Container Tuple (TupleData cs) ''''))))
      | Some (Dict_space nss) \<Rightarrow>
          (case entries_of a of Inl e \<Rightarrow> Inl e | Inr nas \<Rightarrow>
             res_bind (res_map (\<lambda>(n, x). case part_named act_space n of Inl e \<Rightarrow> Inl e | Inr p \<Rightarrow>
                 res_bind (pack_data float32 act_space x (Some p)) (\<lambda>c. Inr (with_name n c))) nas) (\<lambda>cs.
               Inr (Container Dict (DictData cs) ''''))))"
  by pat_completeness auto
termination
  by (relation "measure (\<lambda>(f, r, a, s). data_weight a)")
    (auto dest: items_smaller entries_smaller set_zip_leftD)

declare create_space.simps [simp del] create_data.simps [simp del] pack_data.simps [simp del]

section \<open>Round trip\<close>

lemma res_map_Inr: "(\<And>x. x \<in> set xs \<Longrightarrow> f x = Inr (g x)) \<Longrightarrow> res_map f xs = Inr (map g xs)"
  by (induction xs) auto

text \<open>The numbers a box of a data type can transmit without loss.\<close>

definition transmits :: "(rat \<Rightarrow> rat) \<Rightarrow> string \<Rightarrow> rat \<Rightarrow> bool" where
  "transmits float32 dt x \<longleftrightarrow>
     (if dt \<in> set [''int'', ''int8'', ''int16'', ''int32'', ''int64'']
      then of_int \<lfloor>x\<rfloor> = x \<and> - (2 ^ 31) \<le> \<lfloor>x\<rfloor> \<and> \<lfloor>x\<rfloor> < 2 ^ 31
      else if dt \<in> set [''uint'', ''uint8'', ''uint16'', ''uint32'', ''uint64'']
      then of_int \<lfloor>x\<rfloor> = x \<and> 0 \<le> \<lfloor>x\<rfloor> \<and> \<lfloor>x\<rfloor> < 2 ^ 32
      else dt = ''double'' \<or> float32 x = x)"

text \<open>An action that fits a space with no space inside it, and one that fits an action space of
  depth one.\<close>

fun fits_flat :: "(rat \<Rightarrow> rat) \<Rightarrow> space \<Rightarrow> data \<Rightarrow> bool" where
  "fits_flat float32 (Discrete_space k) (Num r) = transmits float32 ''int32'' r"
| "fits_flat float32 (Box_space low high shape dt) (Array xs) = list_all (transmits float32 dt) xs"
| "fits_flat float32 _ _ = False"

fun fits :: "(rat \<Rightarrow> rat) \<Rightarrow> space \<Rightarrow> data \<Rightarrow> bool" where
  "fits float32 (Tuple_space ss) (Tup as) = list_all2 (fits_flat float32) ss as"
| "fits float32 (Dict_space nss) (Dic nas) =
     (distinct (map fst nas)
      \<and> list_all (\<lambda>(n, a). case map_of nss n of None \<Rightarrow> False | Some s \<Rightarrow> fits_flat float32 s a) nas)"
| "fits float32 s a = fits_flat float32 s a"

lemma int32_ok: "transmits f ''int32'' r \<Longrightarrow> int32 r = Inr \<lfloor>r\<rfloor> \<and> of_int \<lfloor>r\<rfloor> = r"
  by (auto simp: transmits_def int32_def pb_int_def)

lemma pack_box_roundtrip:
  assumes "list_all (transmits float32 dt) xs"
  shows "\<exists>c. pack_box float32 dt xs = Inr c \<and> create_data c = Array xs"
proof -
  have all: "transmits float32 dt x" if "x \<in> set xs" for x using assms that by (simp add: list_all_iff)
  consider (int) "dt \<in> set [''int'', ''int8'', ''int16'', ''int32'', ''int64'']"
    | (uint) "dt \<notin> set [''int'', ''int8'', ''int16'', ''int32'', ''int64'']"
        "dt \<in> set [''uint'', ''uint8'', ''uint16'', ''uint32'', ''uint64'']"
    | (real) "dt \<notin> set [''int'', ''int8'', ''int16'', ''int32'', ''int64'']"
        "dt \<notin> set [''uint'', ''uint8'', ''uint16'', ''uint32'', ''uint64'']"
    by blast
  then show ?thesis
  proof cases
    case int
    then have ok: "int32 x = Inr \<lfloor>x\<rfloor> \<and> of_int \<lfloor>x\<rfloor> = x" if "x \<in> set xs" for x
      using all [OF that] unfolding transmits_def int32_def pb_int_def by auto
    have "res_map int32 xs = Inr (map floor xs)" using ok by (intro res_map_Inr) simp
    moreover have "map (of_int \<circ> floor) xs = xs" using ok by (intro map_idI) simp
    ultimately show ?thesis
      unfolding pack_box_def Let_def if_P [OF int] by (simp add: create_data.simps)
  next
    case uint
    then have ok: "uint32 x = Inr \<lfloor>x\<rfloor> \<and> of_int \<lfloor>x\<rfloor> = x" if "x \<in> set xs" for x
      using all [OF that] unfolding transmits_def uint32_def pb_int_def by auto
    have "res_map uint32 xs = Inr (map floor xs)" using ok by (intro res_map_Inr) simp
    moreover have "map (of_int \<circ> floor) xs = xs" using ok by (intro map_idI) simp
    ultimately show ?thesis
      unfolding pack_box_def Let_def if_not_P [OF uint(1)] if_P [OF uint(2)] by (simp add: create_data.simps)
  next
    case real
    have ok: "dt = ''double'' \<or> float32 x = x" if "x \<in> set xs" for x
      using all [OF that] unfolding transmits_def if_not_P [OF real(1)] if_not_P [OF real(2)] .
    then have "dt \<noteq> ''double'' \<Longrightarrow> map float32 xs = xs" by (intro map_idI) auto
    then show ?thesis
      unfolding pack_box_def Let_def if_not_P [OF real(1)] if_not_P [OF real(2)]
      by (cases "dt = ''double''") (simp_all add: create_data.simps)
  qed
qed

lemma pack_flat_roundtrip:
  assumes "fits_flat float32 s a"
  shows "\<exists>c. pack_data float32 act_space a (Some s) = Inr c \<and> create_data c = a"
proof -
  consider k r where "s = Discrete_space k" "a = Num r" "transmits float32 ''int32'' r"
    | low high shape dt xs where "s = Box_space low high shape dt" "a = Array xs" "list_all (transmits float32 dt) xs"
    using assms by (cases "(float32, s, a)" rule: fits_flat.cases) auto
  then show ?thesis
  proof cases
    case 1
    then show ?thesis using int32_ok [of float32 r] by (simp add: pack_data.simps create_data.simps)
  next
    case 2
    then show ?thesis
      using pack_box_roundtrip [of float32 dt xs] by (simp add: pack_data.simps numbers_of_def)
  qed
qed

lemma res_map_roundtrip:
  "\<forall>x \<in> set xs. \<exists>c. f x = Inr c \<and> g c = h x \<Longrightarrow> \<exists>cs. res_map f xs = Inr cs \<and> map g cs = map h xs"
  by (induction xs) fastforce+

lemma update_fresh: "n \<notin> fst ` set ds \<Longrightarrow> AList.update n d ds = ds @ [(n, d)]"
  by (induction ds) auto

lemma collect_entries:
  "distinct (map fst ds @ map fst nds) \<Longrightarrow> fold (\<lambda>(n, d) ds. AList.update n d ds) nds ds = ds @ nds"
proof (induction nds arbitrary: ds)
  case (Cons nd nds)
  then show ?case by (cases nd) (simp add: update_fresh)
qed simp

lemma create_with_name: "create_data (with_name n c) = create_data c"
  by (cases c) (simp add: with_name_def create_data.simps)

text \<open>C27: An action that fits the action space (a number, an array, or a tuple or dictionary of these,
  with values that the field types of the protocol hold) is packed without error, and reading the
  container gives the same action back.\<close>

theorem pack_create_roundtrip:
  assumes "fits float32 s a"
  shows "\<exists>c. pack_data float32 (Some s) a (Some s) = Inr c \<and> create_data c = a"
proof -
  consider ss as where "s = Tuple_space ss" "a = Tup as" "list_all2 (fits_flat float32) ss as"
    | nss nas where "s = Dict_space nss" "a = Dic nas" "distinct (map fst nas)"
        "list_all (\<lambda>(n, a). case map_of nss n of None \<Rightarrow> False | Some s \<Rightarrow> fits_flat float32 s a) nas"
    | "fits_flat float32 s a"
    using assms by (cases "(float32, s, a)" rule: fits.cases) auto
  then show ?thesis
  proof cases
    case (1 ss as)
    have "\<forall>x \<in> set (zip as (map Some ss)). \<exists>c. (\<lambda>(x, p). pack_data float32 (Some s) x p) x = Inr c
        \<and> create_data c = fst x"
      using 1(3) pack_flat_roundtrip by (fastforce simp: list_all2_iff in_set_zip)
    then obtain cs where "res_map (\<lambda>(x, p). pack_data float32 (Some s) x p) (zip as (map Some ss)) = Inr cs"
        "map create_data cs = map fst (zip as (map Some ss))"
      using res_map_roundtrip by blast
    then show ?thesis
      using 1 by (simp add: pack_data.simps [of _ _ _ "Some (Tuple_space ss)"] part_list_def items_of_def
          create_data.simps list_all2_lengthD)
  next
    case (2 nss nas)
    define f where "f = (\<lambda>(n, x). case part_named (Some (Dict_space nss)) n of Inl e \<Rightarrow> Inl e
      | Inr p \<Rightarrow> res_bind (pack_data float32 (Some (Dict_space nss)) x (Some p)) (\<lambda>c. Inr (with_name n c)))"
    have "\<exists>c. f x = Inr c \<and> (con_name c, create_data c) = x" if x: "x \<in> set nas" for x
    proof (cases x)
      case (Pair n y)
      then obtain p where p: "map_of nss n = Some p" "fits_flat float32 p y"
        using 2(4) x by (fastforce simp: list_all_iff split: option.splits)
      then obtain c where "pack_data float32 (Some (Dict_space nss)) y (Some p) = Inr c" "create_data c = y"
        using pack_flat_roundtrip by blast
      then show ?thesis
        using Pair p create_with_name [of n c]
        by (simp add: f_def part_named_def) (simp add: with_name_def)
    qed
    then obtain cs where "res_map f nas = Inr cs" "map (\<lambda>c. (con_name c, create_data c)) cs = nas"
      using res_map_roundtrip [of nas f "\<lambda>c. (con_name c, create_data c)" "\<lambda>x. x"] by auto
    then show ?thesis
      using 2 collect_entries [of "[]" nas]
      by (simp add: f_def pack_data.simps [of _ _ _ "Some (Dict_space nss)"] entries_of_def create_data.simps)
  next
    case 3
    then show ?thesis by (rule pack_flat_roundtrip)
  qed
qed

theorem pack_create_roundtrip_witness:
  "\<exists>c. pack_data (\<lambda>x. x) (Some (Dict_space [(''cw'', Box_space 0 100 [2] ''uint64''), (''on'', Discrete_space 2)]))
      (Dic [(''on'', Num 1), (''cw'', Array [15, 31])])
      (Some (Dict_space [(''cw'', Box_space 0 100 [2] ''uint64''), (''on'', Discrete_space 2)])) = Inr c
    \<and> create_data c = Dic [(''on'', Num 1), (''cw'', Array [15, 31])]"
  by (rule pack_create_roundtrip) (simp add: transmits_def)

text \<open>An action space with a tuple inside a tuple cannot be used: below the top the code still takes
  the parts of the whole action space, so a number inside the inner tuple is packed as a tuple
  and \<^verbatim>\<open>TypeError\<close> is raised.\<close>

theorem nested_tuple_raises:
  "pack_data float32 (Some (Tuple_space (Tuple_space ss # rest))) (Tup (Tup (Num r # as) # bs))
     (Some (Tuple_space (Tuple_space ss # rest))) = Inl TypeError"
  by (simp add: pack_data.simps part_list_def items_of_def)

end
