(* ===== verification/Gym_Bridge.thy ===== *)
theory Gym_Bridge
  imports Gym_Data
begin

text \<open>
  \<^verbatim>\<open>contrib/opengym/model/ns3gym/ns3gym/ns3env.py\<close>, part 2: the bridge to the simulator (\<^verbatim>\<open>Ns3ZmqBridge\<close>)
  and the gym environment (\<^verbatim>\<open>Ns3Env\<close>).

  The socket is a ZeroMQ reply socket: it receives and sends in strict alternation, starting with a
  receive; anything else raises \<^verbatim>\<open>ZMQError\<close>. The state of the bridge holds the messages the simulator
  will send (\<open>inbox\<close>) and the replies sent so far. A receive with nothing to come blocks for ever
  (\<open>Blocks\<close>). An operation returns the bridge it leaves, so that what happened before an exception
  is kept. How protobuf parses a message is a parameter.
\<close>

section \<open>Messages and state\<close>

record sim_init =
  simProcessId :: nat
  wafShellProcessId :: nat
  obsSpace :: space_desc
  actSpace :: space_desc

datatype reason = SimulationEnd | GameOver

record env_state =
  es_obsData :: container
  es_reward :: rat
  isGameOver :: bool
  es_reason :: reason
  es_info :: string

datatype reply = SimInitAck bool bool | EnvActMsg "container option" bool

record codec =
  parse_init :: "string \<Rightarrow> sim_init res"
  parse_state :: "string \<Rightarrow> env_state res"

datatype socket_state = Must_recv | Must_send

datatype extra = No_extra | Empty_dict | Info string

text \<open>\<open>ns3Process\<close> is \<open>None\<close> when no process was started, otherwise whether it is still running.\<close>

record bridge =
  b_port :: int
  b_simSeed :: nat
  envStopped :: bool
  simPid :: "nat option"
  wafPid :: "nat option"
  ns3Process :: "bool option"
  b_action_space :: "space option"
  b_observation_space :: "space option"
  forceEnvStop :: bool
  obsData :: data
  reward :: rat
  gameOver :: bool
  gameOverReason :: "reason option"
  extraInfo :: extra
  newStateRx :: bool
  socket :: socket_state
  inbox :: "string list"
  sent :: "reply list"

definition ZMQError :: py_error where
  "ZMQError = PyException ''ZMQError''"

datatype 'a outcome = Returns 'a | Raises py_error | Blocks

type_synonym 'a io = "bridge \<times> 'a outcome"

definition io_bind :: "'a io \<Rightarrow> (bridge \<Rightarrow> 'a \<Rightarrow> 'b io) \<Rightarrow> 'b io" where
  "io_bind r f = (case r of
       (b, Returns x) \<Rightarrow> f b x | (b, Raises e) \<Rightarrow> (b, Raises e) | (b, Blocks) \<Rightarrow> (b, Blocks))"

definition io_res :: "bridge \<Rightarrow> 'a res \<Rightarrow> 'a io" where
  "io_res b r = (b, case r of Inl e \<Rightarrow> Raises e | Inr x \<Rightarrow> Returns x)"

definition sock_recv :: "bridge \<Rightarrow> string io" where
  "sock_recv b =
     (if socket b \<noteq> Must_recv then (b, Raises ZMQError)
      else case inbox b of
             [] \<Rightarrow> (b, Blocks)
           | m # ms \<Rightarrow> (b\<lparr>inbox := ms, socket := Must_send\<rparr>, Returns m))"

definition sock_send :: "reply \<Rightarrow> bridge \<Rightarrow> unit io" where
  "sock_send r b =
     (if socket b \<noteq> Must_send then (b, Raises ZMQError)
      else (b\<lparr>sent := sent b @ [r], socket := Must_recv\<rparr>, Returns ()))"

section \<open>The bridge\<close>

text \<open>\<open>bind\<close> is the port the socket gets, if it can be bound; \<open>drawn\<close> the seed numpy draws; \<open>msgs\<close> what
  the simulator sends.\<close>

definition new_bridge ::
  "(int \<Rightarrow> int option) \<Rightarrow> nat \<Rightarrow> string list \<Rightarrow> int \<Rightarrow> bool \<Rightarrow> nat \<Rightarrow> bridge res" where
  "new_bridge bind drawn msgs port start_sim seed =
     (case bind port of
        None \<Rightarrow> Inl (SystemExit 0)
      | Some p \<Rightarrow> Inr
          \<lparr>b_port = (if port = 0 then p else port), b_simSeed = (if start_sim \<and> seed = 0 then drawn else seed),
           envStopped = False, simPid = None, wafPid = None,
           ns3Process = (if start_sim then Some True else None), b_action_space = None,
           b_observation_space = None, forceEnvStop = False, obsData = No_data, reward = 0, gameOver = False,
           gameOverReason = None, extraInfo = No_extra, newStateRx = False, socket = Must_recv,
           inbox = msgs, sent = []\<rparr>)"

definition initialize_env :: "codec \<Rightarrow> (space \<Rightarrow> bool) \<Rightarrow> bridge \<Rightarrow> bool io" where
  "initialize_env cod check b =
     io_bind (sock_recv b) (\<lambda>b request.
     io_bind (io_res b (parse_init cod request)) (\<lambda>b msg.
       let b = b\<lparr>simPid := Some (simProcessId msg), wafPid := Some (wafShellProcessId msg)\<rparr> in
     io_bind (io_res b (create_space check (actSpace msg))) (\<lambda>b a.
       let b = b\<lparr>b_action_space := a\<rparr> in
     io_bind (io_res b (create_space check (obsSpace msg))) (\<lambda>b s.
       let b = b\<lparr>b_observation_space := s\<rparr> in
     io_bind (sock_send (SimInitAck True False) b) (\<lambda>b _. (b, Returns True))))))"

definition force_env_stop :: "bridge \<Rightarrow> bridge" where
  "force_env_stop b = b\<lparr>forceEnvStop := True\<rparr>"

definition send_close_command :: "bridge \<Rightarrow> bool io" where
  "send_close_command b =
     io_bind (sock_send (EnvActMsg None True) b) (\<lambda>b _. (b\<lparr>newStateRx := False\<rparr>, Returns True))"

definition end_of_game :: "bridge \<Rightarrow> bool io" where
  "end_of_game b =
     (if gameOver b
      then if gameOverReason b = Some SimulationEnd
           then send_close_command (b\<lparr>envStopped := True\<rparr>)
           else send_close_command (b\<lparr>forceEnvStop := True\<rparr>)
      else (b, Returns True))"

definition rx_env_state :: "codec \<Rightarrow> bridge \<Rightarrow> unit io" where
  "rx_env_state cod b =
     (if newStateRx b then (b, Returns ())
      else io_bind (sock_recv b) (\<lambda>b request.
           io_bind (io_res b (parse_state cod request)) (\<lambda>b msg.
             let b = b\<lparr>obsData := create_data (es_obsData msg), reward := es_reward msg,
                       gameOver := isGameOver msg, gameOverReason := Some (es_reason msg)\<rparr> in
           io_bind (end_of_game b) (\<lambda>b _.
             (b\<lparr>extraInfo := (if es_info msg = '''' then Empty_dict else Info (es_info msg)),
                newStateRx := True\<rparr>, Returns ())))))"

definition send_actions :: "(rat \<Rightarrow> rat) \<Rightarrow> data \<Rightarrow> bridge \<Rightarrow> bool io" where
  "send_actions float32 actions b =
     io_bind (io_res b (pack_data float32 (b_action_space b) actions (b_action_space b))) (\<lambda>b c.
     io_bind (sock_send (EnvActMsg (Some c) (forceEnvStop b)) b) (\<lambda>b _.
       (b\<lparr>newStateRx := False\<rparr>, Returns True)))"

definition bridge_step :: "codec \<Rightarrow> (rat \<Rightarrow> rat) \<Rightarrow> data \<Rightarrow> bridge \<Rightarrow> unit io" where
  "bridge_step cod float32 actions b =
     io_bind (send_actions float32 actions b) (\<lambda>b _. rx_env_state cod b)"

text \<open>\<^verbatim>\<open>ns3Process\<close> is the child that the bridge has started itself (the shell that runs ns3), if it has;
  the simulator that answers on the socket is not signalled.
  The module does not import \<^verbatim>\<open>signal\<close>, so each \<^verbatim>\<open>os.kill\<close> raises \<^verbatim>\<open>NameError\<close>. A process number 0 is
  false.\<close>

definition kill_process :: "bridge \<Rightarrow> unit io" where
  "kill_process b = (case ns3Process b of
       None \<Rightarrow> (b, Raises AttributeError) | Some _ \<Rightarrow> (b\<lparr>ns3Process := Some False\<rparr>, Returns ()))"

definition kill_pids :: "bridge \<Rightarrow> unit io" where
  "kill_pids b =
     (if simPid b \<noteq> None \<and> simPid b \<noteq> Some 0 then (b, Raises NameError)
      else if wafPid b \<noteq> None \<and> wafPid b \<noteq> Some 0 then (b, Raises NameError)
      else (b, Returns ()))"

definition close_steps :: "codec \<Rightarrow> bridge \<Rightarrow> unit io" where
  "close_steps cod b =
     (if \<not> envStopped b
      then io_bind (rx_env_state cod (force_env_stop (b\<lparr>envStopped := True\<rparr>))) (\<lambda>b _.
           io_bind (send_close_command b) (\<lambda>b _.
           io_bind (kill_process b) (\<lambda>b _. kill_pids b)))
      else (b, Returns ()))"

definition bridge_close :: "codec \<Rightarrow> bridge \<Rightarrow> unit io" where
  "bridge_close cod b =
     (case close_steps cod b of
        (b, Raises e) \<Rightarrow> (b, case e of SystemExit k \<Rightarrow> Raises (SystemExit k) | _ \<Rightarrow> Returns ())
      | r \<Rightarrow> r)"

section \<open>The environment\<close>

text \<open>\<open>runs\<close> lists, for the bridges to come, the seed drawn and the messages of the simulator.
  \<open>envDirty\<close> is not set before \<^verbatim>\<open>init\<close>.\<close>

record ns3_env =
  e_port :: int
  e_startSim :: bool
  e_simSeed :: nat
  e_bridge :: "bridge option"
  action_space :: "space option"
  observation_space :: "space option"
  envDirty :: "bool option"
  has_initialized :: bool
  runs :: "(nat \<times> string list) list"

type_synonym observation = "data \<times> rat \<times> bool \<times> extra"

definition next_run :: "ns3_env \<Rightarrow> nat \<times> string list" where
  "next_run e = (case runs e of [] \<Rightarrow> (0, []) | r # rs \<Rightarrow> r)"

definition make_bridge :: "(int \<Rightarrow> int option) \<Rightarrow> ns3_env \<Rightarrow> ns3_env \<times> unit outcome" where
  "make_bridge bind e =
     (case new_bridge bind (fst (next_run e)) (snd (next_run e)) (e_port e) (e_startSim e) (e_simSeed e) of
        Inl x \<Rightarrow> (e, Raises x)
      | Inr b \<Rightarrow> (e\<lparr>e_bridge := Some b, runs := tl (runs e)\<rparr>, Returns ()))"

definition new_env :: "(int \<Rightarrow> int option) \<Rightarrow> int \<Rightarrow> bool \<Rightarrow> nat \<Rightarrow> (nat \<times> string list) list \<Rightarrow> ns3_env \<times> unit outcome" where
  "new_env bind port start_sim seed rs =
     make_bridge bind \<lparr>e_port = port, e_startSim = start_sim, e_simSeed = seed, e_bridge = None,
       action_space = None, observation_space = None, envDirty = None, has_initialized = False, runs = rs\<rparr>"

definition get_port :: "ns3_env \<Rightarrow> int" where
  "get_port e = (case e_bridge e of Some b \<Rightarrow> b_port b | None \<Rightarrow> e_port e)"

text \<open>An operation of the bridge inside the environment; without a bridge the attribute access fails.\<close>

definition on_bridge :: "(bridge \<Rightarrow> 'a io) \<Rightarrow> ns3_env \<Rightarrow> ns3_env \<times> 'a outcome" where
  "on_bridge f e = (case e_bridge e of
       None \<Rightarrow> (e, Raises AttributeError)
     | Some b \<Rightarrow> (case f b of (b', r) \<Rightarrow> (e\<lparr>e_bridge := Some b'\<rparr>, r)))"

definition env_bind :: "ns3_env \<times> 'a outcome \<Rightarrow> (ns3_env \<Rightarrow> 'a \<Rightarrow> ns3_env \<times> 'b outcome) \<Rightarrow> ns3_env \<times> 'b outcome" where
  "env_bind r f = (case r of
       (e, Returns x) \<Rightarrow> f e x | (e, Raises x) \<Rightarrow> (e, Raises x) | (e, Blocks) \<Rightarrow> (e, Blocks))"

definition copy_spaces :: "ns3_env \<Rightarrow> ns3_env" where
  "copy_spaces e = (case e_bridge e of
       None \<Rightarrow> e
     | Some b \<Rightarrow> e\<lparr>action_space := b_action_space b, observation_space := b_observation_space b\<rparr>)"

definition env_init :: "codec \<Rightarrow> (space \<Rightarrow> bool) \<Rightarrow> ns3_env \<Rightarrow> ns3_env \<times> unit outcome" where
  "env_init cod check e =
     (if has_initialized e then (e, Returns ())
      else env_bind (on_bridge (initialize_env cod check) e) (\<lambda>e _.
           env_bind (on_bridge (rx_env_state cod) (copy_spaces e)) (\<lambda>e _.
             (e\<lparr>envDirty := Some False, has_initialized := True\<rparr>, Returns ()))))"

definition get_state :: "bridge \<Rightarrow> observation" where
  "get_state b = (obsData b, reward b, gameOver b, extraInfo b)"

definition env_step :: "codec \<Rightarrow> (rat \<Rightarrow> rat) \<Rightarrow> data \<Rightarrow> ns3_env \<Rightarrow> ns3_env \<times> observation outcome" where
  "env_step cod float32 action e =
     env_bind (on_bridge (bridge_step cod float32 action) e) (\<lambda>e _.
       on_bridge (\<lambda>b. (b, Returns (get_state b))) (e\<lparr>envDirty := Some True\<rparr>))"

definition env_close :: "codec \<Rightarrow> ns3_env \<Rightarrow> ns3_env \<times> unit outcome" where
  "env_close cod e =
     (if e_bridge e = None then (e, Returns ())
      else env_bind (on_bridge (bridge_close cod) e) (\<lambda>e _. (e\<lparr>e_bridge := None\<rparr>, Returns ())))"

definition env_reset ::
  "(int \<Rightarrow> int option) \<Rightarrow> codec \<Rightarrow> (space \<Rightarrow> bool) \<Rightarrow> ns3_env \<Rightarrow> ns3_env \<times> data outcome" where
  "env_reset bind cod check e =
     (case envDirty e of
        None \<Rightarrow> (e, Raises AttributeError)
      | Some False \<Rightarrow> on_bridge (\<lambda>b. (b, Returns (obsData b))) e
      | Some True \<Rightarrow>
          env_bind (env_close cod e) (\<lambda>e _.
          env_bind (make_bridge bind (e\<lparr>envDirty := Some False\<rparr>)) (\<lambda>e _.
          env_bind (on_bridge (initialize_env cod check) e) (\<lambda>e _.
          env_bind (on_bridge (rx_env_state cod) (copy_spaces e)) (\<lambda>e _.
            on_bridge (\<lambda>b. (b, Returns (obsData b))) e)))))"

section \<open>The exchange of messages\<close>

lemmas io_defs = io_bind_def io_res_def sock_recv_def sock_send_def

text \<open>The bridges an agent reaches by initialising, receiving the first state and stepping until the
  game is over.\<close>

inductive playing :: "codec \<Rightarrow> (space \<Rightarrow> bool) \<Rightarrow> (rat \<Rightarrow> rat) \<Rightarrow> bridge \<Rightarrow> bool" for cod check float32 where
  ready: "new_bridge bind drawn msgs port start_sim seed = Inr b \<Longrightarrow> initialize_env cod check b = (b', Returns x) \<Longrightarrow>
     rx_env_state cod b' = (b'', Returns u) \<Longrightarrow> playing cod check float32 b''"
| stepped: "playing cod check float32 b \<Longrightarrow> \<not> gameOver b \<Longrightarrow> bridge_step cod float32 a b = (b', Returns u) \<Longrightarrow>
     playing cod check float32 b'"

text \<open>After a state was received: the reply is due, unless it was the closing command already.\<close>

definition settled :: "bridge \<Rightarrow> bool" where
  "settled b \<longleftrightarrow> newStateRx b \<and> socket b = (if gameOver b then Must_recv else Must_send)
     \<and> (gameOver b \<longrightarrow> last (sent b) = EnvActMsg None True) \<and> (\<not> gameOver b \<longrightarrow> \<not> envStopped b)"

definition fresh :: "bridge \<Rightarrow> bool" where
  "fresh b \<longleftrightarrow> \<not> newStateRx b \<and> \<not> envStopped b"

lemma rx_settled:
  assumes "rx_env_state cod b = (b', Returns u)" "fresh b"
  shows "settled b'"
  using assms
  by (auto simp: rx_env_state_def end_of_game_def send_close_command_def io_defs settled_def fresh_def Let_def
      split: if_splits list.splits sum.splits)

lemma init_fresh:
  assumes "new_bridge bind drawn msgs port start_sim seed = Inr b" "initialize_env cod check b = (b', Returns x)"
  shows "fresh b'"
  using assms
  by (auto simp: new_bridge_def initialize_env_def io_defs fresh_def Let_def
      split: if_splits option.splits list.splits sum.splits)

lemma send_actions_fresh: "send_actions float32 a b = (b', Returns u) \<Longrightarrow> \<not> envStopped b \<Longrightarrow> fresh b'"
  by (auto simp: send_actions_def io_defs fresh_def split: if_splits sum.splits)

lemma playing_settled: "playing cod check float32 b \<Longrightarrow> settled b"
proof (induction rule: playing.induct)
  case (ready bind drawn msgs port start_sim seed b b' x b'' u)
  then show ?case using rx_settled init_fresh by blast
next
  case (stepped b a b' u)
  obtain c v where c: "send_actions float32 a b = (c, Returns v)" "rx_env_state cod c = (b', Returns u)"
    using stepped.hyps(3) by (auto simp: bridge_step_def io_bind_def split: prod.splits outcome.splits)
  then show ?case
    using rx_settled send_actions_fresh stepped.IH stepped.hyps(2) unfolding settled_def by blast
qed

text \<open>C26: While the game is not over, a step whose action can be packed sends exactly that action and
  then takes exactly one message from the simulator, whose observation, reward, end flag and
  information become the state; when the message ends the game, the closing command follows.\<close>

theorem step_exchange:
  assumes "playing cod check float32 b" "\<not> gameOver b" "inbox b = m # ms" "parse_state cod m = Inr st"
    and "pack_data float32 (b_action_space b) a (b_action_space b) = Inr c"
  shows "\<exists>b'. bridge_step cod float32 a b = (b', Returns ())
    \<and> get_state b' = (create_data (es_obsData st), es_reward st, isGameOver st,
        if es_info st = '''' then Empty_dict else Info (es_info st))
    \<and> inbox b' = ms
    \<and> sent b' = sent b @ EnvActMsg (Some c) (forceEnvStop b) # (if isGameOver st then [EnvActMsg None True] else [])"
proof -
  have "socket b = Must_send" using playing_settled [OF assms(1)] assms(2) by (simp add: settled_def)
  then have sent: "send_actions float32 a b = (b\<lparr>sent := sent b @ [EnvActMsg (Some c) (forceEnvStop b)],
      socket := Must_recv, newStateRx := False\<rparr>, Returns True)"
    by (simp add: send_actions_def io_defs assms(5))
  show ?thesis
    unfolding bridge_step_def sent io_bind_def prod.case outcome.case
    using assms(3,4)
    by (simp add: rx_env_state_def io_defs end_of_game_def send_close_command_def get_state_def Let_def)
qed

text \<open>Once the game is over, a further step raises \<^verbatim>\<open>ZMQError\<close>: the closing command has been sent in
  place of the reply the step wants to send. The bridge is left as it was.\<close>

theorem step_after_game_over:
  assumes "playing cod check float32 b" "gameOver b"
    and "pack_data float32 (b_action_space b) a (b_action_space b) = Inr c"
  shows "bridge_step cod float32 a b = (b, Raises ZMQError)"
  using playing_settled [OF assms(1)] assms(2,3)
  by (simp add: settled_def bridge_step_def send_actions_def io_defs)

text \<open>C38: \<^verbatim>\<open>close\<close> never raises, and it kills the process of the simulator exactly when the game is not
  over; after the end of a game the \<^verbatim>\<open>ZMQError\<close> of its second closing command is swallowed before
  the process is killed.\<close>

theorem close_kills_process:
  assumes "playing cod check float32 b"
  shows "snd (bridge_close cod b) = Returns ()
    \<and> ns3Process (fst (bridge_close cod b)) = (if gameOver b then ns3Process b else map_option (\<lambda>_. False) (ns3Process b))"
  using playing_settled [OF assms]
  by (auto simp: settled_def bridge_close_def close_steps_def rx_env_state_def force_env_stop_def send_close_command_def
      kill_process_def kill_pids_def io_defs ZMQError_def split: option.splits)

section \<open>A small game\<close>

definition demo_codec :: codec where
  "demo_codec = \<lparr>parse_init = (\<lambda>_. Inr \<lparr>simProcessId = 7, wafShellProcessId = 0,
       obsSpace = Space_desc Discrete (DiscreteSpace 5) '''', actSpace = Space_desc Discrete (DiscreteSpace 3) ''''\<rparr>),
     parse_state = (\<lambda>m. Inr \<lparr>es_obsData = Container Discrete (DiscreteData (int (length m))) '''', es_reward = 1,
       isGameOver = (m = ''over''), es_reason = GameOver, es_info = ''''\<rparr>)\<rparr>"

definition demo_bridge :: "string list \<Rightarrow> bridge" where
  "demo_bridge msgs = \<lparr>b_port = 5555, b_simSeed = 9, envStopped = False, simPid = Some 7, wafPid = Some 0,
     ns3Process = Some True, b_action_space = Some (Discrete_space 3), b_observation_space = Some (Discrete_space 5),
     forceEnvStop = False, obsData = Num 0, reward = 1, gameOver = False, gameOverReason = Some GameOver,
     extraInfo = Empty_dict, newStateRx = True, socket = Must_send, inbox = msgs, sent = [SimInitAck True False]\<rparr>"

lemma demo_playing: "playing demo_codec (\<lambda>_. True) (\<lambda>x. x) (demo_bridge msgs)"
proof -
  obtain b where b: "new_bridge Some 9 (''init'' # '''' # msgs) 5555 True 9 = Inr b"
    by (simp add: new_bridge_def)
  obtain c where c: "initialize_env demo_codec (\<lambda>_. True) b = (c, Returns True)"
      "rx_env_state demo_codec c = (demo_bridge msgs, Returns ())"
    using b by (auto simp: new_bridge_def initialize_env_def rx_env_state_def end_of_game_def io_defs demo_codec_def
        demo_bridge_def checked_def create_space.simps create_data.simps Let_def)
  show ?thesis by (rule playing.ready [OF b c])
qed

lemma demo_pack: "pack_data (\<lambda>x. x) (Some (Discrete_space 3)) (Num 2) (Some (Discrete_space 3))
    = Inr (Container Discrete (DiscreteData 2) '''')"
  by (simp add: pack_data.simps int32_def pb_int_def)

theorem step_exchange_witness:
  "\<exists>b'. bridge_step demo_codec (\<lambda>x. x) (Num 2) (demo_bridge [''abc'']) = (b', Returns ())
    \<and> get_state b' = (Num 3, 1, False, Empty_dict)"
proof -
  define st where "st = \<lparr>es_obsData = Container Discrete (DiscreteData 3) '''', es_reward = 1,
    isGameOver = False, es_reason = GameOver, es_info = ''''\<rparr>"
  have st: "parse_state demo_codec ''abc'' = Inr st" by (simp add: demo_codec_def st_def)
  have "\<not> gameOver (demo_bridge [''abc''])" "inbox (demo_bridge [''abc'']) = [''abc'']"
    "pack_data (\<lambda>x. x) (b_action_space (demo_bridge [''abc''])) (Num 2) (b_action_space (demo_bridge [''abc'']))
      = Inr (Container Discrete (DiscreteData 2) '''')"
    by (simp_all add: demo_bridge_def demo_pack)
  from step_exchange [OF demo_playing this(1,2) st this(3)]
  show ?thesis by (auto simp: st_def create_data.simps)
qed

definition demo_over :: bridge where
  "demo_over = fst (bridge_step demo_codec (\<lambda>x. x) (Num 2) (demo_bridge [''over'']))"

lemma demo_over: "playing demo_codec (\<lambda>_. True) (\<lambda>x. x) demo_over \<and> gameOver demo_over
    \<and> b_action_space demo_over = Some (Discrete_space 3) \<and> ns3Process demo_over = Some True"
proof -
  obtain b where b: "bridge_step demo_codec (\<lambda>x. x) (Num 2) (demo_bridge [''over'']) = (b, Returns ())" "gameOver b"
      "b_action_space b = Some (Discrete_space 3)" "ns3Process b = Some True"
    by (simp add: bridge_step_def send_actions_def rx_env_state_def end_of_game_def send_close_command_def io_defs
        demo_bridge_def demo_pack demo_codec_def Let_def)
  have "playing demo_codec (\<lambda>_. True) (\<lambda>x. x) b"
    by (rule playing.stepped [OF demo_playing _ b(1)]) (simp add: demo_bridge_def)
  then show ?thesis using b by (simp add: demo_over_def)
qed

theorem step_after_game_over_witness:
  "bridge_step demo_codec (\<lambda>x. x) (Num 2) demo_over = (demo_over, Raises ZMQError)"
  using step_after_game_over [of demo_codec "\<lambda>_. True" "\<lambda>x. x" demo_over "Num 2"] demo_over demo_pack by simp

theorem close_kills_process_witness:
  "ns3Process (fst (bridge_close demo_codec demo_over)) = Some True
   \<and> ns3Process (fst (bridge_close demo_codec (demo_bridge []))) = Some False"
  using close_kills_process [of demo_codec "\<lambda>_. True" "\<lambda>x. x" demo_over]
    close_kills_process [OF demo_playing, of "[]"] demo_over by (simp add: demo_bridge_def)

end
