(* ===== verification/Gym_Start.thy ===== *)
theory Gym_Start
  imports Py_Prelude
begin

text \<open>
  \<^verbatim>\<open>contrib/opengym/model/ns3gym/ns3gym/start_sim.py\<close>: finding the executable \<^verbatim>\<open>ns3\<close> above the working
  directory, building the project and starting the simulation script.

  \<open>listing\<close> is what \<^verbatim>\<open>os.listdir\<close> returns. The search has no other exit than a hit or an error: it is
  a partial function, \<open>None\<close> when it never ends. Each function returns the command it hands to the
  shell with the directory it runs in, and what it prints; the working directory is restored.
\<close>

section \<open>Finding ns3\<close>

partial_function (option) find_loop :: "(string \<Rightarrow> string list res) \<Rightarrow> string \<Rightarrow> string res option" where
  "find_loop listing my_dir =
     (case listing my_dir of
        Inl e \<Rightarrow> Some (Inl e)
      | Inr names \<Rightarrow>
          if ''ns3'' \<in> set names then Some (Inr (path_join my_dir ''ns3''))
          else find_loop listing (path_dirname my_dir))"

declare find_loop.simps [code]

definition find_ns3_path :: "(string \<Rightarrow> string list res) \<Rightarrow> string \<Rightarrow> string res option" where
  "find_ns3_path listing cwd = find_loop listing cwd"

section \<open>Building and starting\<close>

record launch =
  command :: string
  run_dir :: string
  console :: "string list"

text \<open>The loop over the output of the build; the test for compiling or linking is disabled, so the
  first line counts as a build. The state is \<open>(build_required, line_history, output)\<close>.\<close>

definition echo_line :: "string \<Rightarrow> bool \<times> string list \<times> string list \<Rightarrow> bool \<times> string list \<times> string list" where
  "echo_line line = (\<lambda>(build_required, history, out).
     let (br, hist, out) =
       (if \<not> build_required then (True, [], out @ [''Build ns-3 project if required''] @ history)
        else (build_required, history, out))
     in if br then (br, hist, out @ [line]) else (br, hist @ [line], out))"

definition build_ns3_project ::
  "(string \<Rightarrow> string list res) \<Rightarrow> (string \<Rightarrow> string \<Rightarrow> string list \<times> int) \<Rightarrow> string \<Rightarrow> launch res option" where
  "build_ns3_project listing popen cwd =
     (case find_ns3_path listing cwd of
        None \<Rightarrow> None
      | Some (Inl e) \<Rightarrow> Some (Inl e)
      | Some (Inr ns3_path) \<Rightarrow>
          let base_ns3_dir = path_dirname ns3_path; cmd = ns3_path @ '' build'';
              (lines, p_status) = popen cmd base_ns3_dir;
              (build_required, history, out) = fold echo_line lines (False, [], [])
          in Some (Inr \<lparr>command = cmd, run_dir = base_ns3_dir,
               console = (if build_required
                          then out @ [''(Re-)Build of ns-3 finished with status:  '' @ int_str p_status] else out)\<rparr>))"

definition sim_command :: "string \<Rightarrow> string \<Rightarrow> int \<Rightarrow> nat \<Rightarrow> (string \<times> string) list \<Rightarrow> string" where
  "sim_command ns3_path script port sim_seed sim_args =
     ns3_path @ '' run \"'' @ script
     @ (if port \<noteq> 0 then '' --openGymPort='' @ int_str port else '''')
     @ (if sim_seed \<noteq> 0 then '' --simSeed='' @ int_str (int sim_seed) else '''')
     @ concat (map (\<lambda>(key, v). '' '' @ key @ ''='' @ v) sim_args) @ ''\"''"

definition start_sim_script ::
  "(string \<Rightarrow> string list res) \<Rightarrow> (string \<Rightarrow> string \<Rightarrow> int) \<Rightarrow> string \<Rightarrow> int \<Rightarrow> nat \<Rightarrow> (string \<times> string) list
     \<Rightarrow> launch res option" where
  "start_sim_script listing spawn cwd port sim_seed sim_args =
     (case find_ns3_path listing cwd of
        None \<Rightarrow> None
      | Some (Inl e) \<Rightarrow> Some (Inl e)
      | Some (Inr ns3_path) \<Rightarrow>
          let base_ns3_dir = path_dirname ns3_path;
              cmd = sim_command ns3_path (path_basename cwd) port sim_seed sim_args
          in Some (Inr \<lparr>command = cmd, run_dir = base_ns3_dir,
               console = [''Start command:  '' @ cmd,
                 ''Started ns3 simulation script, Process Id:  '' @ int_str (spawn cmd base_ns3_dir)]\<rparr>))"

section \<open>When the search ends\<close>

text \<open>The directory the loop looks at in its \<open>n\<close>-th round, and whether it stops there.\<close>

definition ancestor :: "string \<Rightarrow> nat \<Rightarrow> string" where
  "ancestor cwd n = (path_dirname ^^ n) cwd"

definition stops :: "(string \<Rightarrow> string list res) \<Rightarrow> string \<Rightarrow> bool" where
  "stops listing d = (case listing d of Inl e \<Rightarrow> True | Inr names \<Rightarrow> ''ns3'' \<in> set names)"

definition stop_value :: "(string \<Rightarrow> string list res) \<Rightarrow> string \<Rightarrow> string res" where
  "stop_value listing d = (case listing d of Inl e \<Rightarrow> Inl e | Inr _ \<Rightarrow> Inr (path_join d ''ns3''))"

lemma find_loop_stop: "stops listing d \<Longrightarrow> find_loop listing d = Some (stop_value listing d)"
  by (subst find_loop.simps) (simp add: stops_def stop_value_def split: sum.splits)

lemma find_loop_go: "\<not> stops listing d \<Longrightarrow> find_loop listing d = find_loop listing (path_dirname d)"
  by (subst find_loop.simps) (simp add: stops_def split: sum.splits)

lemma find_loop_finds:
  "stops listing ((path_dirname ^^ n) d) \<Longrightarrow> \<forall>m < n. \<not> stops listing ((path_dirname ^^ m) d)
    \<Longrightarrow> find_loop listing d = Some (stop_value listing ((path_dirname ^^ n) d))"
proof (induction n arbitrary: d)
  case (Suc n)
  have "\<not> stops listing d" using Suc.prems(2) by force
  moreover have "\<forall>m < n. \<not> stops listing ((path_dirname ^^ m) (path_dirname d))"
    using Suc.prems(2) by (metis Suc_less_eq funpow_simps_right(2) comp_apply)
  ultimately show ?case
    using Suc.IH [of "path_dirname d"] Suc.prems(1) find_loop_go
    by (simp add: funpow_swap1)
qed (simp add: find_loop_stop)

lemma find_loop_ends: "find_loop listing d = Some r \<Longrightarrow> \<exists>n. stops listing ((path_dirname ^^ n) d)"
proof (induction rule: find_loop.raw_induct [rotated, consumes 1])
  case (1 fl listing d r)
  show ?case
  proof (cases "stops listing d")
    case True
    then show ?thesis by (intro exI [of _ 0]) simp
  next
    case False
    then have "fl listing (path_dirname d) = Some r"
      using 1(2) by (simp add: stops_def split: sum.splits)
    then obtain n where "stops listing ((path_dirname ^^ n) (path_dirname d))" using 1(1) by blast
    then show ?thesis by (intro exI [of _ "Suc n"]) (simp add: funpow_swap1)
  qed
qed

text \<open>C39: The search for \<^verbatim>\<open>ns3\<close> ends exactly when some directory on the way up (the working directory
  first) has an entry of that name or cannot be listed, and then returns the entry or the error
  of the first such directory. With no such directory it stays at the root for ever.\<close>

theorem find_ns3_path_exact:
  "find_ns3_path listing cwd =
     (if \<exists>n. stops listing (ancestor cwd n)
      then Some (stop_value listing (ancestor cwd (LEAST n. stops listing (ancestor cwd n))))
      else None)"
proof (cases "\<exists>n. stops listing (ancestor cwd n)")
  case True
  then have "stops listing (ancestor cwd (LEAST n. stops listing (ancestor cwd n)))" by (rule LeastI_ex)
  moreover have "\<forall>m < (LEAST n. stops listing (ancestor cwd n)). \<not> stops listing (ancestor cwd m)"
    using not_less_Least by blast
  ultimately show ?thesis
    using find_loop_finds True by (simp add: find_ns3_path_def ancestor_def)
next
  case False
  then show ?thesis
    using find_loop_ends by (cases "find_loop listing cwd") (auto simp: find_ns3_path_def ancestor_def)
qed

text \<open>What the build prints: a heading before the first line, then the output as it is.\<close>

lemma echo_lines:
  "fold echo_line ls (True, h, out) = (True, h, out @ ls)"
  "ls \<noteq> [] \<Longrightarrow> fold echo_line ls (False, [], []) = (True, [], ''Build ns-3 project if required'' # ls)"
proof -
  show *: "fold echo_line ls (True, h, out) = (True, h, out @ ls)" for ls h out
    by (induction ls arbitrary: out) (simp_all add: echo_line_def)
  show "ls \<noteq> [] \<Longrightarrow> fold echo_line ls (False, [], []) = (True, [], ''Build ns-3 project if required'' # ls)"
    by (cases ls) (simp_all add: echo_line_def * Let_def)
qed

end
