(* ===== verification/Check_Style.thy ===== *)
theory Check_Style
  imports Config_Files
begin

text \<open>
  \<^verbatim>\<open>utils/check-style.py\<close>: the style checker. A file is indented by \<^verbatim>\<open>uncrustify\<close>, the difference is
  read as a patch, changes that only remove trailing white space are taken back, and the rest is
  applied to a copy, which is then compared with the file.

  The lines of a patch are objects that \<^verbatim>\<open>src()\<close> and \<^verbatim>\<open>dst()\<close> return by reference, a common line in
  both lists; the model keeps them in one list and passes indices, so that a change seen through
  one list is seen through the other. \<^verbatim>\<open>uncrustify\<close>, \<^verbatim>\<open>patch\<close> and \<^verbatim>\<open>difflib.unified_diff\<close> are parameters.
\<close>

section \<open>Patches\<close>

datatype line_type = SRC | DST | BOTH

record chunk_line =
  ltype :: line_type
  text_of_line :: string

record chunk =
  src_pos :: nat
  dst_pos :: nat
  chunk_lines :: "chunk_line list"

record patch =
  p_src :: string
  p_dst :: string
  p_chunks :: "chunk list"

definition is_src :: "chunk_line \<Rightarrow> bool" where
  "is_src l \<longleftrightarrow> ltype l = SRC \<or> ltype l = BOTH"

definition is_dst :: "chunk_line \<Rightarrow> bool" where
  "is_dst l \<longleftrightarrow> ltype l = DST \<or> ltype l = BOTH"

text \<open>The positions in the chunk of the lines \<^verbatim>\<open>src()\<close> and \<^verbatim>\<open>dst()\<close> return.\<close>

definition chunk_src :: "chunk_line list \<Rightarrow> nat list" where
  "chunk_src ls = filter (\<lambda>i. is_src (ls ! i)) [0..<length ls]"

definition chunk_dst :: "chunk_line list \<Rightarrow> nat list" where
  "chunk_dst ls = filter (\<lambda>i. is_dst (ls ! i)) [0..<length ls]"

section \<open>Writing\<close>

definition write_line :: "chunk_line \<Rightarrow> string" where
  "write_line l = (case ltype l of SRC \<Rightarrow> CHR ''-'' | DST \<Rightarrow> CHR ''+'' | BOTH \<Rightarrow> CHR '' '') # text_of_line l @ newline"

definition write_chunk :: "chunk \<Rightarrow> string list" where
  "write_chunk c =
     (''@@ -'' @ nat_digits (src_pos c) @ '','' @ nat_digits (length (chunk_src (chunk_lines c))) @ '' +''
       @ nat_digits (dst_pos c) @ '','' @ nat_digits (length (chunk_dst (chunk_lines c))) @ '' @@'' @ newline)
     # map write_line (chunk_lines c)"

definition write_patch :: "patch \<Rightarrow> string list" where
  "write_patch p = (''--- '' @ p_src p @ newline) # (''+++ '' @ p_dst p @ newline)
     # concat (map write_chunk (p_chunks p))"

section \<open>Parsing\<close>

text \<open>\<^verbatim>\<open>^key(.*)$\<close>: the dot does not match a newline, the dollar sign also matches before a final one.\<close>

definition match_rest :: "string \<Rightarrow> string \<Rightarrow> string option" where
  "match_rest key line =
     (if starts_with line key
      then let rest = drop (length key) line;
               body = (if rest \<noteq> '''' \<and> last rest = CHR 0x0A then butlast rest else rest)
           in if CHR 0x0A \<in> set body then None else Some body
      else None)"

text \<open>\<^verbatim>\<open>[0-9]+\<close> at the start, followed by a literal.\<close>

definition match_number :: "string \<Rightarrow> string \<Rightarrow> (nat \<times> string) option" where
  "match_number s lit =
     (let ds = takeWhile is_digit s; rest = dropWhile is_digit s
      in if ds \<noteq> '''' \<and> starts_with rest lit then Some (nat_of_digits ds, drop (length lit) rest) else None)"

definition match_chunk :: "string \<Rightarrow> (nat \<times> nat) option" where
  "match_chunk line =
     (if starts_with line ''@@ -''
      then case match_number (drop 4 line) '','' of None \<Rightarrow> None | Some (a, r1) \<Rightarrow>
          (case match_number r1 '' +'' of None \<Rightarrow> None | Some (_, r2) \<Rightarrow>
          (case match_number r2 '','' of None \<Rightarrow> None | Some (c, r3) \<Rightarrow>
          (case match_number r3 '' @@'' of None \<Rightarrow> None | Some _ \<Rightarrow> Some (a, c))))
      else None)"

text \<open>The state: the patches so far, the last of which is \<^verbatim>\<open>current_patch\<close>, and whether a chunk has been
  started. The current chunk is the last chunk started, which may belong to an earlier patch.\<close>

record parser =
  patches :: "patch list"
  chunk_owner :: "nat option"

definition update_last :: "('a \<Rightarrow> 'a) \<Rightarrow> 'a list \<Rightarrow> 'a list" where
  "update_last f xs = (if xs = [] then [] else butlast xs @ [f (last xs)])"

definition add_chunk_line :: "line_type \<Rightarrow> string \<Rightarrow> parser \<Rightarrow> parser res" where
  "add_chunk_line t s st =
     (case chunk_owner st of
        None \<Rightarrow> Inl UnboundLocalError
      | Some k \<Rightarrow> Inr (st\<lparr>patches := (patches st)[k := (patches st ! k)\<lparr>p_chunks :=
           update_last (\<lambda>c. c\<lparr>chunk_lines := chunk_lines c @ [\<lparr>ltype = t, text_of_line = s\<rparr>]\<rparr>)
             (p_chunks (patches st ! k))\<rparr>]\<rparr>))"

definition parse_line :: "string \<Rightarrow> parser \<Rightarrow> parser res" where
  "parse_line line st =
     (case match_rest ''--- '' line of
        Some s \<Rightarrow> Inr (st\<lparr>patches := patches st @ [\<lparr>p_src = s, p_dst = '''', p_chunks = []\<rparr>]\<rparr>)
      | None \<Rightarrow>
     (case match_rest ''+++ '' line of
        Some s \<Rightarrow> if patches st = [] then Inl AttributeError
                  else Inr (st\<lparr>patches := update_last (\<lambda>p. p\<lparr>p_dst := s\<rparr>) (patches st)\<rparr>)
      | None \<Rightarrow>
     (case match_chunk line of
        Some (a, c) \<Rightarrow> if patches st = [] then Inl AttributeError
          else Inr (st\<lparr>patches := update_last (\<lambda>p. p\<lparr>p_chunks := p_chunks p @
                   [\<lparr>src_pos = a, dst_pos = c, chunk_lines = []\<rparr>]\<rparr>) (patches st),
                 chunk_owner := Some (length (patches st) - 1)\<rparr>)
      | None \<Rightarrow>
     (case match_rest ''-'' line of Some s \<Rightarrow> add_chunk_line SRC s st | None \<Rightarrow>
     (case match_rest ''+'' line of Some s \<Rightarrow> add_chunk_line DST s st | None \<Rightarrow>
     (case match_rest '' '' line of Some s \<Rightarrow> add_chunk_line BOTH s st | None \<Rightarrow>
        Inl (PyException '''')))))))"

definition parse_patchset :: "string list \<Rightarrow> patch list res" where
  "parse_patchset ls =
     res_bind (res_fold parse_line ls \<lparr>patches = [], chunk_owner = None\<rparr>) (\<lambda>st. Inr (patches st))"

section \<open>Trailing white space\<close>

text \<open>\<^verbatim>\<open>^(.*)([ \t]+)$\<close>: the first group is greedy, so it leaves a single character to the second.\<close>

definition match_whitespace :: "string \<Rightarrow> (string \<times> string) option" where
  "match_whitespace s =
     (if s \<noteq> '''' \<and> last s \<in> {CHR '' '', CHR 0x09} \<and> CHR 0x0A \<notin> set s
      then Some (butlast s, [last s]) else None)"

text \<open>The loop over one chunk, which ends with \<open>False\<close> when \<^verbatim>\<open>dst[i]\<close> raises.\<close>

fun restore_lines :: "nat list \<Rightarrow> nat list \<Rightarrow> chunk_line list \<Rightarrow> bool \<times> chunk_line list" where
  "restore_lines [] ds ls = (True, ls)"
| "restore_lines (s # ss) [] ls = (False, ls)"
| "restore_lines (s # ss) (d # ds) ls =
     restore_lines ss ds
       (case match_whitespace (text_of_line (ls ! s)) of
          None \<Rightarrow> ls
        | Some (g1, g2) \<Rightarrow>
            if g1 = text_of_line (ls ! d)
            then ls[d := (ls ! d)\<lparr>text_of_line := text_of_line (ls ! d) @ g2\<rparr>] else ls)"

definition restore_chunk :: "chunk \<Rightarrow> bool \<times> chunk" where
  "restore_chunk c =
     (let (ok, ls) = restore_lines (chunk_src (chunk_lines c)) (chunk_dst (chunk_lines c)) (chunk_lines c)
      in (ok, c\<lparr>chunk_lines := ls\<rparr>))"

fun restore_chunks :: "chunk list \<Rightarrow> bool \<times> chunk list" where
  "restore_chunks [] = (True, [])"
| "restore_chunks (c # cs) =
     (let (ok, c') = restore_chunk c
      in if ok then (let (ok', cs') = restore_chunks cs in (ok', c' # cs')) else (False, c' # cs))"

fun restore_patches :: "patch list \<Rightarrow> patch list" where
  "restore_patches [] = []"
| "restore_patches (p # ps) =
     (let (ok, cs) = restore_chunks (p_chunks p)
      in p\<lparr>p_chunks := cs\<rparr> # (if ok then restore_patches ps else ps))"

definition remove_trailing_whitespace_changes :: "string list \<Rightarrow> patch list res" where
  "remove_trailing_whitespace_changes ls = res_bind (parse_patchset ls) (\<lambda>ps. Inr (restore_patches ps))"

section \<open>The configuration of uncrustify\<close>

definition level0 :: "string list" where
  "level0 = [
    ''sp_func_proto_paren=Add'', ''sp_func_def_paren=Add'', ''sp_func_call_paren=Add'',
    ''sp_after_semi_for=Ignore'', ''sp_before_sparen=Ignore'', ''sp_before_ellipsis=Remove'',
    ''sp_type_func=Ignore'', ''sp_after_type=Ignore'', ''nl_class_leave_one_liners=True'',
    ''nl_enum_leave_one_liners=True'', ''nl_func_leave_one_liners=True'',
    ''nl_assign_leave_one_liners=True'', ''nl_collapse_empty_body=True'',
    ''nl_getset_leave_one_liners=True'', ''nl_if_leave_one_liners=True'', ''nl_fdef_brace=Ignore'',
    ''# finally, indentation configuration'', ''indent_with_tabs=0'', ''indent_namespace=false'',
    ''indent_columns=2'', ''indent_brace=2'', ''indent_case_brace=indent_columns'',
    ''indent_class=true'', ''indent_class_colon=True'', ''indent_switch_case=indent_columns'',
    ''# alignment'', ''indent_align_assign=False'', ''align_left_shift=True'',
    ''# comment reformating disabled'', ''cmt_reflow_mode=1 # do not touch comments at all'',
    ''cmt_indent_multi=False # really, do not touch them'',
    ''disable_processing_cmt= \" *NS_CHECK_STYLE_OFF*\"'',
    ''enable_processing_cmt=  \" *NS_CHECK_STYLE_ON*\"'']"

definition level1 :: "string list" where
  "level1 = [
    ''# extra spaces here and there'', ''sp_brace_typedef=Add'', ''sp_enum_assign=Add'',
    ''sp_before_sparen=Add'', ''sp_after_semi_for=Add'', ''sp_arith=Add'', ''sp_assign=Add'',
    ''sp_compare=Add'', ''sp_func_class_paren=Add'', ''sp_after_type=Add'', ''sp_type_func=Add'',
    ''sp_angle_paren=Add'']"

definition level2 :: "string list" where
  "level2 = [
    ''nl_if_brace=Add'', ''nl_brace_else=Add'', ''nl_elseif_brace=Add'', ''nl_else_brace=Add'',
    ''nl_while_brace=Add'', ''nl_do_brace=Add'', ''nl_for_brace=Add'', ''nl_brace_while=Add'',
    ''nl_switch_brace=Add'', ''nl_after_case=True'', ''nl_namespace_brace=ignore'',
    ''nl_after_brace_open=True'', ''nl_class_leave_one_liners=False'',
    ''nl_enum_leave_one_liners=False'', ''nl_func_leave_one_liners=False'',
    ''nl_if_leave_one_liners=False'', ''nl_class_colon=Ignore'', ''nl_before_access_spec=2'',
    ''nl_after_access_spec=0'', ''indent_access_spec=-indent_columns'', ''nl_after_semicolon=True'',
    ''pos_class_colon=Lead'', ''pos_class_comma=Trail'', ''indent_constr_colon=true'',
    ''pos_bool=Lead'', ''nl_class_init_args=Add'', ''nl_template_class=Add'', ''nl_class_brace=Add'',
    ''# does not work very well'', ''nl_func_type_name=Ignore'', ''nl_func_scope_name=Ignore'',
    ''nl_func_type_name_class=Ignore'', ''nl_func_proto_type_name=Ignore'',
    ''# function'' @ [CHR 0x5C] @ ''n('', ''nl_func_paren=Remove'', ''nl_fdef_brace=Add'',
    ''nl_struct_brace=Add'', ''nl_enum_brace=Add'', ''nl_union_brace=Add'', ''mod_full_brace_do=Add'',
    ''mod_full_brace_for=Add'', ''mod_full_brace_if=Add'', ''mod_full_brace_while=Add'',
    ''mod_full_brace_for=Add'', ''mod_remove_extra_semicolon=True'', ''# max code width'',
    ''#code_width=128'', ''#ls_for_split_full=True'', ''#ls_func_split_full=True'',
    ''nl_cpp_lambda_leave_one_liners=True'']"

definition config_text :: "string list \<Rightarrow> string" where
  "config_text ls = newline @ concat (map (\<lambda>l. l @ newline) ls)"

definition uncrustify_config_file :: "int \<Rightarrow> string" where
  "uncrustify_config_file level =
     config_text level0 @ (if level \<ge> 1 then config_text level1 else '''')
     @ (if level \<ge> 2 then config_text level2 else '''')"

section \<open>Checking files\<close>

text \<open>\<open>uncrustify\<close> formats a text for a configuration, if it is installed; \<open>unified_diff\<close> yields the lines
  of a difference between two lists of lines, with the names of the two files; \<open>patch_tool\<close> applies a
  difference to a text; \<open>temporary\<close> is the name of the temporary file for a source.\<close>

record style_tools =
  uncrustify :: "(string \<Rightarrow> string \<Rightarrow> string) option"
  unified_diff :: "string list \<Rightarrow> string list \<Rightarrow> string \<Rightarrow> string \<Rightarrow> string list"
  patch_tool :: "string \<Rightarrow> string \<Rightarrow> string"
  temporary :: "string \<Rightarrow> string"

text \<open>\<open>unified_diff\<close> is a generator: once the debugging output has consumed it, nothing is left. The
  result is the text of the file \<^verbatim>\<open>output\<close>.\<close>

definition indent :: "style_tools \<Rightarrow> bool \<Rightarrow> int \<Rightarrow> string \<Rightarrow> string \<Rightarrow> string res" where
  "indent tools debug level source content =
     (case uncrustify tools of
        None \<Rightarrow> Inl (PyException ''uncrustify not installed'')
      | Some format \<Rightarrow>
          let formatted = format (uncrustify_config_file level) content;
              diff = unified_diff tools (file_lines content) (file_lines formatted) source (temporary tools source);
              diff_left = (if debug then [] else diff)
          in res_bind
               (if level < 3
                then res_bind (remove_trailing_whitespace_changes diff_left) (\<lambda>patchset.
                       Inr (if patchset \<noteq> [] then concat (write_patch (hd patchset)) else ''''))
                else Inr (concat diff_left))
               (\<lambda>final_diff. Inr (patch_tool tools final_diff content)))"

type_synonym file_store = "string \<rightharpoonup> string"

fun indent_all :: "style_tools \<Rightarrow> bool \<Rightarrow> int \<Rightarrow> file_store \<Rightarrow> string list \<Rightarrow> (string \<times> string) list res" where
  "indent_all tools debug level fs [] = Inr []"
| "indent_all tools debug level fs (f # rest) =
     (case fs f of
        None \<Rightarrow> Inl OSError
      | Some content \<Rightarrow>
          res_bind (indent tools debug level f content) (\<lambda>dst.
          res_bind (indent_all tools debug level fs rest) (\<lambda>out. Inr ((f, dst) # out))))"

text \<open>The result: the truth value returned, what is printed, and the files afterwards.\<close>

definition indent_files ::
  "style_tools \<Rightarrow> bool \<Rightarrow> bool \<Rightarrow> int \<Rightarrow> bool \<Rightarrow> file_store \<Rightarrow> string list \<Rightarrow> (bool \<times> string list \<times> file_store) res" where
  "indent_files tools diff debug level inplace fs files =
     res_bind (indent_all tools debug level fs files) (\<lambda>output.
       if inplace then Inr (True, [], fold (\<lambda>(src, dst) fs. fs(src \<mapsto> dst)) output fs)
       else let failed = filter (\<lambda>(src, dst). fs src \<noteq> Some dst) output
            in if failed \<noteq> []
               then Inr (False,
                      if \<not> diff
                      then (''Found '' @ int_str (int (length failed)) @ '' badly indented files:'')
                           # map (\<lambda>(src, dst). ''  '' @ src) failed
                      else concat (map (\<lambda>(src, dst). unified_diff tools (file_lines (the (fs src))) (file_lines dst) src
                             (temporary tools src)) failed), fs)
               else Inr (True, [], fs))"

record style_options =
  so_debug :: bool
  so_level :: int
  so_git :: bool
  so_file :: string
  so_diff :: bool
  so_in_place :: bool

text \<open>\<^verbatim>\<open>git_modified_files\<close>, from the output of the two git commands.\<close>

definition git_modified_files :: "string \<Rightarrow> string list \<Rightarrow> string list" where
  "git_modified_files root_dir changed =
     map (\<lambda>f. butlast root_dir @ ''/'' @ str_strip f)
       (filter (\<lambda>f. ends_with f ''.h'' \<or> ends_with f ''.cc'') (map str_strip changed))"

text \<open>\<^verbatim>\<open>run_as_main\<close> with the handler around it: the exit status, what is printed (errors included), and
  the files.\<close>

definition style_main :: "style_tools \<Rightarrow> string \<Rightarrow> string list \<Rightarrow> style_options \<Rightarrow> file_store \<Rightarrow> int \<times> string list \<times> file_store" where
  "style_main tools root_dir changed opts fs =
     (let check = (\<lambda>files.
            case indent_files tools (so_diff opts) (so_debug opts) (so_level opts) (so_in_place opts) fs files of
              Inl (PyException e) \<Rightarrow> (1, [e], fs)
            | Inl _ \<Rightarrow> (1, [], fs)
            | Inr (style_is_correct, out, fs') \<Rightarrow> (if style_is_correct then 0 else 1, out, fs'))
      in if so_git opts then check (git_modified_files root_dir changed)
         else if so_file opts \<noteq> ''''
         then if fs (so_file opts) = None then (1, [''file '' @ so_file opts @ '' does not exist''], fs)
              else check [so_file opts]
         else (1, [], fs))"

section \<open>Reading back what was written\<close>

definition line_ok :: "chunk_line \<Rightarrow> bool" where
  "line_ok l \<longleftrightarrow> CHR 0x0A \<notin> set (text_of_line l)
     \<and> (ltype l = SRC \<longrightarrow> \<not> starts_with (text_of_line l) ''-- '')
     \<and> (ltype l = DST \<longrightarrow> \<not> starts_with (text_of_line l) ''++ '')"

definition patch_ok :: "patch \<Rightarrow> bool" where
  "patch_ok p \<longleftrightarrow> CHR 0x0A \<notin> set (p_src p) \<and> CHR 0x0A \<notin> set (p_dst p)
     \<and> (\<forall>c \<in> set (p_chunks p). list_all line_ok (chunk_lines c))"

lemma match_rest_key: "CHR 0x0A \<notin> set s \<Longrightarrow> match_rest key (key @ s @ newline) = Some s"
  by (simp add: match_rest_def starts_with_def newline_def)

lemma match_rest_other: "\<not> starts_with line key \<Longrightarrow> match_rest key line = None"
  by (simp add: match_rest_def)

lemma match_number_digits:
  assumes "lit \<noteq> []" "\<not> is_digit (hd lit)"
  shows "match_number (nat_digits n @ lit @ rest) lit = Some (n, rest)"
proof -
  have "takeWhile is_digit (nat_digits n @ lit @ rest) = nat_digits n"
    "dropWhile is_digit (nat_digits n @ lit @ rest) = lit @ rest"
    using assms by (cases lit; simp add: takeWhile_append dropWhile_append nat_digits_digits)+
  then show ?thesis by (simp add: match_number_def starts_with_def)
qed

lemma match_chunk_header:
  "match_chunk (''@@ -'' @ nat_digits a @ '','' @ nat_digits b @ '' +'' @ nat_digits c @ '','' @ nat_digits d @ '' @@'' @ newline)
    = Some (a, c)"
proof -
  have steps: "match_number (nat_digits n @ '','' @ r) '','' = Some (n, r)"
    "match_number (nat_digits n @ '' +'' @ r) '' +'' = Some (n, r)"
    "match_number (nat_digits n @ '' @@'' @ r) '' @@'' = Some (n, r)" for n r
    by (rule match_number_digits; simp add: is_digit_def)+
  show ?thesis
    using steps(1) [of a] steps(2) [of b] steps(1) [of c] steps(3) [of d newline]
    by (simp add: match_chunk_def starts_with_def)
qed

lemma parse_written_line:
  assumes "line_ok l" "chunk_owner st = Some k"
  shows "parse_line (write_line l) st = add_chunk_line (ltype l) (text_of_line l) st"
proof -
  have key: "match_rest [ch] (ch # text_of_line l @ newline) = Some (text_of_line l)" for ch
    using match_rest_key [of "text_of_line l" "[ch]"] assms(1) by (simp add: line_ok_def)
  have src: "\<not> starts_with (text_of_line l @ newline) ''-- ''" if "ltype l = SRC"
    using that assms(1) by (auto simp: line_ok_def starts_with_def newline_def prefix_def append_eq_append_conv2 append_eq_Cons_conv Cons_eq_append_conv)
  have dst: "\<not> starts_with (text_of_line l @ newline) ''++ ''" if "ltype l = DST"
    using that assms(1) by (auto simp: line_ok_def starts_with_def newline_def prefix_def append_eq_append_conv2 append_eq_Cons_conv Cons_eq_append_conv)
  show ?thesis
  proof (cases "ltype l")
    case SRC
    then have "match_rest ''--- '' (write_line l) = None" "match_rest ''+++ '' (write_line l) = None"
      "match_chunk (write_line l) = None"
      using src by (simp_all add: write_line_def match_rest_def match_chunk_def starts_with_def)
    then show ?thesis using SRC key by (simp add: parse_line_def write_line_def)
  next
    case DST
    then have "match_rest ''--- '' (write_line l) = None" "match_rest ''+++ '' (write_line l) = None"
      "match_chunk (write_line l) = None" "match_rest ''-'' (write_line l) = None"
      using dst by (simp_all add: write_line_def match_rest_def match_chunk_def starts_with_def)
    then show ?thesis using DST key by (simp add: parse_line_def write_line_def)
  next
    case BOTH
    then have "match_rest ''--- '' (write_line l) = None" "match_rest ''+++ '' (write_line l) = None"
      "match_chunk (write_line l) = None" "match_rest ''-'' (write_line l) = None" "match_rest ''+'' (write_line l) = None"
      by (simp_all add: write_line_def match_rest_def match_chunk_def starts_with_def)
    then show ?thesis using BOTH key by (simp add: parse_line_def write_line_def)
  qed
qed

definition reading :: "patch \<Rightarrow> chunk list \<Rightarrow> nat option \<Rightarrow> parser" where
  "reading p cs k = \<lparr>patches = [p\<lparr>p_chunks := cs\<rparr>], chunk_owner = k\<rparr>"

lemma parse_chunk_lines:
  "list_all line_ok ls \<Longrightarrow> res_fold parse_line (map write_line ls) (reading p (cs @ [c]) (Some 0))
    = Inr (reading p (cs @ [c\<lparr>chunk_lines := chunk_lines c @ ls\<rparr>]) (Some 0))"
proof (induction ls arbitrary: c)
  case (Cons l ls)
  have "parse_line (write_line l) (reading p (cs @ [c]) (Some 0))
      = Inr (reading p (cs @ [c\<lparr>chunk_lines := chunk_lines c @ [l]\<rparr>]) (Some 0))"
    using Cons.prems parse_written_line [of l "reading p (cs @ [c]) (Some 0)" 0]
    by (simp add: reading_def add_chunk_line_def update_last_def)
  then show ?case
    using Cons.prems Cons.IH [of "c\<lparr>chunk_lines := chunk_lines c @ [l]\<rparr>"] by simp
qed (simp add: reading_def)

lemma parse_written_chunk:
  assumes "list_all line_ok (chunk_lines c)"
  shows "res_fold parse_line (write_chunk c) (reading p cs k) = Inr (reading p (cs @ [c]) (Some 0))"
proof -
  define h where "h = ''@@ -'' @ nat_digits (src_pos c) @ '','' @ nat_digits (length (chunk_src (chunk_lines c))) @ '' +''
       @ nat_digits (dst_pos c) @ '','' @ nat_digits (length (chunk_dst (chunk_lines c))) @ '' @@'' @ newline"
  have "match_chunk h = Some (src_pos c, dst_pos c)" unfolding h_def by (rule match_chunk_header)
  moreover have "match_rest ''--- '' h = None" "match_rest ''+++ '' h = None"
    by (simp_all add: h_def match_rest_def starts_with_def)
  ultimately have "parse_line h (reading p cs k)
      = Inr (reading p (cs @ [\<lparr>src_pos = src_pos c, dst_pos = dst_pos c, chunk_lines = []\<rparr>]) (Some 0))"
    by (simp add: parse_line_def reading_def update_last_def)
  then show ?thesis
    using parse_chunk_lines [OF assms, of p cs "\<lparr>src_pos = src_pos c, dst_pos = dst_pos c, chunk_lines = []\<rparr>"]
    unfolding write_chunk_def h_def [symmetric] res_fold.simps by (cases c) simp
qed

lemma parse_written_chunks:
  "\<forall>c \<in> set ds. list_all line_ok (chunk_lines c) \<Longrightarrow> \<exists>k'.
    res_fold parse_line (concat (map write_chunk ds)) (reading p cs k) = Inr (reading p (cs @ ds) k')"
proof (induction ds arbitrary: cs k)
  case (Cons d ds)
  then show ?case
    using Cons.IH [of "cs @ [d]" "Some 0"] by (simp add: res_fold_append parse_written_chunk)
qed auto

text \<open>C29: Reading a patch that was written gives the patch back, whatever its chunks, provided no name
  or line contains a newline, no removed line begins with two dashes and a blank and no added line
  with two plus signs and a blank (these look like the headers of a file).\<close>

theorem parse_written_patch:
  assumes "patch_ok p"
  shows "parse_patchset (write_patch p) = Inr [p]"
proof -
  define p0 where "p0 = p\<lparr>p_dst := '''', p_chunks := []\<rparr>"
  have a: "parse_line (''--- '' @ p_src p @ newline) \<lparr>patches = [], chunk_owner = None\<rparr>
      = Inr \<lparr>patches = [p0], chunk_owner = None\<rparr>"
    using assms match_rest_key [of "p_src p" "''--- ''"] by (simp add: parse_line_def patch_ok_def p0_def)
  have "match_rest ''--- '' (''+++ '' @ p_dst p @ newline) = None"
    by (simp add: match_rest_def starts_with_def)
  then have b: "parse_line (''+++ '' @ p_dst p @ newline) \<lparr>patches = [p0], chunk_owner = None\<rparr>
      = Inr (reading p [] None)"
    using assms match_rest_key [of "p_dst p" "''+++ ''"]
    by (simp add: parse_line_def patch_ok_def p0_def reading_def update_last_def)
  obtain k where "res_fold parse_line (concat (map write_chunk (p_chunks p))) (reading p [] None)
      = Inr (reading p (p_chunks p) k)"
    using parse_written_chunks [of "p_chunks p" p "[]" None] assms by (auto simp: patch_ok_def)
  then show ?thesis
    using a b unfolding parse_patchset_def write_patch_def res_fold.simps
    by (simp add: reading_def)
qed

definition demo_patch :: patch where
  "demo_patch = \<lparr>p_src = ''a.cc'', p_dst = ''b.cc'', p_chunks = [\<lparr>src_pos = 12, dst_pos = 12, chunk_lines =
     [\<lparr>ltype = BOTH, text_of_line = ''if (x)''\<rparr>, \<lparr>ltype = SRC, text_of_line = ''  y ();''\<rparr>,
      \<lparr>ltype = DST, text_of_line = ''    y ();''\<rparr>]\<rparr>]\<rparr>"

theorem parse_written_patch_witness:
  "parse_patchset (write_patch demo_patch) = Inr [demo_patch]"
  by (rule parse_written_patch) (simp add: demo_patch_def patch_ok_def line_ok_def starts_with_def)

section \<open>What the white space pass may change\<close>

text \<open>A line that belongs to the new file may get one blank or tab at its end; nothing else changes.\<close>

definition one_blank :: "chunk_line \<Rightarrow> chunk_line \<Rightarrow> bool" where
  "one_blank l l' \<longleftrightarrow> l' = l \<or> is_dst l \<and> (\<exists>w \<in> {CHR '' '', CHR 0x09}. l' = l\<lparr>text_of_line := text_of_line l @ [w]\<rparr>)"

definition chunk_blanks :: "chunk \<Rightarrow> chunk \<Rightarrow> bool" where
  "chunk_blanks c c' \<longleftrightarrow> src_pos c' = src_pos c \<and> dst_pos c' = dst_pos c
     \<and> list_all2 one_blank (chunk_lines c) (chunk_lines c')"

definition patch_blanks :: "patch \<Rightarrow> patch \<Rightarrow> bool" where
  "patch_blanks p p' \<longleftrightarrow> p_src p' = p_src p \<and> p_dst p' = p_dst p \<and> list_all2 chunk_blanks (p_chunks p) (p_chunks p')"

lemma restore_lines_step:
  assumes "restore_lines ss ds ls = (ok, ls')" "distinct ds" "\<forall>d \<in> set ds. d < length ls \<and> is_dst (ls ! d)"
  shows "length ls' = length ls \<and> (\<forall>i < length ls. one_blank (ls ! i) (ls' ! i) \<and> (i \<notin> set ds \<longrightarrow> ls' ! i = ls ! i))"
  using assms
proof (induction ss ds ls rule: restore_lines.induct)
  case (3 s ss d ds ls)
  define us where "us = (case match_whitespace (text_of_line (ls ! s)) of
      None \<Rightarrow> ls
    | Some (g1, g2) \<Rightarrow> if g1 = text_of_line (ls ! d)
        then ls[d := (ls ! d)\<lparr>text_of_line := text_of_line (ls ! d) @ g2\<rparr>] else ls)"
  have us: "length us = length ls" "i \<noteq> d \<Longrightarrow> us ! i = ls ! i" for i
    by (auto simp: us_def split: option.splits)
  have blank: "one_blank (ls ! d) (us ! d)"
    using "3.prems"(3)
    by (auto simp: us_def one_blank_def match_whitespace_def split: option.splits if_splits)
  have types: "is_dst (us ! i) = is_dst (ls ! i)" for i
    using blank us(2) [of i] by (cases "i = d") (auto simp: one_blank_def is_dst_def)
  have IH: "length ls' = length us \<and> (\<forall>i < length us. one_blank (us ! i) (ls' ! i) \<and> (i \<notin> set ds \<longrightarrow> ls' ! i = us ! i))"
    using "3.IH" "3.prems" us(1) types by (simp add: us_def [symmetric])
  show ?case
    using IH us blank "3.prems"(2) by (metis distinct.simps(2) list.set_intros(1) list.set_intros(2))
qed (auto simp: one_blank_def)

lemma restore_chunk_blanks: "chunk_blanks c (snd (restore_chunk c))"
proof -
  obtain ok ls where ls: "restore_lines (chunk_src (chunk_lines c)) (chunk_dst (chunk_lines c)) (chunk_lines c) = (ok, ls)"
    by (cases "restore_lines (chunk_src (chunk_lines c)) (chunk_dst (chunk_lines c)) (chunk_lines c)")
  have "distinct (chunk_dst (chunk_lines c))"
    "\<forall>d \<in> set (chunk_dst (chunk_lines c)). d < length (chunk_lines c) \<and> is_dst (chunk_lines c ! d)"
    by (auto simp: chunk_dst_def)
  from restore_lines_step [OF ls this] show ?thesis
    by (simp add: restore_chunk_def ls chunk_blanks_def list_all2_conv_all_nth)
qed

lemma chunk_blanks_refl: "chunk_blanks c c"
  by (simp add: chunk_blanks_def one_blank_def list.rel_refl)

lemma patch_blanks_refl: "patch_blanks p p"
  by (simp add: patch_blanks_def list.rel_refl chunk_blanks_refl)

lemma restore_chunks_blanks: "list_all2 chunk_blanks cs (snd (restore_chunks cs))"
proof (induction cs)
  case (Cons c cs)
  then show ?case
    using restore_chunk_blanks [of c] list.rel_refl [of chunk_blanks cs] chunk_blanks_refl
    by (auto split: prod.splits)
qed simp

text \<open>Taking back white space changes keeps the names, the positions and the number and types of the
  lines of every patch; a line that only the old file has never changes, and a line of the new
  file is at most extended by a single blank or tab. In particular the removal of two trailing
  blanks is not taken back.\<close>

theorem restore_only_blanks: "list_all2 patch_blanks ps (restore_patches ps)"
proof (induction ps)
  case (Cons p ps)
  obtain ok cs where cs: "restore_chunks (p_chunks p) = (ok, cs)" by (cases "restore_chunks (p_chunks p)")
  have "patch_blanks p (p\<lparr>p_chunks := cs\<rparr>)"
    using restore_chunks_blanks [of "p_chunks p"] cs by (simp add: patch_blanks_def)
  then show ?case using Cons cs by (simp add: list.rel_refl patch_blanks_refl)
qed simp

section \<open>Debugging output\<close>

lemma indent_debug:
  assumes "uncrustify tools = Some f" "\<forall>c. patch_tool tools '''' c = c"
  shows "indent tools True level source content = Inr content"
  using assms
  by (simp add: indent_def Let_def remove_trailing_whitespace_changes_def parse_patchset_def)

text \<open>With \<^verbatim>\<open>--debug\<close> every file passes: the debugging output consumes the difference, so nothing is
  left to apply and each file is compared with a copy of itself (an empty difference changes
  nothing).\<close>

theorem debug_accepts_everything:
  assumes "uncrustify tools = Some f" "\<forall>c. patch_tool tools '''' c = c" "\<forall>n \<in> set files. fs n \<noteq> None"
  shows "indent_files tools diff True level False fs files = Inr (True, [], fs)"
proof -
  have "indent_all tools True level fs files = Inr (map (\<lambda>n. (n, the (fs n))) files)"
    using assms(3) by (induction files) (auto simp: indent_debug [OF assms(1,2)])
  moreover have "filter (\<lambda>(src, dst). fs src \<noteq> Some dst) (map (\<lambda>n. (n, the (fs n))) files) = []"
    using assms(3) by (auto simp: filter_empty_conv)
  ultimately show ?thesis by (simp add: indent_files_def)
qed

theorem debug_accepts_everything_witness:
  "indent_files \<lparr>uncrustify = Some (\<lambda>_ _. ''int x;''), unified_diff = (\<lambda>a b n m. a @ b),
       patch_tool = (\<lambda>d c. if d = '''' then c else d), temporary = (\<lambda>n. ''/tmp/'' @ n)\<rparr>
     False True 0 False [''a.cc'' \<mapsto> '' int  x;''] [''a.cc'']
   = Inr (True, [], [''a.cc'' \<mapsto> '' int  x;''])"
  by (rule debug_accepts_everything [where f = "\<lambda>_ _. ''int x;''"]) simp_all

end
