(* ===== verification/Rad_Bits.thy ===== *)
theory Rad_Bits
  imports Py_Numbers "HOL-Library.Word"
begin

text \<open>
  The binary functions of \<^verbatim>\<open>bindings/python/rad_util.py\<close>: binary strings (\<^verbatim>\<open>int2bin\<close>, \<^verbatim>\<open>bin2int\<close>,
  \<^verbatim>\<open>binary_range\<close>, \<^verbatim>\<open>random_vec\<close>), \<^verbatim>\<open>lsb\<close> and \<^verbatim>\<open>gray_encode\<close>. Python's integers are unbounded; their
  bit operations are those on \<open>int\<close>.
\<close>

unbundle bit_operations_syntax

section \<open>Binary strings\<close>

definition hex_digit :: "nat \<Rightarrow> char" where
  "hex_digit d = ''0123456789abcdef'' ! d"

fun hex_digits :: "nat \<Rightarrow> string" where
  "hex_digits n = (if n < 16 then [hex_digit n] else hex_digits (n div 16) @ [hex_digit (n mod 16)])"

declare hex_digits.simps [simp del]

definition py_hex :: "int \<Rightarrow> string" where
  "py_hex i = (if i < 0 then ''-0x'' @ hex_digits (nat (- i)) else ''0x'' @ hex_digits (nat i))"

definition hex2bin :: "(char \<times> string) list" where
  "hex2bin = [(CHR ''0'', ''0000''), (CHR ''1'', ''0001''), (CHR ''2'', ''0010''), (CHR ''3'', ''0011''),
     (CHR ''4'', ''0100''), (CHR ''5'', ''0101''), (CHR ''6'', ''0110''), (CHR ''7'', ''0111''),
     (CHR ''8'', ''1000''), (CHR ''9'', ''1001''), (CHR ''a'', ''1010''), (CHR ''b'', ''1011''),
     (CHR ''c'', ''1100''), (CHR ''d'', ''1101''), (CHR ''e'', ''1110''), (CHR ''f'', ''1111'')]"

fun map_digits :: "string \<Rightarrow> string res" where
  "map_digits [] = Inr []"
| "map_digits (c # cs) =
     (case map_of hex2bin c of
        None \<Rightarrow> Inl KeyError
      | Some bits \<Rightarrow> res_bind (map_digits cs) (\<lambda>rest. Inr (bits @ rest)))"

definition int2bin :: "int \<Rightarrow> int \<Rightarrow> string res" where
  "int2bin i n =
     res_bind (map_digits (drop 2 (py_hex i))) (\<lambda>result.
       if CHR ''1'' \<in> set (py_slice result 0 (- n)) then Inl ValueError
       else let result = (if n = 0 then result else py_slice result (- n) (int (length result)))
            in Inr (replicate (nat (n - int (length result))) CHR ''0'' @ result))"

definition bit_val :: "char \<Rightarrow> nat" where
  "bit_val c = (if c = CHR ''1'' then 1 else 0)"

definition is_bit :: "char \<Rightarrow> bool" where
  "is_bit c \<longleftrightarrow> c = CHR ''0'' \<or> c = CHR ''1''"

definition bits_value :: "string \<Rightarrow> nat" where
  "bits_value s = foldl (\<lambda>a c. 2 * a + bit_val c) 0 s"

text \<open>\<^verbatim>\<open>int(s, 2)\<close>: blanks around, a sign, the prefix \<^verbatim>\<open>0b\<close> and single underscores between digits are
  accepted.\<close>

definition bin2int :: "string \<Rightarrow> int res" where
  "bin2int bin_string =
     (let s = str_strip bin_string;
          negative = starts_with s ''-'';
          body = (if negative \<or> starts_with s ''+'' then drop 1 s else s);
          digits = (if starts_with body ''0b'' \<or> starts_with body ''0B''
                    then (if starts_with (drop 2 body) ''_'' then drop 3 body else drop 2 body) else body);
          groups = str_split CHR ''_'' digits
      in if list_all (\<lambda>g. g \<noteq> '''' \<and> list_all is_bit g) groups
         then Inr ((if negative then - 1 else 1) * int (bits_value (concat groups)))
         else Inl ValueError)"

section \<open>Bit operations\<close>

definition lsb_int :: "int \<Rightarrow> nat \<Rightarrow> int" where
  "lsb_int x n = x AND (2 ^ n - 1)"

definition gray_encode :: "int \<Rightarrow> int" where
  "gray_encode i = i XOR (drop_bit 1 i)"

section \<open>All numbers of a width\<close>

text \<open>The inner loop: \<open>v\<close> is the counter, lowest bit first. \<open>toggle[i]\<close> is the carry into bit \<open>i\<close>; the
  result is the new counter and the carry out of the highest bit.\<close>

fun count_up :: "string \<Rightarrow> string \<times> bool" where
  "count_up [] = ([], True)"
| "count_up (b # v) =
     (if b = CHR ''0'' then (CHR ''1'' # v, False)
      else let (v', carry) = count_up v in (CHR ''0'' # v', carry))"

definition count_value :: "string \<Rightarrow> nat" where
  "count_value v = bits_value (rev v)"

lemma bits_value_snoc [simp]: "bits_value (s @ [c]) = 2 * bits_value s + bit_val c"
  by (simp add: bits_value_def)

lemma count_value_simps [simp]:
  "count_value [] = 0" "count_value (b # v) = bit_val b + 2 * count_value v"
  by (simp_all add: count_value_def bits_value_def)

lemma count_value_less: "count_value v < 2 ^ length v"
  by (induction v) (auto simp: bit_val_def)

lemma count_up_length: "count_up v = (v', c) \<Longrightarrow> length v' = length v"
  by (induction v arbitrary: v') (auto split: if_splits prod.splits)

lemma count_up_carry:
  "list_all is_bit v \<Longrightarrow> count_up v = (v', c) \<Longrightarrow> list_all is_bit v'
    \<and> (if c then count_value v + 1 = 2 ^ length v \<and> count_value v' = 0 else count_value v' = count_value v + 1)"
proof (induction v arbitrary: v' c)
  case (Cons b v)
  obtain w d where wd: "count_up v = (w, d)" by (cases "count_up v")
  show ?case
    using Cons.prems Cons.IH [OF _ wd] wd
    by (auto simp: is_bit_def bit_val_def split: if_splits)
qed auto

text \<open>The outer loop; it ends when the carry leaves the highest bit. The counter holds bits only.\<close>

function range_loop :: "string \<Rightarrow> string list" where
  "range_loop v =
     (let (v', carry) = count_up v
      in if list_all is_bit v \<and> \<not> carry then rev v # range_loop v' else [rev v])"
  by pat_completeness auto
termination
proof (relation "measure (\<lambda>v. 2 ^ length v - count_value v)")
  fix v x v' carry
  assume "x = count_up v" "(v', carry) = x" "list_all is_bit v \<and> \<not> carry"
  then have "count_up v = (v', carry)" "list_all is_bit v" "\<not> carry" by auto
  then have "length v' = length v" "count_value v' = count_value v + 1" "count_value v' < 2 ^ length v'"
    using count_up_length count_up_carry count_value_less by (blast, fastforce, blast)
  then show "(v', v) \<in> measure (\<lambda>v. 2 ^ length v - count_value v)" by simp
qed simp

declare range_loop.simps [simp del]

text \<open>With a width of zero \<^verbatim>\<open>toggle[bits]\<close> is 1 from the start and the loop is not entered.\<close>

definition binary_range :: "nat \<Rightarrow> string list" where
  "binary_range bits = (if bits = 0 then [] else range_loop (replicate bits CHR ''0''))"


section \<open>Random vectors\<close>

text \<open>\<^verbatim>\<open>random_vec\<close>, where \<open>draws k\<close> is the result of its call number \<open>k\<close> of
  \<^verbatim>\<open>random.random()\<close>. A maximum below \<^verbatim>\<open>2 ** bits - 1\<close>
  makes a float product, which \<^verbatim>\<open>hex\<close> refuses; a maximum that no float can hold is refused before.\<close>

definition too_large_for_float :: "int \<Rightarrow> bool" where
  "too_large_for_float m \<longleftrightarrow> 2 ^ 1024 - 2 ^ 970 \<le> \<bar>m\<bar>"

fun draw_chunks :: "(nat \<Rightarrow> rat) \<Rightarrow> nat \<Rightarrow> string res" where
  "draw_chunks draws 0 = Inr ''''"
| "draw_chunks draws (Suc k) =
     res_bind (draw_chunks draws k) (\<lambda>vector.
       res_bind (int2bin (py_trunc (1024 * draws k)) 10) (\<lambda>chunk. Inr (vector @ chunk)))"

definition random_vec :: "(nat \<Rightarrow> rat) \<Rightarrow> nat \<Rightarrow> int option \<Rightarrow> string res" where
  "random_vec draws bits max_value =
     res_bind (draw_chunks draws (bits div 10 + 1)) (\<lambda>vector.
       case max_value of
         None \<Rightarrow> Inr (take bits vector)
       | Some m \<Rightarrow>
           if m \<noteq> 0 \<and> m < 2 ^ bits - 1
           then (if bits = 0 then Inl ZeroDivisionError
                 else if too_large_for_float m then Inl OverflowError else Inl TypeError)
           else Inr (take bits vector))"

section \<open>Values of bit strings\<close>

lemma bits_value_Nil [simp]: "bits_value [] = 0"
  by (simp add: bits_value_def)

lemma bits_value_append: "bits_value (s @ t) = bits_value s * 2 ^ length t + bits_value t"
proof (induction t rule: rev_induct)
  case (snoc c t)
  have "bits_value (s @ t @ [c]) = 2 * bits_value (s @ t) + bit_val c" using bits_value_snoc [of "s @ t" c] by simp
  then show ?case using snoc by simp
qed simp

lemma bits_value_Cons: "bits_value (c # s) = bit_val c * 2 ^ length s + bits_value s"
  using bits_value_append [of "[c]" s] bits_value_snoc [of "[]" c] by simp

lemma list_all_replicate: "P x \<Longrightarrow> list_all P (replicate n x)"
  by (induction n) simp_all

lemma bits_value_less: "bits_value s < 2 ^ length s"
  using count_value_less [of "rev s"] by (simp add: count_value_def)

lemma bits_value_eq_0: "list_all is_bit s \<Longrightarrow> bits_value s = 0 \<longleftrightarrow> CHR ''1'' \<notin> set s"
  by (induction s) (auto simp: bits_value_Cons is_bit_def bit_val_def)

lemma bits_value_replicate [simp]: "bits_value (replicate k CHR ''0'' @ s) = bits_value s"
  by (induction k) (simp_all add: bits_value_Cons bit_val_def)

lemma count_value_inj:
  "length v = length w \<Longrightarrow> list_all is_bit v \<Longrightarrow> list_all is_bit w \<Longrightarrow> count_value v = count_value w \<Longrightarrow> v = w"
proof (induction v w rule: list_induct2)
  case (Cons b v c w)
  have "bit_val b = bit_val c \<and> count_value v = count_value w"
    using Cons.prems(3) by (simp add: bit_val_def split: if_splits; presburger)
  then show ?case using Cons by (auto simp: is_bit_def bit_val_def)
qed simp

lemma bits_value_inj:
  "length s = length t \<Longrightarrow> list_all is_bit s \<Longrightarrow> list_all is_bit t \<Longrightarrow> bits_value s = bits_value t \<Longrightarrow> s = t"
  using count_value_inj [of "rev s" "rev t"] by (simp add: count_value_def)

section \<open>Decimal to binary and back\<close>

lemma hex2bin_digit:
  assumes "d < 16"
  shows "\<exists>b. map_of hex2bin (hex_digit d) = Some b \<and> length b = 4 \<and> list_all is_bit b \<and> bits_value b = d"
proof -
  have "d \<in> {0, 1, 2, 3, 4, 5, 6, 7, 8, 9, 10, 11, 12, 13, 14, 15}" using assms unfolding insert_iff empty_iff by presburger
  then show ?thesis by (elim insertE; simp add: hex2bin_def hex_digit_def bits_value_def bit_val_def is_bit_def)
qed

lemma map_digits_append:
  "map_digits (s @ t) = res_bind (map_digits s) (\<lambda>a. res_bind (map_digits t) (\<lambda>b. Inr (a @ b)))"
proof (induction s)
  case Nil
  then show ?case by (cases "map_digits t") auto
next
  case (Cons c s)
  then show ?case
    by (cases "map_digits s"; cases "map_digits t") (auto split: option.splits)
qed

lemma map_hex_digits:
  "\<exists>b. map_digits (hex_digits n) = Inr b \<and> list_all is_bit b \<and> bits_value b = n"
proof (induction n rule: hex_digits.induct)
  case (1 n)
  obtain d where d: "map_of hex2bin (hex_digit (n mod 16)) = Some d" "length d = 4" "list_all is_bit d"
    "bits_value d = n mod 16" using hex2bin_digit [of "n mod 16"] by auto
  show ?case
  proof (cases "n < 16")
    case True
    then show ?thesis using d by (simp add: hex_digits.simps [of n])
  next
    case False
    then obtain b where "map_digits (hex_digits (n div 16)) = Inr b" "list_all is_bit b" "bits_value b = n div 16"
      using 1 by blast
    then show ?thesis
      using False d by (simp add: hex_digits.simps [of n] map_digits_append bits_value_append)
  qed
qed

lemma py_slice_upto_neg:
  "0 < k \<Longrightarrow> py_slice xs 0 (- int k) = take (length xs - k) xs"
  by (simp add: py_slice_def slice_bound_def nat_diff_distrib' min_def max_def)

lemma py_slice_from_neg:
  "0 < k \<Longrightarrow> py_slice xs (- int k) (int (length xs)) = drop (length xs - k) xs"
  by (simp add: py_slice_def slice_bound_def nat_diff_distrib' min_def max_def)

lemma int2bin_cases:
  assumes "0 \<le> i" "0 < k"
  shows "(i < 2 ^ k \<longrightarrow> (\<exists>s. int2bin i (int k) = Inr s \<and> length s = k \<and> list_all is_bit s \<and> bits_value s = nat i))
    \<and> (2 ^ k \<le> i \<longrightarrow> int2bin i (int k) = Inl ValueError)"
proof -
  obtain b where b: "map_digits (hex_digits (nat i)) = Inr b" "list_all is_bit b" "bits_value b = nat i"
    using map_hex_digits by blast
  define hi lo where "hi = take (length b - k) b" and "lo = drop (length b - k) b"
  have hl: "b = hi @ lo" "list_all is_bit hi" "list_all is_bit lo" "length lo = min k (length b)"
    using b(2) by (auto simp: hi_def lo_def list_all_iff dest: in_set_takeD in_set_dropD)
  have run: "int2bin i (int k) = (if CHR ''1'' \<in> set hi then Inl ValueError
      else Inr (replicate (k - length lo) CHR ''0'' @ lo))"
    using assms b by (simp add: int2bin_def py_hex_def py_slice_upto_neg py_slice_from_neg
        flip: hi_def lo_def nat_minus_as_int) (simp add: nat_minus_as_int)
  have val: "nat i = bits_value hi * 2 ^ length lo + bits_value lo" using b(3) hl(1) by (simp add: bits_value_append)
  show ?thesis
  proof (cases "CHR ''1'' \<in> set hi")
    case True
    then have "hi \<noteq> []" "0 < bits_value hi" using bits_value_eq_0 [OF hl(2)] by auto
    then have "length lo = k" by (auto simp: hi_def lo_def)
    then have "2 ^ k \<le> nat i" using val \<open>0 < bits_value hi\<close> by (simp add: trans_le_add1)
    then show ?thesis using run True assms(1) by (simp add: le_nat_iff)
  next
    case False
    then have "nat i = bits_value lo" using val bits_value_eq_0 [OF hl(2)] by simp
    moreover have "bits_value lo < 2 ^ k" using bits_value_less [of lo] hl(4)
      by (metis order_less_le_trans min.cobounded1 one_le_numeral power_increasing)
    ultimately have "nat i < 2 ^ k" by simp
    then have small: "i < 2 ^ k" using assms(1) by (simp add: nat_less_iff)
    let ?s = "replicate (k - length lo) CHR ''0'' @ lo"
    have "int2bin i (int k) = Inr ?s" "length ?s = k" "list_all is_bit ?s" "bits_value ?s = nat i"
      using run False hl(3,4) \<open>nat i = bits_value lo\<close> by (simp_all add: list_all_replicate is_bit_def)
    then show ?thesis using small by (intro conjI impI exI [of _ ?s]) simp_all
  qed
qed


lemma bit_not_space: "list_all is_bit s \<Longrightarrow> str_strip s = s"
proof -
  assume bits: "list_all is_bit s"
  have "CHR ''0'' \<notin> set py_spaces" "CHR ''1'' \<notin> set py_spaces" by (simp_all add: py_spaces_def)
  then have none: "c \<notin> set py_spaces" if "c \<in> set s" for c
    using bits that unfolding list_all_iff is_bit_def by metis
  have "dropWhile (\<lambda>c. c \<in> set py_spaces) t = t" if "set t \<subseteq> set s" for t
    using that none by (cases t) auto
  then show ?thesis by (simp add: str_strip_def str_strip_chars_def)
qed

lemma bin2int_bits:
  assumes "list_all is_bit s" "s \<noteq> []"
  shows "bin2int s = Inr (int (bits_value s))"
proof -
  have u: "CHR ''_'' \<notin> set s" using assms(1) by (auto simp: list_all_iff is_bit_def)
  have no: "\<not> starts_with s (c # p)" if "\<not> (is_bit c \<and> list_all is_bit p)" for c p
    using assms(1) that by (auto simp: starts_with_def prefix_def)
  have "\<not> starts_with s ''-''" "\<not> starts_with s ''+''" "\<not> starts_with s ''0b''" "\<not> starts_with s ''0B''"
    by (rule no, simp add: is_bit_def)+
  then show ?thesis
    unfolding bin2int_def Let_def bit_not_space [OF assms(1)] using u assms by (simp add: str_split_none)
qed

text \<open>A non-negative number that fits into \<open>n\<close> bits is written by \<^verbatim>\<open>int2bin\<close> as a string of exactly \<open>n\<close>
  binary digits that \<^verbatim>\<open>bin2int\<close> reads back as that number; one that does not fit raises \<^verbatim>\<open>ValueError\<close>.\<close>

theorem int2bin_bin2int:
  assumes "0 \<le> i" "0 < n"
  shows "(i < 2 ^ n \<longrightarrow> (\<exists>s. int2bin i (int n) = Inr s \<and> length s = n \<and> list_all is_bit s \<and> bin2int s = Inr i))
    \<and> (2 ^ n \<le> i \<longrightarrow> int2bin i (int n) = Inl ValueError)"
proof (cases "i < 2 ^ n")
  case True
  then obtain s where s: "int2bin i (int n) = Inr s" "length s = n" "list_all is_bit s" "bits_value s = nat i"
    using int2bin_cases [OF assms] by blast
  then have "bin2int s = Inr i" using bin2int_bits [OF s(3)] assms by auto
  then show ?thesis using s True by auto
next
  case False
  then show ?thesis using int2bin_cases [OF assms] by simp
qed

theorem int2bin_bin2int_witness:
  "(\<exists>s. int2bin 123 (int 8) = Inr s \<and> length s = 8 \<and> list_all is_bit s \<and> bin2int s = Inr 123)
    \<and> int2bin 123 (int 6) = Inl ValueError"
  using int2bin_bin2int [of 123 8] int2bin_bin2int [of 123 6] by simp

text \<open>A negative number raises \<^verbatim>\<open>KeyError\<close>; a width of zero is not a width of zero: nothing is cut.\<close>

theorem int2bin_negative: "i < 0 \<Longrightarrow> int2bin i n = Inl KeyError"
  by (simp add: int2bin_def py_hex_def hex2bin_def)

theorem int2bin_zero_width: "int2bin 5 0 = Inr ''0101''"
  by (simp add: int2bin_def py_hex_def hex_digits.simps hex_digit_def hex2bin_def py_slice_def slice_bound_def)

section \<open>The binary counter\<close>

text \<open>C35: One pass of the inner loop of \<^verbatim>\<open>binary_range\<close> is the successor function on the numbers modulo
  \<open>2 ^ bits\<close>: under the abstraction \<open>count_value\<close> of the list of digits the toggling refines addition of one, and
  the carry says exactly whether it wrapped around.\<close>

theorem count_up_refines_successor:
  assumes "list_all is_bit v"
  shows "count_value (fst (count_up v)) = (count_value v + 1) mod 2 ^ length v
    \<and> (snd (count_up v) \<longleftrightarrow> count_value v + 1 = 2 ^ length v)
    \<and> list_all is_bit (fst (count_up v)) \<and> length (fst (count_up v)) = length v"
proof -
  obtain w c where w: "count_up v = (w, c)" by (cases "count_up v")
  show ?thesis
    using count_up_carry [OF assms w] count_up_length [OF w] count_value_less [of w] w
    by (cases c) auto
qed

theorem count_up_refines_successor_witness:
  "count_value (fst (count_up ''110'')) = (count_value ''110'' + 1) mod 2 ^ length ''110''"
  using count_up_refines_successor [of "''110''"] by (simp add: is_bit_def)

lemma range_loop_values:
  "list_all is_bit v \<Longrightarrow> map bits_value (range_loop v) = [count_value v ..< 2 ^ length v]
    \<and> (\<forall>s \<in> set (range_loop v). length s = length v \<and> list_all is_bit s)"
proof (induction v rule: range_loop.induct)
  case (1 v)
  obtain w c where w: "count_up v = (w, c)" by (cases "count_up v")
  have rv: "bits_value (rev v) = count_value v" "list_all is_bit (rev v)"
    using 1(2) by (simp_all add: count_value_def list_all_iff)
  note facts = count_up_carry [OF 1(2) w] count_up_length [OF w] count_value_less [of v]
  show ?case
  proof (cases c)
    case True
    then show ?thesis using facts rv 1(2) w by (simp add: range_loop.simps [of v] upt_rec [of "count_value v"])
  next
    case False
    then have "map bits_value (range_loop w) = [count_value w ..< 2 ^ length w]
      \<and> (\<forall>s \<in> set (range_loop w). length s = length w \<and> list_all is_bit s)"
      using 1(1) [OF w [symmetric]] 1(2) facts by blast
    then show ?thesis
      using False facts rv 1(2) w by (simp add: range_loop.simps [of v] upt_rec [of "count_value v"])
  qed
qed

lemma count_value_zeros: "count_value (replicate n CHR ''0'') = 0"
  by (induction n) (simp_all add: bit_val_def)

text \<open>\<^verbatim>\<open>binary_range\<close> returns the \<^verbatim>\<open>int2bin\<close> strings of \<open>0, 1, \<dots>, 2 ^ bits - 1\<close> in this order, each of width
  \<^verbatim>\<open>bits\<close>; for a width of zero it returns the empty list.\<close>

theorem binary_range_counts:
  "map Inr (binary_range bits) = (if bits = 0 then [] else map (\<lambda>i. int2bin (int i) (int bits)) [0 ..< 2 ^ bits])"
proof (cases "bits = 0")
  case False
  let ?v = "replicate bits CHR ''0''"
  have vals: "map bits_value (binary_range bits) = [0 ..< 2 ^ bits]"
    and shape: "\<And>s. s \<in> set (binary_range bits) \<Longrightarrow> length s = bits \<and> list_all is_bit s"
    using range_loop_values [of ?v] False
    by (simp_all add: binary_range_def is_bit_def count_value_zeros list_all_iff)
  have "int2bin (int (bits_value s)) (int bits) = Inr s" if mem: "s \<in> set (binary_range bits)" for s
  proof -
    obtain t where "int2bin (int (bits_value s)) (int bits) = Inr t" "length t = bits" "list_all is_bit t"
      "bits_value t = bits_value s"
      using int2bin_cases [of "int (bits_value s)" bits] bits_value_less [of s] shape [OF mem] False by auto
    then show ?thesis using bits_value_inj [of t s] shape [OF mem] by simp
  qed
  then have "map Inr (binary_range bits) = map (\<lambda>i. int2bin (int i) (int bits)) (map bits_value (binary_range bits))"
    by simp
  then show ?thesis using vals False by simp
qed (simp add: binary_range_def)


section \<open>Low bits and Gray codes\<close>

theorem lsb_int_mod: "lsb_int x n = x mod 2 ^ n"
  by (simp add: lsb_int_def take_bit_eq_mask mask_eq_exp_minus_1 flip: take_bit_eq_mod)

lemma xor_successor: "\<exists>k. (i :: nat) XOR (i + 1) = mask (Suc k)"
proof (induction i rule: less_induct)
  case (less i)
  show ?case
  proof (cases "even i")
    case True
    then have "i XOR (i + 1) = mask (Suc 0)" by (subst xor_rec) (simp add: mask_Suc_double)
    then show ?thesis by blast
  next
    case False
    then have "i div 2 < i" by (cases i) auto
    then obtain k where k: "i div 2 XOR (i div 2 + 1) = mask (Suc k)" using less by blast
    have "(i + 1) div 2 = i div 2 + 1" using False by presburger
    then have "i XOR (i + 1) = mask (Suc (Suc k))"
      using False k by (subst xor_rec) (simp add: mask_Suc_double [of "Suc k"] Suc_0_or_eq)
    then show ?thesis by blast
  qed
qed

lemma xor_eq_0: "(a :: int) XOR b = 0 \<Longrightarrow> a = b"
  by (metis xor.assoc xor.left_neutral xor.right_neutral xor_self_eq)

lemma mask_xor_half: "mask (Suc k) XOR drop_bit 1 (mask (Suc k)) = (2 :: int) ^ k"
  by (rule bit_eqI) (auto simp: bit_simps)

text \<open>The Gray codes of two consecutive numbers differ in exactly one bit, and different numbers have
  different Gray codes.\<close>

theorem gray_encode_one_bit:
  assumes "0 \<le> i"
  shows "(\<exists>k. gray_encode i XOR gray_encode (i + 1) = 2 ^ k) \<and> (0 \<le> j \<and> gray_encode i = gray_encode j \<longrightarrow> i = j)"
proof
  obtain k where "nat i XOR (nat i + 1) = mask (Suc k)" using xor_successor by blast
  then have "int (nat i XOR (nat i + 1)) = int (mask (Suc k))" by simp
  then have m: "i XOR (i + 1) = mask (Suc k)" using assms by (simp add: of_nat_xor_eq of_nat_mask_eq add.commute)
  have "gray_encode i XOR gray_encode (i + 1) = (i XOR (i + 1)) XOR drop_bit 1 (i XOR (i + 1))"
    by (rule bit_eqI) (auto simp: gray_encode_def bit_simps)
  then show "\<exists>k. gray_encode i XOR gray_encode (i + 1) = 2 ^ k" using m mask_xor_half [of k] by auto
next
  show "0 \<le> j \<and> gray_encode i = gray_encode j \<longrightarrow> i = j"
  proof
    assume j: "0 \<le> j \<and> gray_encode i = gray_encode j"
    have "(i XOR j) XOR drop_bit 1 (i XOR j) = gray_encode i XOR gray_encode j"
      by (rule bit_eqI) (auto simp: gray_encode_def bit_simps)
    then have "i XOR j = drop_bit 1 (i XOR j)" using j xor_eq_0 by simp
    then have "i XOR j = (i XOR j) div 2" unfolding drop_bit_eq_div by simp
    moreover have "0 \<le> i XOR j" using assms j by simp
    ultimately have "i XOR j = 0" by presburger
    then show "i = j" by (rule xor_eq_0)
  qed
qed


theorem gray_encode_one_bit_witness:
  "(\<exists>k. gray_encode 7 XOR gray_encode (7 + 1) = 2 ^ k) \<and> (0 \<le> (12 :: int) \<and> gray_encode 7 = gray_encode 12 \<longrightarrow> (7 :: int) = 12)"
  using gray_encode_one_bit [of 7 12] by simp

section \<open>Random vectors of the right length\<close>

lemma draw_chunks_bits:
  assumes "\<forall>k. 0 \<le> draws k \<and> draws k < 1"
  shows "\<exists>v. draw_chunks draws n = Inr v \<and> length v = 10 * n \<and> list_all is_bit v"
proof (induction n)
  case (Suc n)
  let ?i = "py_trunc (1024 * draws n)"
  have "0 \<le> ?i" "?i < 2 ^ 10"
    using assms [rule_format, of n] by (auto simp: py_trunc_def floor_less_iff)
  then obtain s where "int2bin ?i 10 = Inr s" "length s = 10" "list_all is_bit s"
    using int2bin_cases [of ?i 10] by auto
  then show ?case using Suc by auto
qed simp

text \<open>Whatever numbers the random source draws from \<open>[0, 1)\<close>, \<^verbatim>\<open>random_vec\<close> without a maximum, or with one
  that the width cannot exceed, returns exactly \<^verbatim>\<open>bits\<close> binary digits; with a smaller positive maximum it never
  returns, whatever is drawn: the scaled value is a float, which \<^verbatim>\<open>int2bin\<close> refuses.\<close>

theorem random_vec_result:
  assumes "\<forall>k. 0 \<le> draws k \<and> draws k < 1"
  shows "((case max_value of None \<Rightarrow> True | Some m \<Rightarrow> 2 ^ bits - 1 \<le> m) \<longrightarrow>
      (\<exists>v. random_vec draws bits max_value = Inr v \<and> length v = bits \<and> list_all is_bit v))
    \<and> (\<forall>m. max_value = Some m \<and> 0 < m \<and> m < 2 ^ bits - 1 \<longrightarrow>
      random_vec draws bits max_value = Inl (if too_large_for_float m then OverflowError else TypeError))"
proof -
  obtain v where v: "draw_chunks draws (bits div 10 + 1) = Inr v" "length v = 10 * (bits div 10 + 1)" "list_all is_bit v"
    using draw_chunks_bits [OF assms] by blast
  have "bits \<le> length v" using v(2) by presburger
  then have t: "length (take bits v) = bits" "list_all is_bit (take bits v)"
    using v(3) by (auto simp: list_all_iff dest: in_set_takeD)
  show ?thesis
    using v(1) t by (cases "bits = 0"; cases max_value) (auto simp: random_vec_def)
qed

theorem random_vec_result_witness:
  "(\<exists>v. random_vec (\<lambda>k. 1 / 2) 12 None = Inr v \<and> length v = 12 \<and> list_all is_bit v)
    \<and> random_vec (\<lambda>k. 1 / 2) 4 (Some 9) = Inl (if too_large_for_float 9 then OverflowError else TypeError)"
  using random_vec_result [of "\<lambda>k. 1 / 2" 12 None] random_vec_result [of "\<lambda>k. 1 / 2" 4 "Some 9"] by simp

end
