(* ===== verification/Rad_Num.thy ===== *)
theory Rad_Num
  imports Py_Numbers "HOL-Library.Multiset"
begin

text \<open>
  The numeric functions of \<^verbatim>\<open>bindings/python/rad_util.py\<close>: factors and fractions (\<^verbatim>\<open>gcf\<close>, \<^verbatim>\<open>lcm\<close>,
  \<^verbatim>\<open>reduce_fraction\<close>), order statistics (\<^verbatim>\<open>quantile\<close>, \<^verbatim>\<open>trim\<close>), \<^verbatim>\<open>polygon_area\<close>, \<^verbatim>\<open>float_range\<close> and
  \<^verbatim>\<open>round_grid\<close>. Floats are exact rationals; \<^verbatim>\<open>gcf\<close> and its two clients are modelled on integers, for which the
  threshold \<^verbatim>\<open>epsilon\<close> below one only stops the loop at zero.
\<close>

section \<open>Factors and fractions\<close>

text \<open>The loop of \<^verbatim>\<open>gcf\<close>; \<^verbatim>\<open>%\<close> has the sign of the divisor, as \<open>mod\<close> on \<open>int\<close> has.\<close>

function gcf_loop :: "int \<Rightarrow> int \<Rightarrow> int" where
  "gcf_loop result remainder = (if remainder = 0 then \<bar>result\<bar> else gcf_loop remainder (result mod remainder))"
  by pat_completeness auto
termination
proof (relation "measure (\<lambda>(result, remainder). nat \<bar>remainder\<bar>)")
  fix result remainder :: int
  assume "remainder \<noteq> 0"
  then have "\<bar>result mod remainder\<bar> < \<bar>remainder\<bar>" by (rule abs_mod_less)
  then show "((remainder, result mod remainder), (result, remainder)) \<in> measure (\<lambda>(result, remainder). nat \<bar>remainder\<bar>)"
    by simp
qed simp

declare gcf_loop.simps [simp del]

definition gcf :: "int \<Rightarrow> int \<Rightarrow> int" where
  "gcf a b = gcf_loop (max a b) (min a b)"

definition lcm_rad :: "int \<Rightarrow> int \<Rightarrow> rat" where
  "lcm_rad a b = (let denom = gcf a b in if denom = 0 then 0 else of_int a * (of_int b / of_int denom))"

definition reduce_fraction :: "int \<times> int \<Rightarrow> (rat \<times> rat) res" where
  "reduce_fraction fraction =
     (case fraction of (numerator, denominator) \<Rightarrow>
        let common_factor = \<bar>gcf numerator denominator\<bar>
        in res_bind (py_div (of_int numerator) (of_int common_factor)) (\<lambda>a.
             res_bind (py_div (of_int denominator) (of_int common_factor)) (\<lambda>b. Inr (a, b))))"

section \<open>Order statistics\<close>

definition quantile :: "rat list \<Rightarrow> rat \<Rightarrow> rat res" where
  "quantile l p =
     (let l_sort = sort l; n = int (length l); r = 1 + (of_int n - 1) * p; i = py_trunc r; f = r - of_int i
      in if i < n
         then res_bind (py_index l_sort (i - 1)) (\<lambda>x. res_bind (py_index l_sort i) (\<lambda>y. Inr ((1 - f) * x + f * y)))
         else py_index l_sort (i - 1))"

definition median_rad :: "rat list \<Rightarrow> rat res" where
  "median_rad l_sort =
     (let index = int (length l_sort) div 2
      in if even (length l_sort)
         then res_bind (py_index l_sort index) (\<lambda>x. res_bind (py_index l_sort (index - 1)) (\<lambda>y. Inr ((x + y) / 2)))
         else py_index l_sort index)"

definition in_interval :: "rat \<Rightarrow> rat \<Rightarrow> rat \<Rightarrow> rat \<Rightarrow> bool" where
  "in_interval i q1 q3 x \<longleftrightarrow> q1 - i \<le> x \<and> x \<le> q3 + i"

definition trim :: "rat list \<Rightarrow> rat list res" where
  "trim l =
     (let l_sort = sort l
      in res_bind (median_rad l_sort) (\<lambda>median.
           res_bind (quantile l_sort (1 / 4)) (\<lambda>q1.
             res_bind (quantile l_sort (3 / 4)) (\<lambda>q3.
               let iqr = q3 - q1; iqr_extra = iqr * (3 / 2)
               in Inr (filter (in_interval iqr_extra q1 q3) l_sort)))))"

section \<open>Polygons\<close>

text \<open>The argument is changed in place: the points are scaled to integers and the polygon is closed. The second
  component of the result is the caller's list afterwards.\<close>

definition scale_point :: "int \<Rightarrow> rat \<times> rat \<Rightarrow> int \<times> int" where
  "scale_point precision pt = (py_trunc (fst pt * of_int precision), py_trunc (snd pt * of_int precision))"

definition close_polygon :: "(int \<times> int) list \<Rightarrow> (int \<times> int) list res" where
  "close_polygon pts =
     res_bind (py_index pts (- 1)) (\<lambda>a. res_bind (py_index pts 0) (\<lambda>b. Inr (if a \<noteq> b then pts @ [b] else pts)))"

fun area_loop :: "(int \<times> int) list \<Rightarrow> int \<Rightarrow> int" where
  "area_loop ((x_i, y_i) # (x_n, y_n) # rest) area =
     area_loop ((x_n, y_n) # rest) (area + x_n * y_i - y_n * x_i)"
| "area_loop _ area = area"

text \<open>The division of two integers by \<^verbatim>\<open>/\<close>: Python 2, for which the module is documented, rounds down.\<close>

definition slash :: "python \<Rightarrow> int \<Rightarrow> int \<Rightarrow> rat" where
  "slash py a b = (case py of Python2 \<Rightarrow> of_int (a div b) | Python3 \<Rightarrow> of_int a / of_int b)"

definition polygon_area :: "python \<Rightarrow> (rat \<times> rat) list \<Rightarrow> int \<Rightarrow> (rat \<times> (int \<times> int) list) res" where
  "polygon_area py points_list precision =
     res_bind (close_polygon (map (scale_point precision) points_list)) (\<lambda>pts.
       res_bind (py_div \<bar>slash py (area_loop pts 0) 2\<bar> (of_int (precision ^ 2))) (\<lambda>area.
         Inr (area, pts)))"

section \<open>Ranges and grids\<close>

text \<open>The loop of \<^verbatim>\<open>float_range\<close> is \<open>step_loop\<close>: it does not end when the step is not positive.\<close>

definition float_range :: "rat \<Rightarrow> rat option \<Rightarrow> rat option \<Rightarrow> rat list option" where
  "float_range start stop step =
     (let (start, stop) = (case stop of None \<Rightarrow> (0, start) | Some s \<Rightarrow> (start, s));
          step = (case step of None \<Rightarrow> 1 | Some s \<Rightarrow> s)
      in step_loop start stop step)"

definition round_grid :: "rat \<Rightarrow> rat \<Rightarrow> int \<Rightarrow> rat res" where
  "round_grid v grid mode =
     (if grid = 0 then Inl ZeroDivisionError
      else let off_grid = py_mod v grid;
               add_one = (if mode = 0 then Some (if grid / 2 \<le> off_grid then 1 else 0)
                          else if mode = 1 \<and> off_grid \<noteq> 0 then Some 1
                          else if mode = - 1 \<and> off_grid \<noteq> 0 then Some 0
                          else None)
           in (case add_one of
                 None \<Rightarrow> Inl UnboundLocalError
               | Some k \<Rightarrow> Inr ((of_int (py_trunc (v / grid)) + k) * grid)))"

section \<open>Factors\<close>

lemma gcf_loop_gcd: "gcf_loop a b = gcd a b"
proof (induction a b rule: gcf_loop.induct)
  case (1 a b)
  then show ?case by (simp add: gcf_loop.simps [of a b] gcd.commute [of b] gcd_red_int [of a b])
qed

lemma gcf_gcd: "gcf a b = gcd a b"
  by (simp add: gcf_def gcf_loop_gcd max_def min_def gcd.commute)

lemma of_int_div_gcd: "of_int b / of_int (gcd a b) = (of_int (b div gcd a b) :: rat)"
  "of_int a / of_int (gcd a b) = (of_int (a div gcd a b) :: rat)"
  by (simp_all add: of_int_div)

lemma lcm_rad_abs: "\<bar>lcm_rad a b\<bar> = of_int (lcm a b)"
proof (cases "a = 0 \<and> b = 0")
  case False
  have "lcm_rad a b = of_int (a * (b div gcd a b))"
    using False by (simp add: lcm_rad_def gcf_gcd of_int_div_gcd)
  then have "\<bar>lcm_rad a b\<bar> = of_int \<bar>a * b div gcd a b\<bar>" by (simp add: div_mult_swap)
  then show ?thesis by (simp add: lcm_gcd)
qed (simp add: lcm_rad_def gcf_gcd)

text \<open>\<^verbatim>\<open>gcf\<close> ends on all integers and returns their greatest common divisor; \<^verbatim>\<open>lcm\<close> is their least common
  multiple up to the sign; \<^verbatim>\<open>reduce_fraction\<close> returns the two numbers without their common factor, which are
  coprime, unless both are zero, where it divides by zero.\<close>

theorem gcf_lcm_reduce_correct:
  "gcf a b = gcd a b \<and> \<bar>lcm_rad a b\<bar> = of_int (lcm a b)
    \<and> reduce_fraction (a, b) = (if a = 0 \<and> b = 0 then Inl ZeroDivisionError
        else Inr (of_int (a div gcd a b), of_int (b div gcd a b)))
    \<and> (a = 0 \<and> b = 0 \<or> coprime (a div gcd a b) (b div gcd a b))"
  using div_gcd_coprime [of a b]
  by (auto simp: gcf_gcd lcm_rad_abs reduce_fraction_def py_div_def of_int_div_gcd Let_def)

section \<open>Quantiles between the extremes\<close>

lemma sort_nth_bounds:
  assumes "i < length l"
  shows "Min (set l) \<le> sort l ! i \<and> sort l ! i \<le> Max (set l)"
proof -
  have "sort l ! i \<in> set l" using nth_mem [of i "sort l"] assms by simp
  then show ?thesis by simp
qed

lemma convex_bounds:
  assumes "0 \<le> f" "f \<le> 1" "m \<le> x" "x \<le> M" "m \<le> y" "y \<le> (M :: rat)"
  shows "m \<le> (1 - f) * x + f * y \<and> (1 - f) * x + f * y \<le> M"
proof -
  have "(1 - f) * m + f * m \<le> (1 - f) * x + f * y" "(1 - f) * x + f * y \<le> (1 - f) * M + f * M"
    using assms by (auto intro!: add_mono mult_left_mono)
  then show ?thesis by (simp add: algebra_simps)
qed

text \<open>The position of the quantile: \<open>1 \<le> i \<le> n\<close>, and the weight is the fractional part.\<close>

lemma quantile_position:
  assumes "0 < n" "0 \<le> p" "p \<le> 1"
  defines "r \<equiv> 1 + (of_int n - 1) * (p :: rat)"
  shows "1 \<le> py_trunc r \<and> py_trunc r \<le> n \<and> 0 \<le> r - of_int (py_trunc r) \<and> r - of_int (py_trunc r) < 1"
proof -
  have "0 \<le> (of_int n - 1) * p" "(of_int n - 1) * p \<le> of_int n - 1"
    using assms(1-3) by (auto intro!: mult_nonneg_nonneg mult_left_le)
  then have "1 \<le> r" "r \<le> of_int n" by (simp_all add: r_def)
  then show ?thesis
    by (auto simp: py_trunc_def le_floor_iff floor_le_iff of_int_floor_le) linarith+
qed

lemma nat_of_positive: "1 \<le> i \<Longrightarrow> i = int (Suc (nat i - 1))"
  by simp

text \<open>The quantile as a point on the polygon through the sorted values.\<close>

definition quantile_pos :: "nat \<Rightarrow> rat \<Rightarrow> rat" where
  "quantile_pos n p = 1 + (of_int (int n) - 1) * p"

definition quantile_at :: "rat list \<Rightarrow> rat \<Rightarrow> rat" where
  "quantile_at s r = (let k = nat (py_trunc r) - 1
     in s ! k + (r - of_int (py_trunc r)) * (s ! min (Suc k) (length s - 1) - s ! k))"

lemma quantile_value:
  assumes "l \<noteq> []" "0 \<le> p" "p \<le> 1"
  shows "quantile l p = Inr (quantile_at (sort l) (quantile_pos (length l) p))"
proof -
  define r i k where "r = quantile_pos (length l) p" and "i = py_trunc r" and "k = nat i - 1"
  have i: "1 \<le> i" "i \<le> int (length l)"
    using quantile_position [of "int (length l)" p] assms by (auto simp: r_def i_def quantile_pos_def)
  have k: "i - 1 = int k" "i = int (Suc k)" "k < length l" using i by (auto simp: k_def)
  have run: "quantile l p = (if i < int (length l)
      then res_bind (py_index (sort l) (i - 1)) (\<lambda>x. res_bind (py_index (sort l) i) (\<lambda>y. Inr ((1 - (r - of_int i)) * x + (r - of_int i) * y)))
      else py_index (sort l) (i - 1))"
    by (simp add: quantile_def Let_def quantile_pos_def r_def i_def)
  have at: "quantile_at (sort l) r = sort l ! k + (r - of_int i) * (sort l ! min (Suc k) (length l - 1) - sort l ! k)"
    by (simp add: quantile_at_def Let_def i_def k_def)
  show ?thesis
  proof (cases "Suc k < length l")
    case True
    then have "min (Suc k) (length l - 1) = Suc k" by simp
    then show ?thesis
      using True unfolding run r_def [symmetric] at unfolding k(1) unfolding k(2)
      by (simp add: py_index_nat algebra_simps del: of_nat_Suc)
  next
    case False
    then have "min (Suc k) (length l - 1) = k" using k(3) by simp
    then show ?thesis using False k unfolding run r_def [symmetric] at by (simp add: py_index_nat)
  qed
qed

lemma quantile_at_bounds:
  assumes "sorted s" "1 \<le> r" "r \<le> of_int (int (length s))"
  defines "k \<equiv> nat (py_trunc r) - 1"
  shows "k < length s \<and> s ! k \<le> quantile_at s r \<and> quantile_at s r \<le> s ! min (Suc k) (length s - 1)"
proof -
  have f: "0 \<le> r - of_int (py_trunc r)" "r - of_int (py_trunc r) \<le> 1" "1 \<le> py_trunc r" "py_trunc r \<le> int (length s)"
    using assms(2,3) by (auto simp: py_trunc_def le_floor_iff floor_le_iff of_int_floor_le) linarith+
  have k: "k < length s" using f by (auto simp: k_def)
  have d: "0 \<le> s ! min (Suc k) (length s - 1) - s ! k"
    using sorted_nth_mono [OF assms(1), of k "min (Suc k) (length s - 1)"] k by simp
  have "quantile_at s r = s ! k + (r - of_int (py_trunc r)) * (s ! min (Suc k) (length s - 1) - s ! k)"
    by (simp add: quantile_at_def k_def Let_def)
  then show ?thesis
    using k mult_nonneg_nonneg [OF f(1) d] mult_left_le_one_le [OF d f(1,2)] by linarith
qed

lemma quantile_at_mono:
  assumes "sorted s" "1 \<le> r" "r \<le> r'" "r' \<le> of_int (int (length s))"
  shows "quantile_at s r \<le> quantile_at s r'"
proof (cases "py_trunc r = py_trunc r'")
  case True
  let ?k = "nat (py_trunc r) - 1"
  have "?k < length s" using quantile_at_bounds [of s r] assms by auto
  then have "s ! ?k \<le> s ! min (Suc ?k) (length s - 1)" using sorted_nth_mono [OF assms(1)] by simp
  then show ?thesis
    using True assms(3) by (auto simp: quantile_at_def Let_def intro!: mult_right_mono)
next
  case False
  have "py_trunc r \<le> py_trunc r'" using assms(2,3) by (auto simp: py_trunc_def floor_mono)
  then have less: "py_trunc r < py_trunc r'" "1 \<le> py_trunc r" using False assms(2) by (auto simp: py_trunc_def le_floor_iff)
  let ?k = "nat (py_trunc r) - 1" and ?k' = "nat (py_trunc r') - 1"
  have b: "quantile_at s r \<le> s ! min (Suc ?k) (length s - 1)" "?k' < length s" "s ! ?k' \<le> quantile_at s r'"
    using quantile_at_bounds [of s r] quantile_at_bounds [of s r'] assms by auto
  have "s ! min (Suc ?k) (length s - 1) \<le> s ! ?k'"
    using sorted_nth_mono [OF assms(1) _ b(2), of "min (Suc ?k) (length s - 1)"] less by auto
  then show ?thesis using b by linarith
qed

lemma quantile_pos_bounds:
  assumes "0 < n" "0 \<le> p" "p \<le> 1"
  shows "1 \<le> quantile_pos n p \<and> quantile_pos n p \<le> of_int (int n)"
proof -
  have "0 \<le> (of_int (int n) - 1) * p" "(of_int (int n) - 1) * p \<le> of_int (int n) - 1"
    using assms by (auto intro!: mult_nonneg_nonneg mult_left_le)
  then show ?thesis by (simp add: quantile_pos_def)
qed

lemma quantile_pos_mono: "0 < n \<Longrightarrow> p \<le> p' \<Longrightarrow> quantile_pos n p \<le> quantile_pos n p'"
  by (auto simp: quantile_pos_def intro!: mult_left_mono)

lemma py_index_Nil: "py_index [] i = Inl IndexError"
  by (auto simp: py_index_def)

lemma quantile_monotone_le:
  assumes "0 \<le> p" "p \<le> p'" "p' \<le> 1"
  shows "if l = [] then quantile l p = Inl IndexError
    else \<exists>q q'. quantile l p = Inr q \<and> quantile l p' = Inr q' \<and> Min (set l) \<le> q \<and> q \<le> q' \<and> q' \<le> Max (set l)"
proof (cases "l = []")
  case True
  then show ?thesis by (simp add: quantile_def Let_def py_index_Nil)
next
  case False
  let ?s = "sort l" and ?r = "quantile_pos (length l) p" and ?r' = "quantile_pos (length l) p'"
  have n: "0 < length l" using False by simp
  have r: "1 \<le> ?r" "?r \<le> of_int (int (length ?s))" "1 \<le> ?r'" "?r' \<le> of_int (int (length ?s))" "?r \<le> ?r'"
    using quantile_pos_bounds [OF n] quantile_pos_mono [OF n] assms by auto
  have le_Max: "sort l ! min (Suc k) (length l - 1) \<le> Max (set l)" for k
    using sort_nth_bounds [of "min (Suc k) (length l - 1)" l] n by (simp add: min_less_iff_disj)
  have "quantile_at ?s ?r \<le> quantile_at ?s ?r'" using quantile_at_mono [of ?s ?r ?r'] r by simp
  moreover have "Min (set l) \<le> quantile_at ?s ?r"
    using quantile_at_bounds [of ?s ?r] r(1,2) sort_nth_bounds [of "nat (py_trunc ?r) - 1" l] by auto
  moreover have "quantile_at ?s ?r' \<le> Max (set l)"
    using quantile_at_bounds [of ?s ?r'] r(3,4) le_Max by (auto intro: order_trans)
  ultimately show ?thesis using False assms quantile_value [of l p] quantile_value [of l p'] by simp
qed

text \<open>On a non-empty list the quantiles exist for \<open>0 \<le> p \<le> 1\<close>, lie between the least and the greatest
  value and grow with \<open>p\<close>; on the empty list \<^verbatim>\<open>quantile\<close> raises \<^verbatim>\<open>IndexError\<close>.\<close>

theorem quantile_monotone:
  assumes "0 \<le> p" "p \<le> p'" "p' \<le> 1"
  shows "if l = [] then quantile l p = Inl IndexError
    else \<exists>q q'. quantile l p = Inr q \<and> quantile l p' = Inr q' \<and> Min (set l) \<le> q \<and> q \<le> q' \<and> q' \<le> Max (set l)"
  using quantile_monotone_le [OF assms] .

theorem quantile_monotone_witness:
  "\<exists>q q'. quantile [3, 1, 2] (1 / 4) = Inr q \<and> quantile [3, 1, 2] (3 / 4) = Inr q'
    \<and> Min (set [3, 1, 2]) \<le> q \<and> q \<le> q' \<and> q' \<le> Max (set [3, 1, 2])"
  using quantile_monotone [of "1 / 4" "3 / 4" "[3, 1, 2]"] by simp

section \<open>Trimming\<close>

lemma median_exists:
  assumes "l \<noteq> []"
  shows "\<exists>m. median_rad l = Inr m"
proof -
  have "int (length l) div 2 < int (length l)" "- int (length l) \<le> int (length l) div 2 - 1"
    using assms by (cases l; simp)+
  then show ?thesis
    by (cases "median_rad l") (auto simp: median_rad_def Let_def py_index_def split: if_splits)
qed

text \<open>\<^verbatim>\<open>trim\<close> returns, on every non-empty list, the values of the list in ascending order, as often as they
  occur, less those beyond the fences; every value between the two quartiles is kept, and the empty list raises
  \<^verbatim>\<open>IndexError\<close>.\<close>

theorem trim_keeps_quartiles:
  "if l = [] then trim l = Inl IndexError
   else \<exists>t q1 q3. trim l = Inr t \<and> quantile l (1 / 4) = Inr q1 \<and> quantile l (3 / 4) = Inr q3 \<and> q1 \<le> q3 \<and> sorted t
     \<and> mset t = filter_mset (in_interval ((q3 - q1) * (3 / 2)) q1 q3) (mset l)
     \<and> (\<forall>x. q1 \<le> x \<and> x \<le> q3 \<longrightarrow> count (mset t) x = count (mset l) x)"
proof (cases "l = []")
  case True
  then show ?thesis by (simp add: trim_def median_rad_def Let_def py_index_Nil)
next
  case False
  obtain q1 q3 where q: "quantile l (1 / 4) = Inr q1" "quantile l (3 / 4) = Inr q3" "q1 \<le> q3"
    using quantile_monotone_le [of "1 / 4" "3 / 4" l] False by auto
  have qs: "quantile (sort l) p = quantile l p" for p by (simp add: quantile_def sorted_sort_id)
  have "sort l \<noteq> []" using False by (metis length_0_conv length_sort)
  then obtain m where "median_rad (sort l) = Inr m" using median_exists by blast
  then have t: "trim l = Inr (filter (in_interval ((q3 - q1) * (3 / 2)) q1 q3) (sort l))"
    using q by (simp add: trim_def Let_def qs)
  have "in_interval ((q3 - q1) * (3 / 2)) q1 q3 x" if "q1 \<le> x" "x \<le> q3" for x
    using q(3) that by (simp add: in_interval_def field_simps)
  then have "\<forall>x. q1 \<le> x \<and> x \<le> q3 \<longrightarrow> count (filter_mset (in_interval ((q3 - q1) * (3 / 2)) q1 q3) (mset l)) x = count (mset l) x"
    by simp
  moreover have "sorted (filter P (sort l))" for P using sorted_filter [of "\<lambda>x. x" "sort l" P] by simp
  ultimately show ?thesis
    unfolding if_not_P [OF False] using q t
    by (intro exI [of _ "filter (in_interval ((q3 - q1) * (3 / 2)) q1 q3) (sort l)"] exI [of _ q1] exI [of _ q3])
      (simp only: mset_filter mset_sort simp_thms)
qed

section \<open>The area of a polygon\<close>

text \<open>The shoelace formula over a closed list of points.\<close>

definition shoelace :: "(int \<times> int) list \<Rightarrow> int" where
  "shoelace pts = (\<Sum>i<length pts. let (x, y) = pts ! i; (x', y') = pts ! (Suc i mod length pts) in x * y' - x' * y)"

lemma area_loop_sum:
  "area_loop pts a = a - (\<Sum>i<length pts - 1. let (x, y) = pts ! i; (x', y') = pts ! Suc i in x * y' - x' * y)"
proof (induction pts a rule: area_loop.induct)
  case (1 x_i y_i x_n y_n rest area)
  then show ?case by (simp add: lessThan_Suc_eq_insert_0 sum.reindex algebra_simps)
qed auto

lemma sum_lessThan_cong: "(\<And>i. i < n \<Longrightarrow> f i = g i) \<Longrightarrow> (\<Sum>i<n. f i) = (\<Sum>i<n. g (i :: nat) :: int)"
  by (rule sum.cong) auto

lemma closed_area:
  assumes "pts \<noteq> []" "close_polygon pts = Inr c"
  shows "area_loop c 0 = - shoelace pts"
proof -
  let ?f = "\<lambda>p q. let (x, y) = p; (x', y') = (q :: int \<times> int) in x * y' - x' * (y :: int)"
  obtain n where n: "length pts = Suc n" using assms(1) by (cases pts) auto
  have c: "c = (if pts ! n \<noteq> pts ! 0 then pts @ [pts ! 0] else pts)"
    using assms n by (simp add: close_polygon_def py_index_def)
  have mid: "(\<Sum>i<n. ?f (pts ! i) (pts ! (Suc i mod Suc n))) = (\<Sum>i<n. ?f (pts ! i) (pts ! Suc i))"
    by (rule sum_lessThan_cong) simp
  have s: "shoelace pts = (\<Sum>i<n. ?f (pts ! i) (pts ! Suc i)) + ?f (pts ! n) (pts ! 0)"
    using mid n by (simp add: shoelace_def)
  show ?thesis
  proof (cases "pts ! n = pts ! 0")
    case True
    then show ?thesis using c n s by (simp add: area_loop_sum Let_def split: prod.splits)
  next
    case False
    have "(\<Sum>i<Suc n. ?f (c ! i) (c ! Suc i)) = (\<Sum>i<n. ?f (pts ! i) (pts ! Suc i)) + ?f (pts ! n) (pts ! 0)"
      using False c n by (simp add: nth_append)
    then show ?thesis using c n s False by (simp add: area_loop_sum del: sum.lessThan_Suc)
  qed
qed

lemma scale_of_int: "scale_point p (of_int x, of_int y) = (x * p, y * p)"
  by (simp add: scale_point_def flip: of_int_mult)

lemma shoelace_scale: "shoelace (map (\<lambda>(x, y). (x * p, y * p)) pts) = p ^ 2 * shoelace pts"
proof (cases "pts = []")
  case False
  then have "(\<Sum>i<length pts. let (x, y) = map (\<lambda>(x, y). (x * p, y * p)) pts ! i;
        (x', y') = map (\<lambda>(x, y). (x * p, y * p)) pts ! (Suc i mod length pts) in x * y' - x' * y) =
      (\<Sum>i<length pts. p ^ 2 * (let (x, y) = pts ! i; (x', y') = pts ! (Suc i mod length pts) in x * y' - x' * y))"
    by (intro sum_lessThan_cong) (simp add: algebra_simps power2_eq_square split: prod.splits)
  then show ?thesis by (simp add: shoelace_def sum_distrib_left)
qed (simp add: shoelace_def)

lemma close_polygon_exists: "pts \<noteq> [] \<Longrightarrow> \<exists>c. close_polygon pts = Inr c"
  by (cases "close_polygon pts") (auto simp: close_polygon_def py_index_def)

definition of_points :: "(int \<times> int) list \<Rightarrow> (rat \<times> rat) list" where
  "of_points pts = map (\<lambda>(x, y). (of_int x, of_int y)) pts"

lemma slash_two: "py = Python3 \<or> even a \<Longrightarrow> slash py a 2 = of_int a / 2"
  by (auto simp: slash_def of_int_div split: python.splits)

lemma polygon_area_value:
  assumes "pts \<noteq> []" "precision \<noteq> 0" "py = Python3 \<or> even precision"
  shows "\<exists>c. polygon_area py (of_points pts) precision = Inr (\<bar>of_int (shoelace pts)\<bar> / 2, c)
    \<and> close_polygon (map (\<lambda>(x, y). (x * precision, y * precision)) pts) = Inr c"
proof -
  let ?s = "map (\<lambda>(x, y). (x * precision, y * precision)) pts"
  have m: "map (scale_point precision) (of_points pts) = ?s"
    by (auto simp: of_points_def scale_of_int)
  obtain c where c: "close_polygon ?s = Inr c" using close_polygon_exists assms(1) by blast
  then have area: "area_loop c 0 = - (precision ^ 2 * shoelace pts)" using closed_area [OF _ c] assms(1) by (simp add: shoelace_scale)
  then have "slash py (area_loop c 0) 2 = of_int (area_loop c 0) / 2" using assms(3) by (intro slash_two) auto
  then have "\<bar>slash py (area_loop c 0) 2\<bar> / of_int (precision ^ 2) = \<bar>of_int (shoelace pts)\<bar> / (2 :: rat)"
    using assms(2) area by (simp add: abs_mult)
  then show ?thesis using m c assms(2) by (simp add: polygon_area_def py_div_def)
qed

lemma shoelace_closed:
  assumes "pts \<noteq> []" "close_polygon pts = Inr c"
  shows "c \<noteq> [] \<and> shoelace c = shoelace pts"
proof -
  have ne: "c \<noteq> []" and fix_c: "close_polygon c = Inr c"
    using assms by (auto simp: close_polygon_def py_index_def nth_append split: if_splits)
  show ?thesis using closed_area [OF ne fix_c] closed_area [OF assms] ne by simp
qed

text \<open>C36: For every non-empty polygon with integer corners and every precision that is not zero, and under Python 2 even, \<^verbatim>\<open>polygon_area\<close> returns half
  the absolute value of the shoelace formula over the cyclic list of corners, whether the polygon was closed or not. But it
  leaves its argument scaled: a second call on the same list returns the area times the square of the precision.\<close>

theorem polygon_area_shoelace:
  assumes "pts \<noteq> []" "precision \<noteq> 0" "py = Python3 \<or> even precision"
  shows "\<exists>c. polygon_area py (of_points pts) precision = Inr (\<bar>of_int (shoelace pts)\<bar> / 2, c)
    \<and> (\<exists>c'. polygon_area py (of_points c) precision = Inr (of_int (precision ^ 2) * (\<bar>of_int (shoelace pts)\<bar> / 2), c'))"
proof -
  let ?s = "map (\<lambda>(x, y). (x * precision, y * precision)) pts"
  obtain c where c: "polygon_area py (of_points pts) precision = Inr (\<bar>of_int (shoelace pts)\<bar> / 2, c)"
    "close_polygon ?s = Inr c" using polygon_area_value [OF assms] by blast
  have "c \<noteq> []" "shoelace c = precision ^ 2 * shoelace pts"
    using shoelace_closed [OF _ c(2)] assms(1) by (auto simp: shoelace_scale)
  then show ?thesis using c(1) polygon_area_value [of c precision py] assms(2,3) by (auto simp: abs_mult)
qed

theorem polygon_area_shoelace_witness:
  "\<exists>c. polygon_area Python2 (of_points [(0, 0), (0, 1), (1, 1), (1, 2), (2, 2), (2, 0)]) 100 = Inr (3, c)"
proof -
  have "shoelace [(0, 0), (0, 1), (1, 1), (1, 2), (2, 2), (2, 0)] = - 6" by code_simp
  then show ?thesis
    using polygon_area_shoelace [of "[(0, 0), (0, 1), (1, 1), (1, 2), (2, 2), (2, 0)]" 100 Python2] by auto
qed

text \<open>The two conditions are needed: under Python 2 an odd precision doubles the area of a triangle, and corners that are not integers are cut.\<close>

theorem polygon_area_rounded:
  "(\<exists>c. polygon_area Python2 (of_points [(0, 0), (1, 0), (0, 1)]) 1 = Inr (1, c))
   \<and> (\<exists>c. polygon_area Python3 [(0, 0), (1 / 2, 0), (0, 1 / 2)] 1 = Inr (0, c))"
proof -
  have "\<lfloor>1 / 2 :: rat\<rfloor> = 0" by (simp add: floor_eq_iff)
  then show ?thesis
    by (simp add: polygon_area_def of_points_def scale_point_def py_trunc_def close_polygon_def py_index_def slash_def py_div_def)
qed

section \<open>Ranges\<close>

text \<open>With a positive step \<^verbatim>\<open>float_range\<close> ends and returns the progression \<open>start, start + step, \<dots>\<close> of exactly
  the members below \<^verbatim>\<open>stop\<close>; with a step that is not positive it never returns unless the range is empty.\<close>

theorem float_range_result:
  "(0 < step \<longrightarrow> float_range start (Some stop) (Some step) =
      Some (map (\<lambda>k. start + of_nat k * step) [0..<nat \<lceil>(stop - start) / step\<rceil>]))
    \<and> (step \<le> 0 \<longrightarrow> float_range start (Some stop) (Some step) = (if start < stop then None else Some []))"
  using step_loop_positive [of step start stop] step_loop_not_positive [of step start stop]
  by (simp add: float_range_def)

theorem float_range_result_witness:
  "float_range 0 (Some 1) (Some (1 / 4)) = Some (map (\<lambda>k. 0 + of_nat k * (1 / 4)) [0..<nat \<lceil>(1 - 0) / (1 / 4 :: rat)\<rceil>])"
  using float_range_result [of "1 / 4" 0 1] by simp

section \<open>Grids\<close>

text \<open>For a value that is not negative and a positive grid \<^verbatim>\<open>round_grid\<close> returns the multiple of the grid nearest to the
  value (mode 0), above it (1) or below it (-1); but a value on the grid in the modes 1 and -1, and any other mode,
  raise \<^verbatim>\<open>UnboundLocalError\<close>.\<close>

theorem round_grid_nonnegative:
  assumes "0 \<le> v" "0 < grid"
  shows "(\<exists>k r. round_grid v grid 0 = Inr r \<and> r = of_int k * grid \<and> \<bar>r - v\<bar> \<le> grid / 2)
    \<and> (if py_mod v grid = 0 then round_grid v grid 1 = Inl UnboundLocalError \<and> round_grid v grid (- 1) = Inl UnboundLocalError
       else \<exists>k. round_grid v grid 1 = Inr (of_int (k + 1) * grid) \<and> round_grid v grid (- 1) = Inr (of_int k * grid)
         \<and> of_int k * grid < v \<and> v < of_int (k + 1) * grid)
    \<and> (mode \<notin> {- 1, 0, 1} \<longrightarrow> round_grid v grid mode = Inl UnboundLocalError)"
proof -
  let ?k = "\<lfloor>v / grid\<rfloor>" and ?off = "py_mod v grid"
  have k: "py_trunc (v / grid) = ?k" using assms by (simp add: py_trunc_def)
  have off: "v = of_int ?k * grid + ?off" "0 \<le> ?off" "?off < grid"
    using py_mod_bounds [OF assms(2), of v] by (auto simp: py_mod_def)
  have "\<exists>k r. round_grid v grid 0 = Inr r \<and> r = of_int k * grid \<and> \<bar>r - v\<bar> \<le> grid / 2"
  proof (cases "grid / 2 \<le> ?off")
    case True
    then have "round_grid v grid 0 = Inr (of_int (?k + 1) * grid)" using assms k by (simp add: round_grid_def Let_def)
    moreover have "\<bar>of_int (?k + 1) * grid - v\<bar> \<le> grid / 2" using True off by (simp add: algebra_simps abs_if)
    ultimately show ?thesis by blast
  next
    case False
    then have "round_grid v grid 0 = Inr (of_int ?k * grid)" using assms k by (simp add: round_grid_def Let_def)
    moreover have "\<bar>of_int ?k * grid - v\<bar> \<le> grid / 2" using False off by (simp add: abs_if)
    ultimately show ?thesis by blast
  qed
  moreover have "of_int ?k * grid < v \<and> v < of_int (?k + 1) * grid" if "?off \<noteq> 0"
    using off that by (simp add: algebra_simps)
  ultimately show ?thesis using assms k by (auto simp: round_grid_def Let_def intro!: exI [of _ ?k])
qed

theorem round_grid_nonnegative_witness:
  "(\<exists>k r. round_grid (15 / 2) 5 0 = Inr r \<and> r = of_int k * 5 \<and> \<bar>r - 15 / 2\<bar> \<le> 5 / 2)
    \<and> round_grid (15 / 2) 5 7 = Inl UnboundLocalError"
  using round_grid_nonnegative [of "15 / 2" 5 7] by (simp add: py_mod_def)

text \<open>Below zero \<^verbatim>\<open>int\<close> truncates upwards, so \<^verbatim>\<open>round_grid\<close> is one grid unit too high.\<close>

theorem round_grid_negative:
  "round_grid (- 6) 5 1 = Inr 0 \<and> round_grid (- 6) 5 (- 1) = Inr (- 5) \<and> round_grid (- 6) 5 0 = Inr 0"
proof -
  have f: "\<lfloor>- 6 / 5 :: rat\<rfloor> = - 2" "\<lceil>- 6 / 5 :: rat\<rceil> = - 1" by (simp_all add: floor_eq_iff ceiling_eq_iff)
  then show ?thesis by (simp add: round_grid_def py_mod_def py_trunc_def)
qed

end
