(* ===== verification/Module_Templates.thy ===== *)
theory Module_Templates
  imports Py_Prelude
begin

text \<open>
  The templates of \<^verbatim>\<open>utils/create-module.py\<close>, line by line, and \<^verbatim>\<open>str.format\<close>, which fills them in. The model of
  \<^verbatim>\<open>format\<close> covers what the templates use: doubled braces and replacement fields that are plain names.
\<close>

section \<open>Formatting\<close>

lemma length_after [simp]: "length (dropWhile P s) - n < Suc (length s)"
  using length_dropWhile_le [of P s] by simp

function py_format :: "(string \<times> string) list \<Rightarrow> string \<Rightarrow> string res" where
  "py_format kwargs [] = Inr []"
| "py_format kwargs (c # s) =
     (if c = CHR ''{'' then
        (if take 1 s = ''{'' then res_bind (py_format kwargs (drop 1 s)) (\<lambda>r. Inr (CHR ''{'' # r))
         else let name = takeWhile (\<lambda>x. x \<noteq> CHR ''}'') s; rest = dropWhile (\<lambda>x. x \<noteq> CHR ''}'') s
              in if rest = [] then Inl ValueError
                 else (case map_of kwargs name of
                         None \<Rightarrow> Inl KeyError
                       | Some v \<Rightarrow> res_bind (py_format kwargs (drop 1 rest)) (\<lambda>r. Inr (v @ r))))
      else if c = CHR ''}'' then
        (if take 1 s = ''}'' then res_bind (py_format kwargs (drop 1 s)) (\<lambda>r. Inr (CHR ''}'' # r))
         else Inl ValueError)
      else res_bind (py_format kwargs s) (\<lambda>r. Inr (c # r)))"
  by pat_completeness auto
termination
  by (relation "measure (\<lambda>(kwargs, s). length s)") (auto simp: length_after)

declare py_format.simps [simp del]

text \<open>The fields a template names; \<open>None\<close> when its braces do not match.\<close>

function format_fields :: "string \<Rightarrow> string list option" where
  "format_fields [] = Some []"
| "format_fields (c # s) =
     (if c = CHR ''{'' then
        (if take 1 s = ''{'' then format_fields (drop 1 s)
         else let name = takeWhile (\<lambda>x. x \<noteq> CHR ''}'') s; rest = dropWhile (\<lambda>x. x \<noteq> CHR ''}'') s
              in if rest = [] then None
                 else map_option (\<lambda>ns. name # ns) (format_fields (drop 1 rest)))
      else if c = CHR ''}'' then (if take 1 s = ''}'' then format_fields (drop 1 s) else None)
      else format_fields s)"
  by pat_completeness auto
termination
  by (relation "measure length") (auto simp: length_after)

declare format_fields.simps [simp del]

text \<open>A template is the list of its lines; the file has a newline after each of them.\<close>

definition lines_text :: "string list \<Rightarrow> string" where
  "lines_text ls = concat (map (\<lambda>l. l @ newline) ls)"

section \<open>The templates\<close>

definition CMAKELISTS_TEMPLATE :: string where
  \<open>CMAKELISTS_TEMPLATE = lines_text [
     ''check_include_file_cxx(stdint.h HAVE_STDINT_H)'',
     ''if(HAVE_STDINT_H)'',
     ''    add_definitions(-DHAVE_STDINT_H)'',
     ''endif()'',
     '''',
     ''set(examples_as_tests_sources)'',
     ''if(${{ENABLE_EXAMPLES}})'',
     ''    set(examples_as_tests_sources    '',
     ''        #test/{MODULE}-examples-test-suite.cc'',
     ''        )'',
     ''endif()    '',
     '''',
     ''build_lib('',
     ''    LIBNAME {MODULE}'',
     ''    SOURCE_FILES model/{MODULE}.cc'',
     ''                 helper/{MODULE}-helper.cc '',
     ''    HEADER_FILES model/{MODULE}.h'',
     ''                 helper/{MODULE}-helper.h'',
     ''    LIBRARIES_TO_LINK ${{libcore}}'',
     ''    TEST_SOURCES test/{MODULE}-test-suite.cc'',
     ''                 ${{examples_as_tests_sources}}'',
     '')'',
     ''    '']\<close>

definition MODEL_CC_TEMPLATE :: string where
  \<open>MODEL_CC_TEMPLATE = lines_text [
     ''/* -*- Mode:C++; c-file-style:"gnu"; indent-tabs-mode:nil; -*- */'',
     '''',
     ''#include "{MODULE}.h"'',
     '''',
     ''namespace ns3 {{'',
     '''',
     ''/* ... */'',
     '''',
     '''',
     ''}}'',
     '''']\<close>

definition MODEL_H_TEMPLATE :: string where
  \<open>MODEL_H_TEMPLATE = lines_text [
     ''/* -*- Mode:C++; c-file-style:"gnu"; indent-tabs-mode:nil; -*- */'',
     ''#ifndef {INCLUDE_GUARD}'',
     ''#define {INCLUDE_GUARD}'',
     '''',
     ''namespace ns3 {{'',
     '''',
     ''/* ... */'',
     '''',
     ''}}'',
     '''',
     ''#endif /* {INCLUDE_GUARD} */'',
     '''']\<close>

definition HELPER_CC_TEMPLATE :: string where
  \<open>HELPER_CC_TEMPLATE = lines_text [
     ''/* -*- Mode:C++; c-file-style:"gnu"; indent-tabs-mode:nil; -*- */'',
     '''',
     ''#include "{MODULE}-helper.h"'',
     '''',
     ''namespace ns3 {{'',
     '''',
     ''/* ... */'',
     '''',
     '''',
     ''}}'',
     '''']\<close>

definition HELPER_H_TEMPLATE :: string where
  \<open>HELPER_H_TEMPLATE = lines_text [
     ''/* -*- Mode:C++; c-file-style:"gnu"; indent-tabs-mode:nil; -*- */'',
     ''#ifndef {INCLUDE_GUARD}'',
     ''#define {INCLUDE_GUARD}'',
     '''',
     ''#include "ns3/{MODULE}.h"'',
     '''',
     ''namespace ns3 {{'',
     '''',
     ''/* ... */'',
     '''',
     ''}}'',
     '''',
     ''#endif /* {INCLUDE_GUARD} */'',
     '''']\<close>

definition EXAMPLES_CMAKELISTS_TEMPLATE :: string where
  \<open>EXAMPLES_CMAKELISTS_TEMPLATE = lines_text [
     ''build_lib_example('',
     ''    NAME {MODULE}-example'',
     ''    SOURCE_FILES {MODULE}-example.cc'',
     ''    LIBRARIES_TO_LINK ${{lib{MODULE}}}'',
     '')'',
     '''']\<close>

definition EXAMPLE_CC_TEMPLATE :: string where
  \<open>EXAMPLE_CC_TEMPLATE = lines_text [
     ''/* -*- Mode:C++; c-file-style:"gnu"; indent-tabs-mode:nil; -*- */'',
     '''',
     ''#include "ns3/core-module.h"'',
     ''#include "ns3/{MODULE}-helper.h"'',
     '''',
     ''using namespace ns3;'',
     '''',
     '''',
     ''int '',
     ''main (int argc, char *argv[])'',
     ''{{'',
     ''  bool verbose = true;'',
     '''',
     ''  CommandLine cmd (__FILE__);'',
     ''  cmd.AddValue ("verbose", "Tell application to log if true", verbose);'',
     '''',
     ''  cmd.Parse (argc,argv);'',
     '''',
     ''  /* ... */'',
     '''',
     ''  Simulator::Run ();'',
     ''  Simulator::Destroy ();'',
     ''  return 0;'',
     ''}}'',
     '''',
     '''']\<close>

definition TEST_CC_TEMPLATE :: string where
  \<open>TEST_CC_TEMPLATE = lines_text [
     ''/* -*- Mode:C++; c-file-style:"gnu"; indent-tabs-mode:nil; -*- */'',
     '''',
     ''// Include a header file from your module to test.'',
     ''#include "ns3/{MODULE}.h"'',
     '''',
     ''// An essential include is test.h'',
     ''#include "ns3/test.h"'',
     '''',
     ''// Do not put your test classes in namespace ns3.  You may find it useful'',
     ''// to use the using directive to access the ns3 namespace directly'',
     ''using namespace ns3;'',
     '''',
     ''// This is an example TestCase.'',
     ''class {CAPITALIZED}TestCase1 : public TestCase'',
     ''{{'',
     ''public:'',
     ''  {CAPITALIZED}TestCase1 ();'',
     ''  virtual ~{CAPITALIZED}TestCase1 ();'',
     '''',
     ''private:'',
     ''  virtual void DoRun (void);'',
     ''}};'',
     '''',
     ''// Add some help text to this case to describe what it is intended to test'',
     ''{CAPITALIZED}TestCase1::{CAPITALIZED}TestCase1 ()'',
     ''  : TestCase ("{CAPITALIZED} test case (does nothing)")'',
     ''{{'',
     ''}}'',
     '''',
     ''// This destructor does nothing but we include it as a reminder that'',
     ''// the test case should clean up after itself'',
     ''{CAPITALIZED}TestCase1::~{CAPITALIZED}TestCase1 ()'',
     ''{{'',
     ''}}'',
     '''',
     ''//'',
     ''// This method is the pure virtual method from class TestCase that every'',
     ''// TestCase must implement'',
     ''//'',
     ''void'',
     ''{CAPITALIZED}TestCase1::DoRun (void)'',
     ''{{'',
     ''  // A wide variety of test macros are available in src/core/test.h'',
     ''  NS_TEST_ASSERT_MSG_EQ (true, true, "true doesn't equal true for some reason");'',
     ''  // Use this one for floating point comparisons'',
     ''  NS_TEST_ASSERT_MSG_EQ_TOL (0.01, 0.01, 0.001, "Numbers are not equal within tolerance");'',
     ''}}'',
     '''',
     ''// The TestSuite class names the TestSuite, identifies what type of TestSuite,'',
     ''// and enables the TestCases to be run.  Typically, only the constructor for'',
     ''// this class must be defined'',
     ''//'',
     ''class {CAPITALIZED}TestSuite : public TestSuite'',
     ''{{'',
     ''public:'',
     ''  {CAPITALIZED}TestSuite ();'',
     ''}};'',
     '''',
     ''{CAPITALIZED}TestSuite::{CAPITALIZED}TestSuite ()'',
     ''  : TestSuite ("{MODULE}", UNIT)'',
     ''{{'',
     ''  // TestDuration for TestCase can be QUICK, EXTENSIVE or TAKES_FOREVER'',
     ''  AddTestCase (new {CAPITALIZED}TestCase1, TestCase::QUICK);'',
     ''}}'',
     '''',
     ''// Do not forget to allocate an instance of this TestSuite'',
     ''static {CAPITALIZED}TestSuite s{COMPOUND}TestSuite;'',
     '''']\<close>

definition DOC_RST_TEMPLATE :: string where
  \<open>DOC_RST_TEMPLATE = lines_text [
     ''Example Module Documentation'',
     ''----------------------------'',
     '''',
     ''.. include:: replace.txt'',
     ''.. highlight:: cpp'',
     '''',
     ''.. heading hierarchy:'',
     ''   ------------- Chapter'',
     ''   ************* Section (#.#)'',
     ''   ============= Subsection (#.#.#)'',
     ''   ############# Paragraph (no number)'',
     '''',
     ''This is a suggested outline for adding new module documentation to |ns3|.'',
     ''See ``src/click/doc/click.rst`` for an example.'',
     '''',
     ''The introductory paragraph is for describing what this code is trying to'',
     ''model.'',
     '''',
     ''For consistency (italicized formatting), please use |ns3| to refer to'',
     ''ns-3 in the documentation (and likewise, |ns2| for ns-2).  These macros'',
     ''are defined in the file ``replace.txt``.'',
     '''',
     ''Model Description'',
     ''*****************'',
     '''',
     ''The source code for the new module lives in the directory ``{MODULE_DIR}``.'',
     '''',
     ''Add here a basic description of what is being modeled.'',
     '''',
     ''Design'',
     ''======'',
     '''',
     ''Briefly describe the software design of the model and how it fits into '',
     ''the existing ns-3 architecture. '',
     '''',
     ''Scope and Limitations'',
     ''====================='',
     '''',
     ''What can the model do?  What can it not do?  Please use this section to'',
     ''describe the scope and limitations of the model.'',
     '''',
     ''References'',
     ''=========='',
     '''',
     ''Add academic citations here, such as if you published a paper on this'',
     ''model, or if readers should read a particular specification or other work.'',
     '''',
     ''Usage'',
     ''*****'',
     '''',
     ''This section is principally concerned with the usage of your model, using'',
     ''the public API.  Focus first on most common usage patterns, then go'',
     ''into more advanced topics.'',
     '''',
     ''Building New Module'',
     ''==================='',
     '''',
     ''Include this subsection only if there are special build instructions or'',
     ''platform limitations.'',
     '''',
     ''Helpers'',
     ''======='',
     '''',
     ''What helper API will users typically use?  Describe it here.'',
     '''',
     ''Attributes'',
     ''=========='',
     '''',
     ''What classes hold attributes, and what are the key ones worth mentioning?'',
     '''',
     ''Output'',
     ''======'',
     '''',
     ''What kind of data does the model generate?  What are the key trace'',
     ''sources?   What kind of logging output can be enabled?'',
     '''',
     ''Advanced Usage'',
     ''=============='',
     '''',
     ''Go into further details (such as using the API outside of the helpers)'',
     ''in additional sections, as needed.'',
     '''',
     ''Examples'',
     ''========'',
     '''',
     ''What examples using this new code are available?  Describe them here.'',
     '''',
     ''Troubleshooting'',
     ''==============='',
     '''',
     ''Add any tips for avoiding pitfalls, etc.'',
     '''',
     ''Validation'',
     ''**********'',
     '''',
     ''Describe how the model has been tested/validated.  What tests run in the'',
     ''test suite?  How much API and code is covered by the tests?  Again, '',
     ''references to outside published work may help here.'']\<close>

section \<open>Templates that can be filled in\<close>

text \<open>A template whose braces match is filled in without an exception as soon as all its fields are given.\<close>

lemma py_format_total:
  "format_fields s = Some ns \<Longrightarrow> set ns \<subseteq> fst ` set kwargs \<Longrightarrow> \<exists>r. py_format kwargs s = Inr r"
proof (induction kwargs s arbitrary: ns rule: py_format.induct)
  case (2 kwargs c s)
  let ?name = "takeWhile (\<lambda>x. x \<noteq> CHR ''}'') s" and ?rest = "dropWhile (\<lambda>x. x \<noteq> CHR ''}'') s"
  show ?case
  proof (cases "c = CHR ''{'' \<and> take 1 s \<noteq> ''{''")
    case True
    then obtain ms where ms: "?rest \<noteq> []" "format_fields (drop 1 ?rest) = Some ms" "ns = ?name # ms"
      using 2(5) by (auto simp: format_fields.simps Let_def split: if_splits)
    then obtain v where v: "map_of kwargs ?name = Some v" using 2(6) by (auto dest: weak_map_of_SomeI)
    obtain r where "py_format kwargs (drop 1 ?rest) = Inr r"
      using 2(2) [OF _ _ refl refl ms(1) v ms(2)] True ms(3) 2(6) by auto
    then show ?thesis using True ms v by (simp add: py_format.simps Let_def)
  next
    case False
    then show ?thesis using 2 by (fastforce simp: py_format.simps(2) [of kwargs c s] format_fields.simps(2) [of c s] split: if_splits)
  qed
qed (simp add: py_format.simps)

definition fills :: "string list \<Rightarrow> string \<Rightarrow> bool" where
  "fills keys t = (case format_fields t of None \<Rightarrow> False | Some ns \<Rightarrow> list_all (\<lambda>n. n \<in> set keys) ns)"

lemma fills_format: "fills (map fst kwargs) t \<Longrightarrow> \<exists>r. py_format kwargs t = Inr r"
  by (auto simp: fills_def list_all_iff split: option.splits intro: py_format_total)

text \<open>No field spans two lines, so a template can be read line by line.\<close>

lemma format_fields_append:
  "format_fields a = Some xs \<Longrightarrow> format_fields (a @ b) = map_option (\<lambda>ys. xs @ ys) (format_fields b)"
proof (induction a arbitrary: xs rule: format_fields.induct)
  case 1
  then show ?case by (simp add: format_fields.simps option.map_ident)
next
  case (2 c s)
  let ?P = "\<lambda>x. x \<noteq> CHR ''}''"
  show ?case
  proof (cases "c = CHR ''{'' \<and> take 1 s \<noteq> ''{''")
    case True
    then obtain ms where ms: "dropWhile ?P s \<noteq> []" "format_fields (drop 1 (dropWhile ?P s)) = Some ms"
      "xs = takeWhile ?P s # ms"
      using 2(5) by (auto simp: format_fields.simps Let_def split: if_splits)
    then have s: "s \<noteq> []" "takeWhile ?P (s @ b) = takeWhile ?P s" "dropWhile ?P (s @ b) = dropWhile ?P s @ b"
      by (auto simp: dropWhile_eq_Nil_conv)
    have "format_fields (drop 1 (dropWhile ?P s) @ b) = map_option (\<lambda>ys. ms @ ys) (format_fields b)"
      using 2(2) [OF _ _ refl refl ms(1,2)] True by simp
    moreover have "Suc 0 - length s = 0" "Suc 0 - length (dropWhile ?P s) = 0"
      using s(1) ms(1) by (simp_all add: Suc_le_eq del: dropWhile_eq_Nil_conv)
    ultimately have "format_fields (c # s @ b) = map_option (\<lambda>ns. takeWhile ?P s # ns) (map_option (\<lambda>ys. ms @ ys) (format_fields b))"
      using True s ms(1) unfolding format_fields.simps(2) [of c "s @ b"] Let_def by auto
    then show ?thesis by (simp add: ms(3) option.map_comp o_def)
  next
    case False
    then show ?thesis
      using 2 by (cases s) (auto simp: format_fields.simps(2) [of c] split: if_splits)
  qed
qed

lemma fills_lines: "list_all (fills keys) ls \<Longrightarrow> fills keys (lines_text ls)"
proof (induction ls)
  case (Cons l ls)
  then obtain ns ms where "format_fields l = Some ns" "format_fields (lines_text ls) = Some ms"
    "list_all (\<lambda>n. n \<in> set keys) ns" "list_all (\<lambda>n. n \<in> set keys) ms"
    by (auto simp: fills_def split: option.splits)
  moreover have "format_fields (newline @ t) = format_fields t" for t
    by (simp add: newline_def format_fields.simps(2))
  ultimately show ?case
    by (simp add: fills_def lines_text_def format_fields_append)
qed (simp add: fills_def lines_text_def format_fields.simps)

lemma CMAKELISTS_fills: "fills [''MODULE''] CMAKELISTS_TEMPLATE"
  unfolding CMAKELISTS_TEMPLATE_def by (rule fills_lines) code_simp

lemma MODEL_CC_fills: "fills [''MODULE''] MODEL_CC_TEMPLATE"
  unfolding MODEL_CC_TEMPLATE_def by (rule fills_lines) code_simp

lemma MODEL_H_fills: "fills [''MODULE'', ''INCLUDE_GUARD''] MODEL_H_TEMPLATE"
  unfolding MODEL_H_TEMPLATE_def by (rule fills_lines) code_simp

lemma HELPER_CC_fills: "fills [''MODULE''] HELPER_CC_TEMPLATE"
  unfolding HELPER_CC_TEMPLATE_def by (rule fills_lines) code_simp

lemma HELPER_H_fills: "fills [''MODULE'', ''INCLUDE_GUARD''] HELPER_H_TEMPLATE"
  unfolding HELPER_H_TEMPLATE_def by (rule fills_lines) code_simp

lemma EXAMPLES_CMAKELISTS_fills: "fills [''MODULE''] EXAMPLES_CMAKELISTS_TEMPLATE"
  unfolding EXAMPLES_CMAKELISTS_TEMPLATE_def by (rule fills_lines) code_simp

lemma EXAMPLE_CC_fills: "fills [''MODULE''] EXAMPLE_CC_TEMPLATE"
  unfolding EXAMPLE_CC_TEMPLATE_def by (rule fills_lines) code_simp

lemma TEST_CC_fills: "fills [''MODULE'', ''CAPITALIZED'', ''COMPOUND''] TEST_CC_TEMPLATE"
  unfolding TEST_CC_TEMPLATE_def by (rule fills_lines) code_simp

lemma DOC_RST_fills: "fills [''MODULE'', ''MODULE_DIR''] DOC_RST_TEMPLATE"
  unfolding DOC_RST_TEMPLATE_def by (rule fills_lines) code_simp

lemmas template_fills =
  CMAKELISTS_fills MODEL_CC_fills MODEL_H_fills HELPER_CC_fills HELPER_H_fills
  EXAMPLES_CMAKELISTS_fills EXAMPLE_CC_fills TEST_CC_fills DOC_RST_fills

end
