(* ===== verification/Create_Module.thy ===== *)
theory Create_Module
  imports Module_Templates
begin

text \<open>
  \<^verbatim>\<open>utils/create-module.py\<close>: the skeleton of a new ns-3 module. The file system is a partial map from paths (lists
  of components below the root) to nodes. \<open>denied p\<close> says that the system refuses to create \<open>p\<close> (permissions, a full
  disk); \<^verbatim>\<open>shutil.rmtree\<close>, which is only called on a directory that the script has just created, removes it with all
  that is below it: that the system refuses the removal, so that \<^verbatim>\<open>make_module\<close> raises instead of returning, is left out. An operation returns its result or its
  exception together with the file system it leaves behind. Names are ASCII.
\<close>

section \<open>The file system\<close>

datatype fs_node = DirNode | FileNode string

type_synonym fs = "string list \<Rightarrow> fs_node option"
type_synonym 'a fs_op = "fs \<Rightarrow> 'a res \<times> fs"

definition fs_bind :: "'a fs_op \<Rightarrow> ('a \<Rightarrow> 'b fs_op) \<Rightarrow> 'b fs_op" where
  "fs_bind m f fs = (case m fs of (Inl e, fs') \<Rightarrow> (Inl e, fs') | (Inr x, fs') \<Rightarrow> f x fs')"

definition not_found :: py_error where
  "not_found = PyException ''FileNotFoundError''"

text \<open>\<^verbatim>\<open>os.mkdir\<close> and \<^verbatim>\<open>Path.mkdir\<close>.\<close>

definition os_mkdir :: "(string list \<Rightarrow> bool) \<Rightarrow> string list \<Rightarrow> unit fs_op" where
  "os_mkdir denied p fs =
     (if fs p \<noteq> None then (Inl OSError, fs)
      else (case fs (butlast p) of
              None \<Rightarrow> (Inl not_found, fs)
            | Some (FileNode t) \<Rightarrow> (Inl OSError, fs)
            | Some DirNode \<Rightarrow> if denied p then (Inl OSError, fs) else (Inr (), fs(p \<mapsto> DirNode))))"

definition mkdir_single :: "(string list \<Rightarrow> bool) \<Rightarrow> bool \<Rightarrow> string list \<Rightarrow> unit fs_op" where
  "mkdir_single denied exist_ok p fs =
     (case os_mkdir denied p fs of
        (Inr u, fs') \<Rightarrow> (Inr u, fs')
      | (Inl e, fs') \<Rightarrow> if e \<noteq> not_found \<and> exist_ok \<and> fs' p = Some DirNode then (Inr (), fs') else (Inl e, fs'))"

function mkdir_parents :: "(string list \<Rightarrow> bool) \<Rightarrow> bool \<Rightarrow> string list \<Rightarrow> unit fs_op" where
  "mkdir_parents denied exist_ok p fs =
     (case mkdir_single denied exist_ok p fs of
        (Inr u, fs') \<Rightarrow> (Inr u, fs')
      | (Inl e, fs') \<Rightarrow>
          if e = not_found \<and> p \<noteq> []
          then fs_bind (mkdir_parents denied True (butlast p)) (\<lambda>u. mkdir_single denied exist_ok p) fs'
          else (Inl e, fs'))"
  by pat_completeness auto
termination
  by (relation "measure (\<lambda>(denied, exist_ok, p, fs). length p)") auto

declare mkdir_parents.simps [simp del]

definition path_mkdir :: "(string list \<Rightarrow> bool) \<Rightarrow> string list \<Rightarrow> unit fs_op" where
  "path_mkdir denied p = mkdir_parents denied False p"

definition rmtree :: "string list \<Rightarrow> fs \<Rightarrow> fs" where
  "rmtree d fs = (\<lambda>p. if prefix d p then None else fs p)"

text \<open>\<^verbatim>\<open>Path.with_suffix\<close>: a suffix starts at the last dot, unless that is the first or the last character.\<close>

definition with_suffix :: "string \<Rightarrow> string \<Rightarrow> string" where
  "with_suffix name suf =
     (let last_part = takeWhile (\<lambda>c. c \<noteq> CHR ''.'') (rev name);
          i = length name - length last_part - 1
      in if CHR ''.'' \<in> set name \<and> 0 < i \<and> i < length name - 1 then take i name @ suf else name @ suf)"

text \<open>\<^verbatim>\<open>os.path.relpath\<close> for a path and the working directory, both absolute.\<close>

definition relpath :: "string list \<Rightarrow> string list \<Rightarrow> string" where
  "relpath cwd p =
     (let k = length (longest_common_prefix cwd p);
          parts = replicate (length cwd - k) ''..'' @ drop k p
      in if parts = [] then ''.'' else str_join ''/'' parts)"

section \<open>Generating the files\<close>

text \<open>The file is opened, and so truncated, before the template is filled in.\<close>

definition create_file :: "(string list \<Rightarrow> bool) \<Rightarrow> string list \<Rightarrow> string \<Rightarrow> (string \<times> string) list \<Rightarrow> unit fs_op" where
  "create_file denied p template kwargs fs =
     (if fs (butlast p) \<noteq> Some DirNode \<or> fs p = Some DirNode \<or> denied p then (Inl OSError, fs)
      else let fs = fs(p \<mapsto> FileNode '''')
           in (case py_format kwargs template of
                 Inl e \<Rightarrow> (Inl e, fs)
               | Inr text \<Rightarrow> (Inr (), fs(p \<mapsto> FileNode text))))"

definition make_cmakelists :: "(string list \<Rightarrow> bool) \<Rightarrow> string list \<Rightarrow> string \<Rightarrow> bool fs_op" where
  "make_cmakelists denied moduledir modname =
     fs_bind (create_file denied (moduledir @ [''CMakeLists.txt'']) CMAKELISTS_TEMPLATE [(''MODULE'', modname)]) (\<lambda>_.
       Pair (Inr True))"

definition guard_name :: "string \<Rightarrow> string" where
  "guard_name modname = str_upper (map (\<lambda>c. if c = CHR ''-'' then CHR ''_'' else c) modname)"

definition make_model :: "(string list \<Rightarrow> bool) \<Rightarrow> string list \<Rightarrow> string \<Rightarrow> bool fs_op" where
  "make_model denied moduledir modname =
     (let modelpath = moduledir @ [''model'']; guard = guard_name modname @ ''_H''
      in fs_bind (path_mkdir denied modelpath) (\<lambda>_.
         fs_bind (create_file denied (modelpath @ [with_suffix modname ''.cc'']) MODEL_CC_TEMPLATE [(''MODULE'', modname)]) (\<lambda>_.
         fs_bind (create_file denied (modelpath @ [with_suffix modname ''.h'']) MODEL_H_TEMPLATE
                    [(''MODULE'', modname), (''INCLUDE_GUARD'', guard)]) (\<lambda>_.
         Pair (Inr True)))))"

definition compound_name :: "string list \<Rightarrow> string" where
  "compound_name parts = (case parts of [] \<Rightarrow> [] | w # ws \<Rightarrow> w @ concat (map str_capitalize ws))"

definition make_test :: "(string list \<Rightarrow> bool) \<Rightarrow> string list \<Rightarrow> string \<Rightarrow> bool fs_op" where
  "make_test denied moduledir modname =
     (let testpath = moduledir @ [''test'']; name_parts = str_split CHR ''-'' modname
      in fs_bind (path_mkdir denied testpath) (\<lambda>_.
         fs_bind (create_file denied (testpath @ [with_suffix (modname @ ''-test-suite'') ''.cc'']) TEST_CC_TEMPLATE
                    [(''MODULE'', modname), (''CAPITALIZED'', concat (map str_capitalize name_parts)),
                     (''COMPOUND'', compound_name name_parts)]) (\<lambda>_.
         Pair (Inr True))))"

definition make_helper :: "(string list \<Rightarrow> bool) \<Rightarrow> string list \<Rightarrow> string \<Rightarrow> bool fs_op" where
  "make_helper denied moduledir modname =
     (let helperpath = moduledir @ [''helper'']; guard = guard_name modname @ ''_HELPER_H''
      in fs_bind (path_mkdir denied helperpath) (\<lambda>_.
         fs_bind (create_file denied (helperpath @ [with_suffix (modname @ ''-helper'') ''.cc'']) HELPER_CC_TEMPLATE
                    [(''MODULE'', modname)]) (\<lambda>_.
         fs_bind (create_file denied (helperpath @ [with_suffix (modname @ ''-helper'') ''.h'']) HELPER_H_TEMPLATE
                    [(''MODULE'', modname), (''INCLUDE_GUARD'', guard)]) (\<lambda>_.
         Pair (Inr True)))))"

definition make_examples :: "(string list \<Rightarrow> bool) \<Rightarrow> string list \<Rightarrow> string \<Rightarrow> bool fs_op" where
  "make_examples denied moduledir modname =
     (let examplespath = moduledir @ [''examples'']
      in fs_bind (path_mkdir denied examplespath) (\<lambda>_.
         fs_bind (create_file denied (examplespath @ [''CMakeLists.txt'']) EXAMPLES_CMAKELISTS_TEMPLATE [(''MODULE'', modname)]) (\<lambda>_.
         fs_bind (create_file denied (examplespath @ [with_suffix (modname @ ''-example'') ''.cc'']) EXAMPLE_CC_TEMPLATE
                    [(''MODULE'', modname)]) (\<lambda>_.
         Pair (Inr True)))))"

definition make_doc :: "(string list \<Rightarrow> bool) \<Rightarrow> string list \<Rightarrow> string list \<Rightarrow> string \<Rightarrow> bool fs_op" where
  "make_doc denied cwd moduledir modname =
     (let docpath = moduledir @ [''doc'']; mod_relpath = relpath cwd moduledir
      in fs_bind (path_mkdir denied docpath) (\<lambda>_.
         fs_bind (create_file denied (docpath @ [modname @ ''.rst'']) DOC_RST_TEMPLATE
                    [(''MODULE'', modname), (''MODULE_DIR'', mod_relpath)]) (\<lambda>_.
         Pair (Inr True))))"

section \<open>One module\<close>

datatype cm_message =
    AlreadyExists string | Creating "string list" | CreatingFailed string py_error
  | SkipPath string | SkipName string | CreatedAll

text \<open>\<^verbatim>\<open>all(func(modulepath, modname) for func in functions)\<close>.\<close>

fun all_ops :: "bool fs_op list \<Rightarrow> bool fs_op" where
  "all_ops [] = Pair (Inr True)"
| "all_ops (f # fs) = fs_bind f (\<lambda>ok. if ok then all_ops fs else Pair (Inr False))"

definition make_artifacts :: "(string list \<Rightarrow> bool) \<Rightarrow> string list \<Rightarrow> string list \<Rightarrow> string \<Rightarrow> unit fs_op" where
  "make_artifacts denied cwd modulepath modname =
     fs_bind (path_mkdir denied modulepath) (\<lambda>_.
       fs_bind (all_ops [make_cmakelists denied modulepath modname, make_model denied modulepath modname,
                  make_test denied modulepath modname, make_helper denied modulepath modname,
                  make_examples denied modulepath modname, make_doc denied cwd modulepath modname]) (\<lambda>success.
         Pair (if success then Inr () else Inl ValueError)))"

definition make_module ::
    "(string list \<Rightarrow> bool) \<Rightarrow> string list \<Rightarrow> string list \<times> string \<Rightarrow> fs \<Rightarrow> bool \<times> fs \<times> cm_message list" where
  "make_module denied cwd module fs =
     (case module of (modpath, modname) \<Rightarrow>
        let modulepath = modpath @ [modname]
        in if fs modulepath \<noteq> None then (False, fs, [AlreadyExists modname])
           else (case make_artifacts denied cwd modulepath modname fs of
                   (Inr u, fs') \<Rightarrow> (True, fs', [Creating modulepath])
                 | (Inl e, fs') \<Rightarrow>
                     (False, if fs' modulepath \<noteq> None then rmtree modulepath fs' else fs',
                      [Creating modulepath, CreatingFailed modname e])))"

section \<open>The command line\<close>

text \<open>The regular expression \<^verbatim>\<open>^(\w|-)+$\<close>: its \<^verbatim>\<open>$\<close> also matches before a newline at the end.\<close>

definition name_char :: "char \<Rightarrow> bool" where
  "name_char c = (let k = (of_char c :: nat) in 48 \<le> k \<and> k \<le> 57 \<or> 65 \<le> k \<and> k \<le> 90 \<or> 97 \<le> k \<and> k \<le> 122
     \<or> c = CHR ''_'' \<or> c = CHR ''-'')"

definition allowed_name :: "string \<Rightarrow> bool" where
  "allowed_name s =
     (let t = (if s \<noteq> [] \<and> last s = CHR 0x0A then butlast s else s) in t \<noteq> [] \<and> list_all name_char t)"

text \<open>The parts of a relative \<^verbatim>\<open>Path\<close>; empty parts and single dots are dropped.\<close>

definition path_parts :: "string \<Rightarrow> string list" where
  "path_parts s = filter (\<lambda>c. c \<noteq> '''' \<and> c \<noteq> ''.'') (str_split CHR ''/'' s)"

text \<open>\<^verbatim>\<open>parser.error\<close> ends the process with status 2. Exactly two leading slashes are a root of their own, of which
  \<^verbatim>\<open>relative_to('/')\<close> makes a \<^verbatim>\<open>ValueError\<close>.\<close>

definition parse_project :: "string \<Rightarrow> string list option res" where
  "parse_project project =
     (if project = '''' then Inr None
      else if starts_with project ''//'' \<and> \<not> starts_with project ''///'' then Inl ValueError
      else let parts = path_parts project
           in if list_all allowed_name parts then Inr (Some parts) else Inl (SystemExit 2))"

datatype name_result = SkipEmpty | SkipWith cm_message | Generate "string list" string

definition parse_name :: "string list \<Rightarrow> string \<Rightarrow> string list option \<Rightarrow> string \<Rightarrow> name_result res" where
  "parse_name base_path project project_path name0 =
     (let name = str_strip_chars ''/'' name0; parts = path_parts name; contrib_path = base_path @ [''contrib'']
      in if name = '''' then Inr SkipEmpty
         else if 2 < length parts then Inr (SkipWith (SkipPath name))
         else res_bind (py_index parts 0) (\<lambda>first.
           if first = ''src'' \<and> project \<noteq> '''' then Inl (SystemExit 2)
           else let modpath = (if first = ''src'' then base_path @ [''src''] else contrib_path);
                    parts = (if first = ''src'' \<or> first = ''contrib'' then drop 1 parts else parts);
                    modpath = (case project_path of None \<Rightarrow> modpath | Some pp \<Rightarrow> contrib_path @ pp)
                in res_bind (py_index parts 0) (\<lambda>modname.
                     if allowed_name modname then Inr (Generate modpath modname) else Inr (SkipWith (SkipName modname)))))"

fun parse_names ::
    "string list \<Rightarrow> string \<Rightarrow> string list option \<Rightarrow> string list \<Rightarrow> ((string list \<times> string) list \<times> cm_message list) res" where
  "parse_names base_path project project_path [] = Inr ([], [])"
| "parse_names base_path project project_path (name # names) =
     res_bind (parse_name base_path project project_path name) (\<lambda>r.
       res_bind (parse_names base_path project project_path names) (\<lambda>(modules, msgs).
         Inr (case r of
                SkipEmpty \<Rightarrow> (modules, msgs)
              | SkipWith m \<Rightarrow> (modules, m # msgs)
              | Generate modpath modname \<Rightarrow> ((modpath, modname) # modules, msgs))))"

fun make_all ::
    "(string list \<Rightarrow> bool) \<Rightarrow> string list \<Rightarrow> (string list \<times> string) list \<Rightarrow> fs \<Rightarrow> bool \<times> fs \<times> cm_message list" where
  "make_all denied cwd [] fs = (True, fs, [])"
| "make_all denied cwd (module # modules) fs =
     (case make_module denied cwd module fs of
        (ok, fs', msgs) \<Rightarrow>
          if ok then (case make_all denied cwd modules fs' of (ok', fs'', msgs') \<Rightarrow> (ok', fs'', msgs @ msgs'))
          else (False, fs', msgs))"

text \<open>\<^verbatim>\<open>main\<close> after \<^verbatim>\<open>parse_args\<close>, and the \<^verbatim>\<open>__main__\<close> part: the exit status.\<close>

definition main_create ::
    "(string list \<Rightarrow> bool) \<Rightarrow> string list \<Rightarrow> string \<Rightarrow> string list \<Rightarrow> fs \<Rightarrow> (int \<times> fs \<times> cm_message list) res" where
  "main_create denied cwd project modnames fs =
     (if fs (cwd @ [''src'']) \<noteq> Some DirNode \<or> fs (cwd @ [''contrib'']) \<noteq> Some DirNode then Inl (SystemExit 2)
      else res_bind (parse_project project) (\<lambda>project_path.
        res_bind (parse_names cwd project project_path modnames) (\<lambda>(modules, skipped).
          case make_all denied cwd modules fs of
            (ok, fs', msgs) \<Rightarrow> Inr (0, fs', skipped @ msgs @ (if ok then [CreatedAll] else [])))))"

definition create_module_status ::
    "(string list \<Rightarrow> bool) \<Rightarrow> string list \<Rightarrow> string \<Rightarrow> string list \<Rightarrow> fs \<Rightarrow> int \<times> fs" where
  "create_module_status denied cwd project modnames fs =
     (case main_create denied cwd project modnames fs of
        Inr (status, fs', msgs) \<Rightarrow> (status, fs')
      | Inl (SystemExit n) \<Rightarrow> (n, fs)
      | Inl e \<Rightarrow> (1, fs))"


section \<open>Every entry lies in a directory\<close>

definition wf_fs :: "fs \<Rightarrow> bool" where
  "wf_fs fs \<longleftrightarrow> (\<forall>p. fs p \<noteq> None \<and> p \<noteq> [] \<longrightarrow> fs (butlast p) = Some DirNode)"

text \<open>What an operation does, given that the paths in \<open>D\<close> are directories: it keeps the invariant and all
  directories, and changes nothing but the paths in \<open>A\<close>.\<close>

definition changes_only :: "string list set \<Rightarrow> fs \<Rightarrow> fs \<Rightarrow> bool" where
  "changes_only A fs fs' \<longleftrightarrow> (\<forall>p. p \<notin> A \<longrightarrow> fs' p = fs p)
     \<and> (\<forall>p. fs p = Some DirNode \<longrightarrow> fs' p = Some DirNode) \<and> (wf_fs fs \<longrightarrow> wf_fs fs')"

definition confined :: "string list set \<Rightarrow> string list set \<Rightarrow> 'a fs_op \<Rightarrow> bool" where
  "confined D A m \<longleftrightarrow>
     (\<forall>fs r fs'. m fs = (r, fs') \<and> (\<forall>p \<in> D. fs p = Some DirNode) \<longrightarrow> changes_only A fs fs')"

lemma changes_only_refl [simp]: "changes_only A fs fs"
  by (simp add: changes_only_def)

lemma changes_only_trans: "changes_only A fs fs1 \<Longrightarrow> changes_only A fs1 fs2 \<Longrightarrow> changes_only A fs fs2"
  by (simp add: changes_only_def)

lemma changes_only_mono: "changes_only A fs fs' \<Longrightarrow> A \<subseteq> B \<Longrightarrow> changes_only B fs fs'"
  by (auto simp: changes_only_def)

lemma wf_fs_upd:
  assumes "wf_fs fs" "fs (butlast p) = Some DirNode" "p \<noteq> []" "node = DirNode \<or> fs p \<noteq> Some DirNode"
  shows "wf_fs (fs(p \<mapsto> node))"
proof -
  have "butlast p \<noteq> p" using assms(3) by (metis append_butlast_last_id append_self_conv list.distinct(1))
  moreover have "butlast q \<noteq> p \<or> node = DirNode" if "fs q \<noteq> None" "q \<noteq> []" for q
    using assms(1,4) that by (auto simp: wf_fs_def)
  ultimately show ?thesis using assms by (auto simp: wf_fs_def)
qed

lemma changes_only_upd:
  assumes "fs (butlast p) = Some DirNode" "p \<noteq> []" "fs p \<noteq> Some DirNode" "p \<in> A"
  shows "changes_only A fs (fs(p \<mapsto> node))"
  using assms wf_fs_upd [of fs p node] by (auto simp: changes_only_def)

lemma confined_Pair [simp]: "confined D A (Pair r)"
  by (simp add: confined_def)

lemma confined_bind:
  assumes m: "confined D A m" and f: "\<And>x. confined D A (f x)"
  shows "confined D A (fs_bind m f)"
  unfolding confined_def
proof (intro allI impI, elim conjE)
  fix fs r fs'
  assume run: "fs_bind m f fs = (r, fs')" and dirs: "\<forall>p \<in> D. fs p = Some DirNode"
  obtain r1 fs1 where m1: "m fs = (r1, fs1)" by fastforce
  then have c1: "changes_only A fs fs1" using m dirs by (simp add: confined_def)
  then have dirs1: "\<forall>p \<in> D. fs1 p = Some DirNode" using dirs by (simp add: changes_only_def)
  show "changes_only A fs fs'"
  proof (cases r1)
    case (Inl e)
    then show ?thesis using run m1 c1 by (simp add: fs_bind_def)
  next
    case (Inr x)
    then have "f x fs1 = (r, fs')" using run m1 by (simp add: fs_bind_def)
    then have "changes_only A fs1 fs'" using f [of x] dirs1 by (simp add: confined_def)
    then show ?thesis using c1 changes_only_trans by blast
  qed
qed

lemma os_mkdir_changes: "os_mkdir denied p fs = (r, fs') \<Longrightarrow> changes_only {p} fs fs'"
  by (cases "p = []") (auto simp: os_mkdir_def intro!: changes_only_upd split: if_splits option.splits fs_node.splits)

lemma mkdir_single_changes: "mkdir_single denied exist_ok p fs = (r, fs') \<Longrightarrow> changes_only {p} fs fs'"
  using os_mkdir_changes [of denied p fs] by (auto simp: mkdir_single_def split: prod.splits sum.splits if_splits)

lemma mkdir_parents_changes:
  "mkdir_parents denied exist_ok p fs = (r, fs') \<Longrightarrow> changes_only {q. prefix q p} fs fs'"
proof (induction denied exist_ok p fs arbitrary: r fs' rule: mkdir_parents.induct)
  case (1 denied exist_ok p fs)
  obtain r1 fs1 where s1: "mkdir_single denied exist_ok p fs = (r1, fs1)" by fastforce
  then have c1: "changes_only {q. prefix q p} fs fs1"
    using mkdir_single_changes changes_only_mono by (metis (no_types, lifting) empty_subsetI insert_subset mem_Collect_eq prefix_order.refl)
  show ?case
  proof (cases "r1 = Inl not_found \<and> p \<noteq> []")
    case False
    then show ?thesis using 1(2) s1 c1 by (auto simp: mkdir_parents.simps [of _ _ p] split: sum.splits)
  next
    case True
    obtain r2 fs2 where s2: "mkdir_parents denied True (butlast p) fs1 = (r2, fs2)" by fastforce
    have "changes_only {q. prefix q (butlast p)} fs1 fs2" using 1(1) [OF s1 [symmetric] _ _ s2] True by blast
    moreover have "{q. prefix q (butlast p)} \<subseteq> {q. prefix q p}"
      using prefix_order.trans prefixeq_butlast by blast
    ultimately have c2: "changes_only {q. prefix q p} fs fs2"
      using c1 changes_only_mono changes_only_trans by blast
    show ?thesis
    proof (cases r2)
      case (Inl e)
      then show ?thesis using 1(2) s1 s2 True c2 by (simp add: mkdir_parents.simps [of _ _ p] fs_bind_def)
    next
      case (Inr u)
      then have "mkdir_single denied exist_ok p fs2 = (r, fs')"
        using 1(2) s1 s2 True by (simp add: mkdir_parents.simps [of _ _ p] fs_bind_def)
      then have "changes_only {q. prefix q p} fs2 fs'"
        using mkdir_single_changes changes_only_mono by (metis (no_types, lifting) empty_subsetI insert_subset mem_Collect_eq prefix_order.refl)
      then show ?thesis using c2 changes_only_trans by blast
    qed
  qed
qed

text \<open>Below a directory that exists, \<^verbatim>\<open>mkdir\<close> creates only the directory itself.\<close>

lemma mkdir_in_dir:
  assumes "fs d = Some DirNode"
  shows "path_mkdir denied (d @ [x]) fs = mkdir_single denied False (d @ [x]) fs"
proof -
  have "fst (mkdir_single denied False (d @ [x]) fs) \<noteq> Inl not_found"
    using assms by (auto simp: mkdir_single_def os_mkdir_def not_found_def split: option.splits fs_node.splits)
  then show ?thesis
    by (auto simp: path_mkdir_def mkdir_parents.simps [of denied False "d @ [x]"] split: prod.splits sum.splits)
qed

lemma confined_path_mkdir: "confined {d} {p. prefix d p} (path_mkdir denied (d @ [x]))"
  unfolding confined_def by (auto simp: mkdir_in_dir elim!: changes_only_mono [OF mkdir_single_changes])

lemma confined_create_file: "confined {d} {p. prefix d p} (create_file denied (d @ x # xs) template kwargs)"
proof -
  have "changes_only {p. prefix d p} fs fs'" if "create_file denied (d @ x # xs) template kwargs fs = (r, fs')" for fs r fs'
    using that changes_only_upd [of fs "d @ x # xs" "{p. prefix d p}"]
    by (auto simp: create_file_def Let_def split: if_splits sum.splits)
  then show ?thesis by (simp add: confined_def)
qed

lemmas confined_rules = confined_bind confined_path_mkdir confined_create_file confined_Pair

lemma confined_files:
  "confined {d} {p. prefix d p} (make_cmakelists denied d modname)"
  "confined {d} {p. prefix d p} (make_model denied d modname)"
  "confined {d} {p. prefix d p} (make_test denied d modname)"
  "confined {d} {p. prefix d p} (make_helper denied d modname)"
  "confined {d} {p. prefix d p} (make_examples denied d modname)"
  "confined {d} {p. prefix d p} (make_doc denied cwd d modname)"
  unfolding make_cmakelists_def make_model_def make_test_def make_helper_def make_examples_def make_doc_def Let_def
    append_assoc append_Cons append_Nil
  by (intro confined_rules)+

lemma confined_all_ops: "list_all (confined D A) ops \<Longrightarrow> confined D A (all_ops ops)"
  by (induction ops) (auto intro: confined_bind)

section \<open>All or nothing\<close>

lemma wf_below_none:
  assumes "wf_fs fs" "fs d = None"
  shows "fs (d @ q) = None"
proof (induction q rule: rev_induct)
  case (snoc x q)
  show ?case
  proof (rule ccontr)
    assume "fs (d @ q @ [x]) \<noteq> None"
    then have "fs (butlast (d @ q @ [x])) = Some DirNode" using assms(1) by (auto simp: wf_fs_def)
    then show False using snoc by (simp add: butlast_append)
  qed
qed (simp add: assms)

text \<open>A \<^verbatim>\<open>mkdir\<close> that succeeds has made the directory; one that fails has not, if it was not there before.\<close>

lemma mkdir_single_made:
  "mkdir_single denied False p fs = (r, fs') \<Longrightarrow>
    (r = Inr () \<longrightarrow> fs' p = Some DirNode \<and> fs' = fs(p \<mapsto> DirNode)) \<and> (r \<noteq> Inr () \<longrightarrow> fs' = fs)"
  by (auto simp: mkdir_single_def os_mkdir_def split: prod.splits sum.splits if_splits option.splits fs_node.splits)

lemma changes_only_dirs:
  "changes_only A fs fs' \<Longrightarrow> fs p \<noteq> None \<Longrightarrow> p \<notin> A \<Longrightarrow> fs' p = fs p"
  by (simp add: changes_only_def)

lemma mkdir_new:
  "mkdir_single denied exist_ok p fs = (r, fs') \<Longrightarrow> \<forall>q. fs' q = fs q \<or> q = p \<and> fs q = None \<and> fs' q = Some DirNode"
  by (auto simp: mkdir_single_def os_mkdir_def split: prod.splits sum.splits if_splits option.splits fs_node.splits)

lemma mkdir_parents_new:
  "mkdir_parents denied exist_ok p fs = (r, fs') \<Longrightarrow>
    \<forall>q. fs' q = fs q \<or> prefix q p \<and> fs q = None \<and> fs' q = Some DirNode"
proof (induction denied exist_ok p fs arbitrary: r fs' rule: mkdir_parents.induct)
  case (1 denied exist_ok p fs)
  obtain r1 fs1 where s1: "mkdir_single denied exist_ok p fs = (r1, fs1)" by fastforce
  note n1 = mkdir_new [OF s1]
  show ?case
  proof (cases "r1 = Inl not_found \<and> p \<noteq> []")
    case False
    then show ?thesis using 1(2) s1 n1 by (auto simp: mkdir_parents.simps [of _ _ p] split: sum.splits)
  next
    case True
    obtain r2 fs2 where s2: "mkdir_parents denied True (butlast p) fs1 = (r2, fs2)" by fastforce
    have "\<forall>q. fs2 q = fs1 q \<or> prefix q (butlast p) \<and> fs1 q = None \<and> fs2 q = Some DirNode"
      using 1(1) [OF s1 [symmetric] _ _ s2] True by blast
    then have n2: "\<forall>q. fs2 q = fs q \<or> prefix q p \<and> fs q = None \<and> fs2 q = Some DirNode"
      using n1 by (metis prefix_order.refl prefix_order.trans prefixeq_butlast)
    show ?thesis
    proof (cases r2)
      case (Inl e)
      then show ?thesis using 1(2) s1 s2 True n2 by (simp add: mkdir_parents.simps [of _ _ p] fs_bind_def)
    next
      case (Inr u)
      then have "mkdir_single denied exist_ok p fs2 = (r, fs')"
        using 1(2) s1 s2 True by (simp add: mkdir_parents.simps [of _ _ p] fs_bind_def)
      then show ?thesis using n2 mkdir_new by (metis prefix_order.refl)
    qed
  qed
qed

lemma mkdir_parents_made:
  assumes "mkdir_parents denied exist_ok p fs = (Inr u, fs')"
  shows "fs' p = Some DirNode"
proof -
  have single: "mkdir_single denied exist_ok p gs = (Inr (), gs') \<Longrightarrow> gs' p = Some DirNode" for gs gs'
    by (auto simp: mkdir_single_def os_mkdir_def split: prod.splits sum.splits if_splits option.splits fs_node.splits)
  show ?thesis
    using assms by (subst (asm) mkdir_parents.simps)
      (auto simp: fs_bind_def dest: single split: prod.splits sum.splits if_splits)
qed

lemma make_artifacts_changes:
  assumes "make_artifacts denied cwd d modname fs = (r, fs')"
  shows "(\<forall>q. prefix d q \<or> fs' q = fs q \<or> strict_prefix q d \<and> fs q = None \<and> fs' q = Some DirNode)
    \<and> (wf_fs fs \<longrightarrow> wf_fs fs')"
proof -
  let ?ops = "[make_cmakelists denied d modname, make_model denied d modname, make_test denied d modname,
    make_helper denied d modname, make_examples denied d modname, make_doc denied cwd d modname]"
  define rest :: "unit fs_op" where
    "rest = fs_bind (all_ops ?ops) (\<lambda>success. Pair (if success then Inr () else Inl ValueError))"
  have "confined {d} {p. prefix d p} (all_ops ?ops)" by (rule confined_all_ops) (simp add: confined_files)
  then have conf: "confined {d} {p. prefix d p} rest" by (auto simp: rest_def intro: confined_bind)
  obtain r1 fs1 where s1: "path_mkdir denied d fs = (r1, fs1)" by fastforce
  have n1: "\<forall>q. fs1 q = fs q \<or> prefix q d \<and> fs q = None \<and> fs1 q = Some DirNode"
    and w1: "wf_fs fs \<longrightarrow> wf_fs fs1"
    using mkdir_parents_new mkdir_parents_changes s1 by (auto simp: path_mkdir_def changes_only_def)
  have run: "make_artifacts denied cwd d modname fs = (case r1 of Inl e \<Rightarrow> (Inl e, fs1) | Inr u \<Rightarrow> rest fs1)"
    using s1 by (simp add: make_artifacts_def rest_def fs_bind_def split: sum.splits)
  have c2: "(\<forall>q. prefix d q \<or> fs' q = fs1 q) \<and> (wf_fs fs1 \<longrightarrow> wf_fs fs')"
  proof (cases r1)
    case (Inl e)
    then show ?thesis using run assms by simp
  next
    case (Inr u)
    then have "rest fs1 = (r, fs')" "fs1 d = Some DirNode"
      using run assms s1 mkdir_parents_made by (auto simp: path_mkdir_def)
    then have "changes_only {p. prefix d p} fs1 fs'" using conf by (simp add: confined_def)
    then show ?thesis by (auto simp: changes_only_def)
  qed
  show ?thesis using n1 w1 c2 by (metis prefix_order.le_less prefix_order.refl)
qed

lemma make_module_rolls_back:
  assumes "wf_fs fs" "make_module denied cwd (modpath, modname) fs = (False, fs', msgs)"
  shows "wf_fs fs' \<and> (\<forall>q. fs' q = fs q \<or> strict_prefix q (modpath @ [modname]) \<and> fs q = None \<and> fs' q = Some DirNode)"
proof (cases "fs (modpath @ [modname]) = None")
  case False
  then show ?thesis using assms by (auto simp: make_module_def)
next
  case True
  let ?d = "modpath @ [modname]"
  obtain r fs1 where s1: "make_artifacts denied cwd ?d modname fs = (r, fs1)" by fastforce
  have c: "\<forall>q. prefix ?d q \<or> fs1 q = fs q \<or> strict_prefix q ?d \<and> fs q = None \<and> fs1 q = Some DirNode" "wf_fs fs1"
    using make_artifacts_changes [OF s1] assms(1) by auto
  have f: "fs' = (if fs1 ?d \<noteq> None then rmtree ?d fs1 else fs1)"
    using assms(2) True s1 by (auto simp: make_module_def Let_def split: sum.splits)
  have old: "fs q = None" if "prefix ?d q" for q
    using wf_below_none [OF assms(1) True] that by (auto simp: prefix_def)
  have new: "fs' q = (if prefix ?d q then None else fs1 q)" for q
    using wf_below_none [OF c(2), of ?d] f by (auto simp: rmtree_def prefix_def)
  have "wf_fs fs'"
    using c(2) by (auto simp: wf_fs_def new dest: prefix_order.trans [OF _ prefixeq_butlast])
  moreover have "fs' q = fs q \<or> strict_prefix q ?d \<and> fs q = None \<and> fs' q = Some DirNode" for q
    using new [of q] old [of q] c(1) by auto
  ultimately show ?thesis by blast
qed

text \<open>C5: When \<^verbatim>\<open>make_module\<close> fails, at whatever point the system refuses a directory or a file, nothing of the module
  is left behind: every path is as it was, except that missing parent directories of the module may have been made.
  The tree stays well-formed.\<close>

theorem make_module_all_or_nothing:
  assumes "wf_fs fs" "make_module denied cwd (modpath, modname) fs = (False, fs', msgs)"
  shows "wf_fs fs' \<and> (\<forall>q. fs' q = fs q \<or> strict_prefix q (modpath @ [modname]) \<and> fs q = None \<and> fs' q = Some DirNode)"
  using make_module_rolls_back [OF assms] .

section \<open>The generated tree\<close>

definition filled :: "(string \<times> string) list \<Rightarrow> string \<Rightarrow> fs_node" where
  "filled kwargs template = FileNode (case py_format kwargs template of Inl e \<Rightarrow> '''' | Inr t \<Rightarrow> t)"

text \<open>The directory structure that the help text of the script documents.\<close>

definition module_tree :: "string \<Rightarrow> string \<Rightarrow> (string list \<times> fs_node) list" where
  "module_tree dir n =
     [([], DirNode),
      ([''CMakeLists.txt''], filled [(''MODULE'', n)] CMAKELISTS_TEMPLATE),
      ([''model''], DirNode),
      ([''model'', n @ ''.cc''], filled [(''MODULE'', n)] MODEL_CC_TEMPLATE),
      ([''model'', n @ ''.h''], filled [(''MODULE'', n), (''INCLUDE_GUARD'', guard_name n @ ''_H'')] MODEL_H_TEMPLATE),
      ([''test''], DirNode),
      ([''test'', n @ ''-test-suite.cc''],
        filled [(''MODULE'', n), (''CAPITALIZED'', concat (map str_capitalize (str_split CHR ''-'' n))),
                (''COMPOUND'', compound_name (str_split CHR ''-'' n))] TEST_CC_TEMPLATE),
      ([''helper''], DirNode),
      ([''helper'', n @ ''-helper.cc''], filled [(''MODULE'', n)] HELPER_CC_TEMPLATE),
      ([''helper'', n @ ''-helper.h''],
        filled [(''MODULE'', n), (''INCLUDE_GUARD'', guard_name n @ ''_HELPER_H'')] HELPER_H_TEMPLATE),
      ([''examples''], DirNode),
      ([''examples'', ''CMakeLists.txt''], filled [(''MODULE'', n)] EXAMPLES_CMAKELISTS_TEMPLATE),
      ([''examples'', n @ ''-example.cc''], filled [(''MODULE'', n)] EXAMPLE_CC_TEMPLATE),
      ([''doc''], DirNode),
      ([''doc'', n @ ''.rst''], filled [(''MODULE'', n), (''MODULE_DIR'', dir)] DOC_RST_TEMPLATE)]"

definition install :: "string list \<Rightarrow> (string list \<times> fs_node) list \<Rightarrow> fs \<Rightarrow> fs" where
  "install d tree fs = fold (\<lambda>(q, node) fs. fs(d @ q \<mapsto> node)) tree fs"

lemma install_simps [simp]:
  "install d [] fs = fs" "install d ((q, node) # tree) fs = install d tree (fs(d @ q \<mapsto> node))"
  by (simp_all add: install_def)

lemma install_lookup:
  "distinct (map fst tree) \<Longrightarrow>
    install d tree fs p = (if prefix d p \<and> map_of tree (drop (length d) p) \<noteq> None then map_of tree (drop (length d) p) else fs p)"
proof (induction tree arbitrary: fs)
  case (Cons e tree)
  obtain q node where e: "e = (q, node)" by (cases e)
  then have "map_of tree q = None" using Cons.prems by (simp add: map_of_eq_None_iff)
  then show ?case using Cons e by (auto simp: prefix_def)
qed simp

lemma no_dot_suffix: "CHR ''.'' \<notin> set n \<Longrightarrow> with_suffix n suf = n @ suf"
  by (simp add: with_suffix_def)

lemma path_mkdir_ok:
  "fs d = Some DirNode \<Longrightarrow> fs (d @ [x]) = None \<Longrightarrow> \<not> denied (d @ [x]) \<Longrightarrow>
    path_mkdir denied (d @ [x]) fs = (Inr (), fs(d @ [x] \<mapsto> DirNode))"
  by (simp add: mkdir_in_dir mkdir_single_def os_mkdir_def)

lemma create_file_ok:
  assumes "fills (map fst kwargs) template" "fs d = Some DirNode" "fs (d @ [x]) \<noteq> Some DirNode" "\<not> denied (d @ [x])"
  shows "create_file denied (d @ [x]) template kwargs fs = (Inr (), fs(d @ [x] \<mapsto> filled kwargs template))"
  using assms fills_format [OF assms(1)] by (auto simp: create_file_def filled_def Let_def)

text \<open>Each generator, run where its directory is not there yet.\<close>

lemma path_mkdir_ok2:
  "fs (d @ [x]) = Some DirNode \<Longrightarrow> fs (d @ [x, y]) = None \<Longrightarrow> \<not> denied (d @ [x, y]) \<Longrightarrow>
    path_mkdir denied (d @ [x, y]) fs = (Inr (), fs(d @ [x, y] \<mapsto> DirNode))"
  using path_mkdir_ok [of fs "d @ [x]" y denied] by simp

lemma create_file_ok2:
  assumes "fills (map fst kwargs) template" "fs (d @ [x]) = Some DirNode" "fs (d @ [x, y]) \<noteq> Some DirNode"
    "\<not> denied (d @ [x, y])"
  shows "create_file denied (d @ [x, y]) template kwargs fs = (Inr (), fs(d @ [x, y] \<mapsto> filled kwargs template))"
  using create_file_ok [of kwargs template fs "d @ [x]" y denied] assms by simp

lemmas run_rules = path_mkdir_ok create_file_ok create_file_ok2 template_fills fs_bind_def

definition ready :: "(string list \<Rightarrow> bool) \<Rightarrow> string list \<Rightarrow> string \<Rightarrow> fs \<Rightarrow> bool" where
  "ready denied d x fs \<longleftrightarrow> fs d = Some DirNode \<and> (\<forall>q. fs (d @ x # q) = None) \<and> (\<forall>q. \<not> denied (d @ q))"

lemma make_cmakelists_run:
  assumes "ready denied d ''CMakeLists.txt'' fs"
  shows "make_cmakelists denied d n fs =
    (Inr True, install d [([''CMakeLists.txt''], filled [(''MODULE'', n)] CMAKELISTS_TEMPLATE)] fs)"
  using assms by (simp add: make_cmakelists_def run_rules ready_def)

lemma make_model_run:
  assumes "ready denied d ''model'' fs" "CHR ''.'' \<notin> set n"
  shows "make_model denied d n fs = (Inr True, install d [([''model''], DirNode),
      ([''model'', n @ ''.cc''], filled [(''MODULE'', n)] MODEL_CC_TEMPLATE),
      ([''model'', n @ ''.h''], filled [(''MODULE'', n), (''INCLUDE_GUARD'', guard_name n @ ''_H'')] MODEL_H_TEMPLATE)] fs)"
  using assms by (simp add: make_model_def run_rules ready_def no_dot_suffix)

lemma make_test_run:
  assumes "ready denied d ''test'' fs" "CHR ''.'' \<notin> set n"
  shows "make_test denied d n fs = (Inr True, install d [([''test''], DirNode), ([''test'', n @ ''-test-suite.cc''],
      filled [(''MODULE'', n), (''CAPITALIZED'', concat (map str_capitalize (str_split CHR ''-'' n))),
              (''COMPOUND'', compound_name (str_split CHR ''-'' n))] TEST_CC_TEMPLATE)] fs)"
  using assms by (simp add: make_test_def run_rules ready_def no_dot_suffix Let_def)

lemma make_helper_run:
  assumes "ready denied d ''helper'' fs" "CHR ''.'' \<notin> set n"
  shows "make_helper denied d n fs = (Inr True, install d [([''helper''], DirNode),
      ([''helper'', n @ ''-helper.cc''], filled [(''MODULE'', n)] HELPER_CC_TEMPLATE),
      ([''helper'', n @ ''-helper.h''],
        filled [(''MODULE'', n), (''INCLUDE_GUARD'', guard_name n @ ''_HELPER_H'')] HELPER_H_TEMPLATE)] fs)"
  using assms by (simp add: make_helper_def run_rules ready_def no_dot_suffix)

lemma make_examples_run:
  assumes "ready denied d ''examples'' fs" "CHR ''.'' \<notin> set n"
  shows "make_examples denied d n fs = (Inr True, install d [([''examples''], DirNode),
      ([''examples'', ''CMakeLists.txt''], filled [(''MODULE'', n)] EXAMPLES_CMAKELISTS_TEMPLATE),
      ([''examples'', n @ ''-example.cc''], filled [(''MODULE'', n)] EXAMPLE_CC_TEMPLATE)] fs)"
  using assms by (simp add: make_examples_def run_rules ready_def no_dot_suffix filled_def)

lemma make_doc_run:
  assumes "ready denied d ''doc'' fs"
  shows "make_doc denied cwd d n fs = (Inr True, install d [([''doc''], DirNode),
      ([''doc'', n @ ''.rst''], filled [(''MODULE'', n), (''MODULE_DIR'', relpath cwd d)] DOC_RST_TEMPLATE)] fs)"
  using assms by (simp add: make_doc_def run_rules ready_def)

lemma ready_upd: "x \<noteq> y \<Longrightarrow> ready denied d x fs \<Longrightarrow> ready denied d x (fs(d @ y # q \<mapsto> node))"
  by (simp add: ready_def)

lemmas make_runs = make_cmakelists_run make_model_run make_test_run make_helper_run make_examples_run make_doc_run

lemma all_ops_run:
  assumes "\<And>x. ready denied d x fs" "CHR ''.'' \<notin> set n"
  shows "all_ops [make_cmakelists denied d n, make_model denied d n, make_test denied d n, make_helper denied d n,
      make_examples denied d n, make_doc denied cwd d n] fs
    = (Inr True, install d (drop 1 (module_tree (relpath cwd d) n)) fs)"
  using assms by (simp add: fs_bind_def make_runs ready_upd module_tree_def)

lemma module_tree_distinct: "distinct (map fst (module_tree dir n))"
proof -
  have "''CMakeLists.txt'' \<noteq> n @ ''-example.cc''" by (rule notI) (drule arg_cong [of _ _ last], simp)
  then show ?thesis by (simp add: module_tree_def)
qed

lemma allowed_chars: "allowed_name n \<Longrightarrow> c \<in> set n \<Longrightarrow> name_char c \<or> c = CHR 0x0A"
  by (cases n rule: rev_cases) (auto simp: allowed_name_def Let_def list_all_iff split: if_splits)

lemma allowed_no_dot: "allowed_name n \<Longrightarrow> CHR ''.'' \<notin> set n"
  by (auto simp: name_char_def dest: allowed_chars)

lemma allowed_no_slash: "allowed_name n \<Longrightarrow> CHR ''/'' \<notin> set n"
  by (auto simp: name_char_def dest: allowed_chars)

lemma make_module_run:
  assumes "wf_fs fs" "fs modpath = Some DirNode" "fs (modpath @ [n]) = None" "\<forall>q. \<not> denied (modpath @ n # q)" "allowed_name n"
  shows "make_module denied cwd (modpath, n) fs =
    (True, install (modpath @ [n]) (module_tree (relpath cwd (modpath @ [n])) n) fs, [Creating (modpath @ [n])])"
proof -
  let ?d = "modpath @ [n]" and ?fs = "fs(modpath @ [n] \<mapsto> DirNode)"
  have mk: "path_mkdir denied ?d fs = (Inr (), ?fs)" using path_mkdir_ok assms by blast
  have "ready denied ?d x ?fs" for x
    using wf_below_none [OF assms(1,3)] assms(4) by (simp add: ready_def)
  note run = all_ops_run [OF this allowed_no_dot [OF assms(5)], of cwd]
  have "module_tree (relpath cwd ?d) n = ([], DirNode) # drop 1 (module_tree (relpath cwd ?d) n)"
    by (simp add: module_tree_def)
  then have "install ?d (module_tree (relpath cwd ?d) n) fs = install ?d (drop 1 (module_tree (relpath cwd ?d) n)) ?fs"
    by (metis append_Nil2 install_simps(2))
  then show ?thesis
    using run mk assms(3) by (simp add: make_module_def make_artifacts_def fs_bind_def Let_def del: all_ops.simps)
qed

text \<open>C8: Where the target directory exists, the module does not and the system refuses nothing below it,
  \<^verbatim>\<open>make_module\<close> succeeds for every allowed name and creates exactly the documented tree, each file with its
  template filled in; nothing else changes.\<close>

theorem make_module_creates_tree:
  assumes "wf_fs fs" "fs modpath = Some DirNode" "fs (modpath @ [n]) = None" "\<forall>q. \<not> denied (modpath @ n # q)" "allowed_name n"
  shows "\<exists>fs' msgs. make_module denied cwd (modpath, n) fs = (True, fs', msgs)
    \<and> (\<forall>q. fs' (modpath @ n # q) = map_of (module_tree (relpath cwd (modpath @ [n])) n) q)
    \<and> (\<forall>p. \<not> prefix (modpath @ [n]) p \<longrightarrow> fs' p = fs p)"
proof -
  have "install (modpath @ [n]) (module_tree dir n) fs (modpath @ n # q) = map_of (module_tree dir n) q" for dir q
    using install_lookup [OF module_tree_distinct, of "modpath @ [n]" dir n fs "modpath @ n # q"]
      wf_below_none [OF assms(1,3), of q] by simp
  then show ?thesis using make_module_run [OF assms, of cwd] by (auto simp: install_lookup [OF module_tree_distinct])
qed

text \<open>A small tree for the examples.\<close>

definition sample_fs :: fs where
  "sample_fs p = (if p \<in> {[], [''ns3''], [''ns3'', ''src''], [''ns3'', ''contrib'']} then Some DirNode else None)"

lemma sample_fs_wf: "wf_fs sample_fs"
  by (auto simp: wf_fs_def sample_fs_def split: if_splits)

theorem make_module_creates_tree_witness:
  "\<exists>fs' msgs. make_module (\<lambda>p. False) [''ns3''] ([''ns3'', ''contrib''], ''lora-wan'') sample_fs = (True, fs', msgs)
    \<and> fs' [''ns3'', ''contrib'', ''lora-wan'', ''model''] = Some DirNode"
  using make_module_creates_tree [OF sample_fs_wf, of "[''ns3'', ''contrib'']" "''lora-wan''" "\<lambda>p. False" "[''ns3'']"]
  by (auto simp: sample_fs_def allowed_name_def name_char_def module_tree_def)

theorem make_module_all_or_nothing_witness:
  "wf_fs (fst (snd (make_module (\<lambda>p. length p = 4) [''ns3''] ([''ns3'', ''contrib''], ''lora'') sample_fs)))"
proof -
  have "\<exists>fs' msgs. make_module (\<lambda>p. length p = 4) [''ns3''] ([''ns3'', ''contrib''], ''lora'') sample_fs = (False, fs', msgs)"
    by (simp add: make_module_def make_artifacts_def fs_bind_def path_mkdir_def mkdir_parents.simps mkdir_single_def os_mkdir_def
        sample_fs_def make_cmakelists_def create_file_def Let_def)
  then show ?thesis using make_module_all_or_nothing [OF sample_fs_wf] by fastforce
qed

section \<open>Nothing is overwritten\<close>

definition extends_fs :: "fs \<Rightarrow> fs \<Rightarrow> bool" where
  "extends_fs fs fs' \<longleftrightarrow> wf_fs fs' \<and> (\<forall>p. fs p \<noteq> None \<longrightarrow> fs' p = fs p)"

lemma make_module_extends:
  assumes "wf_fs fs"
  shows "extends_fs fs (fst (snd (make_module denied cwd module fs)))"
proof -
  obtain modpath modname where module: "module = (modpath, modname)" by (cases module)
  obtain ok fs' msgs where m: "make_module denied cwd module fs = (ok, fs', msgs)" by (metis prod_cases3)
  show ?thesis
  proof (cases ok)
    case False
    then show ?thesis using make_module_rolls_back [OF assms] m module by (fastforce simp: extends_fs_def)
  next
    case True
    let ?d = "modpath @ [modname]"
    have new: "fs ?d = None" using m module True by (auto simp: make_module_def Let_def split: if_splits)
    have "\<exists>r. make_artifacts denied cwd ?d modname fs = (r, fs')"
      using m module True new by (auto simp: make_module_def Let_def split: prod.splits sum.splits)
    then have c: "\<forall>q. prefix ?d q \<or> fs' q = fs q \<or> strict_prefix q ?d \<and> fs q = None \<and> fs' q = Some DirNode" "wf_fs fs'"
      using make_artifacts_changes assms by blast+
    have none: "fs q = None" if "prefix ?d q" for q using wf_below_none [OF assms new] that by (auto simp: prefix_def)
    have "fs' q = fs q" if "fs q \<noteq> None" for q using c(1) [rule_format, of q] none [of q] that by auto
    then show ?thesis using c(2) m by (simp add: extends_fs_def)
  qed
qed

lemma make_all_extends: "wf_fs fs \<Longrightarrow> extends_fs fs (fst (snd (make_all denied cwd modules fs)))"
proof (induction modules arbitrary: fs)
  case (Cons module modules)
  obtain ok fs1 msgs where m: "make_module denied cwd module fs = (ok, fs1, msgs)" by (metis prod_cases3)
  have e1: "extends_fs fs fs1" using make_module_extends [OF Cons.prems, of denied cwd module] m by simp
  then have "extends_fs fs1 (fst (snd (make_all denied cwd modules fs1)))" using Cons.IH by (simp add: extends_fs_def)
  then show ?case using m e1 by (auto simp: extends_fs_def split: prod.splits)
qed (simp add: extends_fs_def)

lemma py_index_error: "py_index xs i = Inl e \<Longrightarrow> e = IndexError"
  by (auto simp: py_index_def split: if_splits)

lemma parse_name_error: "parse_name base project pp name = Inl e \<Longrightarrow> e = SystemExit 2 \<or> e = IndexError"
  by (auto simp: parse_name_def Let_def res_simps dest: py_index_error split: if_splits)

lemma parse_names_error: "parse_names base project pp names = Inl e \<Longrightarrow> e = SystemExit 2 \<or> e = IndexError"
  by (induction names) (auto simp: res_simps dest: parse_name_error)

lemma parse_project_error: "parse_project project = Inl e \<Longrightarrow> e = SystemExit 2 \<or> e = ValueError"
  by (auto simp: parse_project_def Let_def split: if_splits)

lemma main_create_cases:
  "(\<exists>e \<in> {SystemExit 2, IndexError, ValueError}. main_create denied cwd project modnames fs = Inl e)
    \<or> (\<exists>modules msgs. main_create denied cwd project modnames fs = Inr (0, fst (snd (make_all denied cwd modules fs)), msgs))"
proof (cases "fs (cwd @ [''src'']) = Some DirNode \<and> fs (cwd @ [''contrib'']) = Some DirNode")
  case dirs: True
  show ?thesis
  proof (cases "parse_project project")
    case (Inl e)
    then show ?thesis using dirs parse_project_error [OF Inl] by (auto simp: main_create_def)
  next
    case pp: (Inr pp)
    show ?thesis
    proof (cases "parse_names cwd project pp modnames")
      case (Inl e)
      then show ?thesis using dirs pp parse_names_error [OF Inl] by (auto simp: main_create_def)
    next
      case (Inr r)
      then show ?thesis using dirs pp 
        by (intro disjI2 exI [of _ "fst r"]) (cases r; cases "make_all denied cwd (fst r) fs"; simp add: main_create_def)
    qed
  qed
qed (auto simp: main_create_def)

text \<open>C34: Whatever the arguments and whatever the system refuses, the script only adds to the tree: the result is
  well-formed again (every entry lies in a directory) and no file or directory that was there is changed or removed.
  The exit status is 0, 1 or 2.\<close>

theorem create_module_only_adds:
  assumes "wf_fs fs"
  shows "case create_module_status denied cwd project modnames fs of
    (status, fs') \<Rightarrow> wf_fs fs' \<and> (\<forall>p. fs p \<noteq> None \<longrightarrow> fs' p = fs p) \<and> status \<in> {0, 1, 2}"
  using main_create_cases [of denied cwd project modnames fs] make_all_extends [OF assms, of denied cwd] assms
  by (auto simp: create_module_status_def extends_fs_def)

theorem create_module_only_adds_witness:
  "case create_module_status (\<lambda>p. False) [''ns3''] '''' [''lora''] sample_fs of
    (status, fs') \<Rightarrow> wf_fs fs' \<and> (\<forall>p. sample_fs p \<noteq> None \<longrightarrow> fs' p = sample_fs p) \<and> status \<in> {0, 1, 2}"
  using create_module_only_adds [OF sample_fs_wf, of "\<lambda>p. False" "[''ns3'']" "''''" "[''lora'']"] .

section \<open>Where a module goes\<close>

lemma strip_slash_id:
  assumes "s \<noteq> []" "hd s \<noteq> CHR ''/''" "last s \<noteq> CHR ''/''"
  shows "str_strip_chars ''/'' s = s"
proof -
  have "dropWhile (\<lambda>c. c \<in> set ''/'') s = s" using assms by (cases s) auto
  moreover have "dropWhile (\<lambda>c. c \<in> set ''/'') (rev s) = rev s"
    using assms by (cases s rule: rev_cases) auto
  ultimately show ?thesis by (simp add: str_strip_chars_def)
qed

lemma allowed_parts:
  assumes "allowed_name n"
  shows "path_parts n = [n]" "n \<noteq> []" "n \<noteq> ''.''"
  using allowed_no_slash [OF assms] allowed_no_dot [OF assms] assms
  by (auto simp: path_parts_def str_split_none allowed_name_def)

lemma allowed_strip:
  assumes "allowed_name n" "p = '''' \<or> p \<noteq> [] \<and> hd p \<noteq> CHR ''/''"
  shows "str_strip_chars ''/'' (p @ n) = p @ n" "p @ n \<noteq> []"
proof -
  have "n \<noteq> []" "CHR ''/'' \<notin> set n" using allowed_parts(2) allowed_no_slash assms(1) by auto
  then have "hd n \<noteq> CHR ''/''" "last n \<noteq> CHR ''/''" by (metis hd_in_set, metis last_in_set)
  then show "str_strip_chars ''/'' (p @ n) = p @ n" "p @ n \<noteq> []"
    using \<open>n \<noteq> []\<close> assms(2) by (auto intro!: strip_slash_id simp: hd_append)
qed

lemma path_parts_sep:
  "CHR ''/'' \<notin> set a \<Longrightarrow> a \<notin> {'''', ''.''} \<Longrightarrow> path_parts (a @ CHR ''/'' # b) = a # path_parts b"
  by (simp add: path_parts_def str_split_append_sep)

text \<open>An allowed name goes to \<^verbatim>\<open>contrib\<close>, with or without \<^verbatim>\<open>contrib/\<close> in front, and to \<^verbatim>\<open>src\<close> with \<^verbatim>\<open>src/\<close> in front;
  under \<^verbatim>\<open>--project\<close> it goes to the project's directory below \<^verbatim>\<open>contrib\<close>, and a name with \<^verbatim>\<open>src/\<close> in front is an error. But
  the names \<^verbatim>\<open>src\<close> and \<^verbatim>\<open>contrib\<close> alone raise \<^verbatim>\<open>IndexError\<close>, and of a path \<open>n/m\<close> the last part is dropped without a
  message.\<close>

theorem parse_name_target:
  assumes "allowed_name n" "n \<notin> {''src'', ''contrib''}"
  shows "parse_name base '''' None n = Inr (Generate (base @ [''contrib'']) n)
    \<and> parse_name base '''' None (''contrib/'' @ n) = Inr (Generate (base @ [''contrib'']) n)
    \<and> parse_name base '''' None (''src/'' @ n) = Inr (Generate (base @ [''src'']) n)
    \<and> (project \<noteq> '''' \<longrightarrow> parse_name base project (Some pp) n = Inr (Generate (base @ ''contrib'' # pp) n)
        \<and> parse_name base project (Some pp) (''src/'' @ n) = Inl (SystemExit 2))
    \<and> parse_name base '''' None ''src'' = Inl IndexError \<and> parse_name base '''' None ''contrib'' = Inl IndexError
    \<and> (allowed_name m \<longrightarrow> parse_name base '''' None (n @ ''/'' @ m) = Inr (Generate (base @ [''contrib'']) n))"
proof -
  note n = allowed_parts [OF assms(1)] allowed_strip [OF assms(1), of "''''"] allowed_no_slash [OF assms(1)]
  have c: "path_parts (''contrib/'' @ n) = [''contrib'', n]" "path_parts (''src/'' @ n) = [''src'', n]"
    using path_parts_sep [of "''contrib''" n] path_parts_sep [of "''src''" n] n by simp_all
  have s: "str_strip_chars ''/'' (''contrib/'' @ n) = ''contrib/'' @ n" "str_strip_chars ''/'' (''src/'' @ n) = ''src/'' @ n"
    using allowed_strip [OF assms(1), of "''contrib/''"] allowed_strip [OF assms(1), of "''src/''"] by simp_all
  have alone: "parse_name base '''' None ''src'' = Inl IndexError" "parse_name base '''' None ''contrib'' = Inl IndexError"
    by (simp_all add: parse_name_def str_strip_chars_def path_parts_def py_index_def)
  have "parse_name base '''' None (n @ ''/'' @ m) = Inr (Generate (base @ [''contrib'']) n)" if m: "allowed_name m"
  proof -
    have "hd n \<noteq> CHR ''/''" using n by (metis hd_in_set)
    then have "str_strip_chars ''/'' (n @ ''/'' @ m) = n @ ''/'' @ m"
      using allowed_strip [OF m, of "n @ ''/''"] n by (simp add: hd_append)
    moreover have "path_parts (n @ ''/'' @ m) = [n, m]"
      using path_parts_sep [of n m] allowed_parts [OF m] n by simp
    ultimately show ?thesis using assms n by (simp add: parse_name_def py_index_def)
  qed
  then show ?thesis using n c s alone assms by (simp add: parse_name_def py_index_def)
qed

theorem parse_name_target_witness:
  "parse_name [''ns3''] '''' None (''src/'' @ ''lora'') = Inr (Generate [''ns3'', ''src''] ''lora'')"
  using parse_name_target [of "''lora''" "[''ns3'']"] by (simp add: allowed_name_def name_char_def)

text \<open>The \<^verbatim>\<open>$\<close> of the pattern accepts a name that ends in a newline.\<close>

theorem newline_name_allowed: "allowed_name (n @ [CHR 0x0A]) = (n \<noteq> [] \<and> list_all name_char n)"
  by (simp add: allowed_name_def)

end
