(* ===== verification/Viz_Base.thy ===== *)
theory Viz_Base
  imports Py_Numbers
begin

text \<open>
  The base layer of the visualizer: \<^verbatim>\<open>src/visualizer/visualizer/base.py\<close> (traits of net devices, coordinates,
  plugins) and \<^verbatim>\<open>svgitem.py\<close> (scaled images on the canvas). Device classes are named by strings; what importing a
  plugin does and the natural size of an image are parameters. Floats are exact rationals.
\<close>

section \<open>Traits of net devices\<close>

record net_traits =
  is_wireless :: "bool option"
  is_virtual :: bool

definition new_traits :: "bool option \<Rightarrow> bool \<Rightarrow> net_traits res" where
  "new_traits wireless virt =
     (if virt \<or> wireless \<noteq> None then Inr \<lparr>is_wireless = wireless, is_virtual = virt\<rparr> else Inl AssertionError)"

definition netdevice_traits :: "(string \<times> net_traits) list" where
  "netdevice_traits =
     [(''PointToPointNetDevice'', \<lparr>is_wireless = Some False, is_virtual = False\<rparr>),
      (''CsmaNetDevice'', \<lparr>is_wireless = Some False, is_virtual = False\<rparr>),
      (''WifiNetDevice'', \<lparr>is_wireless = Some True, is_virtual = False\<rparr>),
      (''BridgeNetDevice'', \<lparr>is_wireless = None, is_virtual = True\<rparr>),
      (''LoopbackNetDevice'', \<lparr>is_wireless = Some False, is_virtual = True\<rparr>),
      (''MeshPointDevice'', \<lparr>is_wireless = None, is_virtual = True\<rparr>),
      (''SubscriberStationNetDevice'', \<lparr>is_wireless = Some True, is_virtual = False\<rparr>),
      (''BaseStationNetDevice'', \<lparr>is_wireless = Some True, is_virtual = False\<rparr>),
      (''LteUeNetDevice'', \<lparr>is_wireless = Some True, is_virtual = False\<rparr>),
      (''LteEnbNetDevice'', \<lparr>is_wireless = Some True, is_virtual = False\<rparr>)]"

text \<open>An unknown class is taken for a wireless device, with a warning, and remembered. The result is the traits, the
  table afterwards and whether the warning was written.\<close>

definition lookup_netdevice_traits ::
    "string \<Rightarrow> (string \<times> net_traits) list \<Rightarrow> net_traits \<times> (string \<times> net_traits) list \<times> bool" where
  "lookup_netdevice_traits class_type table =
     (case map_of table class_type of
        Some t \<Rightarrow> (t, table, False)
      | None \<Rightarrow> let t = \<lparr>is_wireless = Some True, is_virtual = False\<rparr> in (t, AList.update class_type t table, True))"

section \<open>Coordinates\<close>

definition PIXELS_PER_METER :: rat where
  "PIXELS_PER_METER = 3"

definition transform_distance_simulation_to_canvas :: "rat \<Rightarrow> rat" where
  "transform_distance_simulation_to_canvas d = d * PIXELS_PER_METER"

definition transform_point_simulation_to_canvas :: "rat \<Rightarrow> rat \<Rightarrow> rat \<times> rat" where
  "transform_point_simulation_to_canvas x y = (x * PIXELS_PER_METER, y * PIXELS_PER_METER)"

definition transform_distance_canvas_to_simulation :: "rat \<Rightarrow> rat" where
  "transform_distance_canvas_to_simulation d = d / PIXELS_PER_METER"

definition transform_point_canvas_to_simulation :: "rat \<Rightarrow> rat \<Rightarrow> rat \<times> rat" where
  "transform_point_canvas_to_simulation x y = (x / PIXELS_PER_METER, y / PIXELS_PER_METER)"

section \<open>Plugins\<close>

text \<open>What \<^verbatim>\<open>__import__\<close> of a plugin does: it raises \<^verbatim>\<open>ImportError\<close>, or another exception, or gives a module whose
  \<^verbatim>\<open>register\<close> is missing, callable or not callable.\<close>

datatype plugin_import = ImportFails | ImportRaises py_error | NoRegister | HasRegister bool

record plugin_state =
  plugins :: "string list"
  plugin_modules :: "(string \<times> string) list"
  plugins_loaded :: bool
  sys_path :: "string list"

text \<open>A plugin is named by the module it comes from.\<close>

definition register_plugin :: "string \<Rightarrow> bool \<Rightarrow> (string \<times> string) option \<Rightarrow> plugin_state \<Rightarrow> unit res \<times> plugin_state" where
  "register_plugin plugin_init_func callable plugin_module st =
     (if \<not> callable then (Inl AssertionError, st)
      else let st = st\<lparr>plugins := plugins st @ [plugin_init_func]\<rparr>
           in (case plugin_module of
                 None \<Rightarrow> (Inr (), st)
               | Some (name, m) \<Rightarrow> (Inr (), st\<lparr>plugin_modules := AList.update name m (plugin_modules st)\<rparr>)))"

text \<open>\<^verbatim>\<open>os.path.splitext\<close>: the extension starts at the last dot of the last component, unless only dots precede it.\<close>

definition splitext :: "string \<Rightarrow> string \<times> string" where
  "splitext p =
     (let base = rev (takeWhile (\<lambda>c. c \<noteq> CHR ''/'') (rev p));
          i = length p - length (takeWhile (\<lambda>c. c \<noteq> CHR ''.'') (rev p)) - 1;
          stem = drop (length p - length base) (take i p)
      in if CHR ''.'' \<in> set base \<and> (\<exists>c \<in> set stem. c \<noteq> CHR ''.'') then (take i p, drop i p) else (p, ''''))"

definition load_plugin :: "(string \<Rightarrow> plugin_import) \<Rightarrow> string \<Rightarrow> plugin_state \<Rightarrow> unit res \<times> plugin_state" where
  "load_plugin import filename st =
     (case splitext filename of (name, ext) \<Rightarrow>
        if ext \<noteq> ''.py'' then (Inr (), st)
        else (case import name of
                ImportFails \<Rightarrow> (Inr (), st)
              | ImportRaises e \<Rightarrow> (Inl e, st)
              | NoRegister \<Rightarrow> (Inr (), st)
              | HasRegister callable \<Rightarrow> register_plugin name callable (Some (name, name)) st))"

fun load_files :: "(string \<Rightarrow> plugin_import) \<Rightarrow> string list \<Rightarrow> plugin_state \<Rightarrow> unit res \<times> plugin_state" where
  "load_files import [] st = (Inr (), st)"
| "load_files import (f # fs) st =
     (case load_plugin import f st of
        (Inl e, st') \<Rightarrow> (Inl e, st')
      | (Inr u, st') \<Rightarrow> load_files import fs st')"

definition load_plugins ::
    "(string \<Rightarrow> plugin_import) \<Rightarrow> string \<Rightarrow> string list \<Rightarrow> plugin_state \<Rightarrow> unit res \<times> plugin_state" where
  "load_plugins import plugins_dir listing st =
     (if plugins_loaded st then (Inr (), st)
      else let old_path = sys_path st;
               st1 = st\<lparr>plugins_loaded := True, sys_path := plugins_dir # sys_path st\<rparr>
           in (case load_files import listing st1 of
                 (Inl e, st2) \<Rightarrow> (Inl e, st2)
               | (Inr u, st2) \<Rightarrow> (Inr (), st2\<lparr>sys_path := old_path\<rparr>)))"

section \<open>Scaled images\<close>

record svg_handle =
  h_width :: rat
  h_height :: rat

record svg_item =
  svg_x :: rat
  svg_y :: rat
  svg_sx :: rat
  svg_sy :: rat
  svg_handle_of :: svg_handle
  svg_width :: rat
  svg_height :: rat
  custom_width :: "rat option"
  custom_height :: "rat option"

definition new_svg_item :: "rat \<Rightarrow> rat \<Rightarrow> svg_handle \<Rightarrow> svg_item" where
  "new_svg_item x y h = \<lparr>svg_x = x, svg_y = y, svg_sx = 1, svg_sy = 1, svg_handle_of = h,
     svg_width = h_width h, svg_height = h_height h, custom_width = None, custom_height = None\<rparr>"

text \<open>\<^verbatim>\<open>_size_changed\<close>; where a division fails, what was assigned before stays.\<close>

definition size_changed :: "svg_item \<Rightarrow> unit res \<times> svg_item" where
  "size_changed s =
     (let w0 = h_width (svg_handle_of s); h0 = h_height (svg_handle_of s)
      in case (custom_width s, custom_height s) of
           (None, None) \<Rightarrow> (Inr (), s\<lparr>svg_width := w0, svg_height := h0, svg_sx := 1, svg_sy := 1\<rparr>)
         | (Some w, None) \<Rightarrow>
             let s1 = s\<lparr>svg_width := w\<rparr>
             in (case py_div w w0 of
                   Inl e \<Rightarrow> (Inl e, s1)
                 | Inr r \<Rightarrow> (Inr (), s1\<lparr>svg_sx := r, svg_sy := r, svg_height := h0 * r\<rparr>))
         | (None, Some h) \<Rightarrow>
             let s1 = s\<lparr>svg_height := h\<rparr>
             in (case py_div h h0 of
                   Inl e \<Rightarrow> (Inl e, s1)
                 | Inr r \<Rightarrow> (Inr (), s1\<lparr>svg_sy := r, svg_sx := r, svg_width := w0 * r\<rparr>))
         | (Some w, Some h) \<Rightarrow>
             let s1 = s\<lparr>svg_width := w, svg_height := h\<rparr>
             in (case py_div w w0 of
                   Inl e \<Rightarrow> (Inl e, s1)
                 | Inr rx \<Rightarrow>
                     let s2 = s1\<lparr>svg_sx := rx\<rparr>
                     in (case py_div h h0 of Inl e \<Rightarrow> (Inl e, s2) | Inr ry \<Rightarrow> (Inr (), s2\<lparr>svg_sy := ry\<rparr>))))"

definition do_set_property :: "string \<Rightarrow> rat \<Rightarrow> svg_item \<Rightarrow> unit res \<times> svg_item" where
  "do_set_property name v s =
     (if name = ''x'' then (Inr (), s\<lparr>svg_x := v\<rparr>)
      else if name = ''y'' then (Inr (), s\<lparr>svg_y := v\<rparr>)
      else if name = ''width'' then size_changed (s\<lparr>custom_width := Some v\<rparr>)
      else if name = ''height'' then size_changed (s\<lparr>custom_height := Some v\<rparr>)
      else (Inl AttributeError, s))"

definition do_get_property :: "string \<Rightarrow> svg_item \<Rightarrow> rat res \<times> svg_item" where
  "do_get_property name s =
     (if name = ''x'' then (Inr (svg_x s), s)
      else if name = ''y'' then (Inr (svg_y s), s)
      else if name = ''width'' then
        let s = s\<lparr>svg_width := h_width (svg_handle_of s), svg_height := h_height (svg_handle_of s)\<rparr>
        in (Inr (svg_width s), s)
      else if name = ''height'' then (Inr (svg_height s), s)
      else (Inl AttributeError, s))"

text \<open>\<^verbatim>\<open>do_simple_paint\<close> as the point of the canvas where a point of the image is painted.\<close>

definition do_simple_paint :: "svg_item \<Rightarrow> rat \<times> rat \<Rightarrow> rat \<times> rat" where
  "do_simple_paint s p = (svg_x s + svg_sx s * fst p, svg_y s + svg_sy s * snd p)"

definition do_simple_update :: "svg_item \<Rightarrow> rat \<times> rat \<times> rat \<times> rat" where
  "do_simple_update s = (svg_x s, svg_y s, svg_x s + svg_width s, svg_y s + svg_height s)"

definition do_simple_is_item_at :: "svg_item \<Rightarrow> rat \<Rightarrow> rat \<Rightarrow> bool" where
  "do_simple_is_item_at s x y =
     (if (x < svg_x s \<or> svg_x s + svg_width s < x) \<or> (y < svg_y s \<or> svg_y s + svg_height s < y) then False else True)"

definition rsvg_handle_factory ::
    "(string \<Rightarrow> svg_handle res) \<Rightarrow> string \<Rightarrow> (string \<times> svg_handle) list \<Rightarrow> svg_handle res \<times> (string \<times> svg_handle) list" where
  "rsvg_handle_factory load base_file_name cache =
     (case map_of cache base_file_name of
        Some h \<Rightarrow> (Inr h, cache)
      | None \<Rightarrow> (case load base_file_name of
                  Inl e \<Rightarrow> (Inl e, cache)
                | Inr h \<Rightarrow> (Inr h, AList.update base_file_name h cache)))"


section \<open>Devices and coordinates\<close>

definition traits_ok :: "(string \<times> net_traits) list \<Rightarrow> bool" where
  "traits_ok table \<longleftrightarrow> (\<forall>(c, t) \<in> set table. is_virtual t \<or> is_wireless t \<noteq> None)"

lemma netdevice_traits_ok: "traits_ok netdevice_traits"
  by (auto simp: traits_ok_def netdevice_traits_def)

text \<open>The table of device traits keeps the constructor's assertion (a device that is not virtual says whether it
  is wireless); a lookup never changes the traits of a known class, and a second lookup of the same class gives the same
  traits without a warning.\<close>

theorem lookup_traits_stable:
  assumes "traits_ok table" "lookup_netdevice_traits c table = (t, table', warned)"
  shows "traits_ok table' \<and> (is_virtual t \<or> is_wireless t \<noteq> None)
    \<and> lookup_netdevice_traits c table' = (t, table', False)
    \<and> (\<forall>d. map_of table d \<noteq> None \<longrightarrow> map_of table' d = map_of table d)"
proof (cases "map_of table c")
  case None
  then have t: "t = \<lparr>is_wireless = Some True, is_virtual = False\<rparr>" "table' = AList.update c t table"
    using assms(2) by (auto simp: lookup_netdevice_traits_def Let_def)
  have "set (AList.update c t table) \<subseteq> insert (c, t) (set table)" by (induction table) auto
  then have mem: "x = (c, t) \<or> x \<in> set table" if "x \<in> set table'" for x using that t(2) by blast
  have "traits_ok table'" unfolding traits_ok_def
  proof
    fix x
    assume "x \<in> set table'"
    then show "case x of (c, t) \<Rightarrow> is_virtual t \<or> is_wireless t \<noteq> None"
      using mem [of x] assms(1) t(1) by (auto simp: traits_ok_def)
  qed
  then show ?thesis using t None by (auto simp: lookup_netdevice_traits_def update_conv)
next
  case (Some u)
  then show ?thesis using assms map_of_SomeD [OF Some] by (auto simp: traits_ok_def lookup_netdevice_traits_def)
qed

theorem lookup_traits_stable_witness:
  "\<exists>t table' warned. lookup_netdevice_traits ''LrWpanNetDevice'' netdevice_traits = (t, table', warned)
    \<and> traits_ok table' \<and> lookup_netdevice_traits ''LrWpanNetDevice'' table' = (t, table', False)"
  using lookup_traits_stable [OF netdevice_traits_ok, of "''LrWpanNetDevice''"]
  by (metis prod_cases3)

theorem transform_round_trips:
  "transform_distance_canvas_to_simulation (transform_distance_simulation_to_canvas d) = d
    \<and> transform_distance_simulation_to_canvas (transform_distance_canvas_to_simulation d) = d
    \<and> (case transform_point_simulation_to_canvas x y of (cx, cy) \<Rightarrow> transform_point_canvas_to_simulation cx cy) = (x, y)
    \<and> (case transform_point_canvas_to_simulation x y of (sx, sy) \<Rightarrow> transform_point_simulation_to_canvas sx sy) = (x, y)"
  by (simp add: transform_distance_canvas_to_simulation_def transform_distance_simulation_to_canvas_def
      transform_point_simulation_to_canvas_def transform_point_canvas_to_simulation_def PIXELS_PER_METER_def)

section \<open>Loading plugins\<close>

text \<open>The modules of a listing that end up registered.\<close>

definition registers :: "(string \<Rightarrow> plugin_import) \<Rightarrow> string \<Rightarrow> bool" where
  "registers import f \<longleftrightarrow> snd (splitext f) = ''.py'' \<and> import (fst (splitext f)) = HasRegister True"

definition import_ok :: "(string \<Rightarrow> plugin_import) \<Rightarrow> string \<Rightarrow> bool" where
  "import_ok import f \<longleftrightarrow> snd (splitext f) = ''.py'' \<longrightarrow>
     (case import (fst (splitext f)) of ImportRaises e \<Rightarrow> False | HasRegister callable \<Rightarrow> callable | _ \<Rightarrow> True)"

lemma load_plugin_ok:
  "import_ok import f \<Longrightarrow> fst (load_plugin import f st) = Inr () \<and>
    plugins (snd (load_plugin import f st)) = plugins st @ (if registers import f then [fst (splitext f)] else [])
    \<and> plugins_loaded (snd (load_plugin import f st)) = plugins_loaded st \<and> sys_path (snd (load_plugin import f st)) = sys_path st"
  by (auto simp: load_plugin_def import_ok_def registers_def register_plugin_def split: prod.splits plugin_import.splits)

lemma load_files_ok:
  "list_all (import_ok import) fs \<Longrightarrow> \<exists>st'. load_files import fs st = (Inr (), st')
    \<and> plugins st' = plugins st @ map (\<lambda>f. fst (splitext f)) (filter (registers import) fs)
    \<and> plugins_loaded st' = plugins_loaded st \<and> sys_path st' = sys_path st"
proof (induction fs arbitrary: st)
  case (Cons f fs)
  obtain st1 where st1: "load_plugin import f st = (Inr (), st1)"
    using load_plugin_ok [of import f st] Cons.prems by (cases "load_plugin import f st") auto
  obtain st' where "load_files import fs st1 = (Inr (), st')"
    "plugins st' = plugins st1 @ map (\<lambda>f. fst (splitext f)) (filter (registers import) fs)"
    "plugins_loaded st' = plugins_loaded st1" "sys_path st' = sys_path st1" using Cons by auto
  then show ?case using st1 load_plugin_ok [of import f st] Cons.prems by auto
qed simp

text \<open>Unless a plugin fails with something other than \<^verbatim>\<open>ImportError\<close>, the first call of \<^verbatim>\<open>load_plugins\<close> registers, in the order of
  the listing, exactly the Python files that can be imported and have a \<^verbatim>\<open>register\<close>, and restores the search path; a second
  call does nothing. If a plugin does fail, the search path keeps the plugin directory and no later call loads the rest.\<close>

theorem load_plugins_once:
  assumes "\<not> plugins_loaded st" "load_plugins import dir listing st = (r, st')"
  shows "load_plugins import dir listing' st' = (Inr (), st')
    \<and> (list_all (import_ok import) listing \<longrightarrow> r = Inr () \<and> sys_path st' = sys_path st
         \<and> plugins st' = plugins st @ map (\<lambda>f. fst (splitext f)) (filter (registers import) listing))
    \<and> (r \<noteq> Inr () \<longrightarrow> sys_path st' = dir # sys_path st)"
proof -
  have keeps: "plugins_loaded (snd (load_files import fs s)) = plugins_loaded s \<and> sys_path (snd (load_files import fs s)) = sys_path s"
    for fs s
    by (induction fs arbitrary: s)
      (auto simp: load_plugin_def register_plugin_def split: prod.splits plugin_import.splits sum.splits option.splits)
  let ?st1 = "st\<lparr>plugins_loaded := True, sys_path := dir # sys_path st\<rparr>"
  obtain r1 st2 where run: "load_files import listing ?st1 = (r1, st2)" by fastforce
  then have "plugins_loaded st2" "sys_path st2 = dir # sys_path st" using keeps [of listing ?st1] by auto
  moreover have "(r, st') = (case r1 of Inl e \<Rightarrow> (Inl e, st2) | Inr u \<Rightarrow> (Inr (), st2\<lparr>sys_path := sys_path st\<rparr>))"
    using assms run by (simp add: load_plugins_def split: sum.splits)
  ultimately show ?thesis
    using load_files_ok [of import listing ?st1] run by (auto simp: load_plugins_def split: sum.splits)
qed

definition no_plugins :: plugin_state where
  "no_plugins = \<lparr>plugins = [], plugin_modules = [], plugins_loaded = False, sys_path = []\<rparr>"

theorem load_plugins_once_witness:
  "load_plugins (\<lambda>n. HasRegister True) ''plugins'' []
     (snd (load_plugins (\<lambda>n. HasRegister True) ''plugins'' [''olsr.py'', ''README''] no_plugins))
   = (Inr (), snd (load_plugins (\<lambda>n. HasRegister True) ''plugins'' [''olsr.py'', ''README''] no_plugins))"
proof -
  obtain r st' where run: "load_plugins (\<lambda>n. HasRegister True) ''plugins'' [''olsr.py'', ''README''] no_plugins = (r, st')"
    by fastforce
  have "\<not> plugins_loaded no_plugins" by (simp add: no_plugins_def)
  then show ?thesis using load_plugins_once [OF _ run, of "[]"] run by simp
qed

section \<open>Images\<close>

text \<open>The size of an item is its natural size, scaled.\<close>

definition svg_ok :: "svg_item \<Rightarrow> bool" where
  "svg_ok s \<longleftrightarrow> svg_width s = svg_sx s * h_width (svg_handle_of s) \<and> svg_height s = svg_sy s * h_height (svg_handle_of s)
     \<and> h_width (svg_handle_of s) \<noteq> 0 \<and> h_height (svg_handle_of s) \<noteq> 0"

lemma size_changed_ok:
  assumes "svg_ok s"
  shows "\<exists>s'. size_changed s = (Inr (), s') \<and> svg_ok s' \<and> svg_handle_of s' = svg_handle_of s
    \<and> custom_width s' = custom_width s \<and> custom_height s' = custom_height s \<and> svg_x s' = svg_x s \<and> svg_y s' = svg_y s
    \<and> (\<forall>w. custom_width s = Some w \<longrightarrow> svg_width s' = w) \<and> (\<forall>h. custom_height s = Some h \<longrightarrow> svg_height s' = h)
    \<and> (custom_width s = None \<or> custom_height s = None \<longrightarrow> svg_sx s' = svg_sy s')"
  using assms
  by (cases "custom_width s"; cases "custom_height s")
    (auto simp: size_changed_def svg_ok_def py_div_def Let_def)

text \<open>For an image whose natural size is not zero, setting \<^verbatim>\<open>x\<close>, \<^verbatim>\<open>y\<close>, \<^verbatim>\<open>width\<close> or \<^verbatim>\<open>height\<close> succeeds and gives the item the
  size that was set last, with the natural proportions while only one of the two is set; the painted image then
  fills exactly the bounds of the item. But reading \<^verbatim>\<open>width\<close> returns the natural width and resets the size, not the scale.\<close>

theorem svg_property_sizes:
  assumes "svg_ok s" "name \<in> {''x'', ''y'', ''width'', ''height''}"
  shows "\<exists>s'. do_set_property name v s = (Inr (), s') \<and> svg_ok s'
    \<and> (name = ''width'' \<longrightarrow> svg_width s' = v) \<and> (name = ''height'' \<longrightarrow> svg_height s' = v)
    \<and> (name \<in> {''width'', ''height''} \<and> (custom_width s' = None \<or> custom_height s' = None) \<longrightarrow> svg_sx s' = svg_sy s')
    \<and> do_simple_update s' = (let (x1, y1) = do_simple_paint s' (0, 0);
          (x2, y2) = do_simple_paint s' (h_width (svg_handle_of s'), h_height (svg_handle_of s')) in (x1, y1, x2, y2))
    \<and> fst (do_get_property ''width'' s') = Inr (h_width (svg_handle_of s'))
    \<and> (svg_sx s' \<noteq> 1 \<longrightarrow> \<not> svg_ok (snd (do_get_property ''width'' s')))"
proof -
  have painted: "do_simple_update s' = (let (x1, y1) = do_simple_paint s' (0, 0);
      (x2, y2) = do_simple_paint s' (h_width (svg_handle_of s'), h_height (svg_handle_of s')) in (x1, y1, x2, y2))"
    if "svg_ok s'" for s' using that by (simp add: svg_ok_def do_simple_update_def do_simple_paint_def)
  have broken: "svg_sx s' \<noteq> 1 \<longrightarrow> \<not> svg_ok (snd (do_get_property ''width'' s'))" if "svg_ok s'" for s'
    using that by (auto simp: svg_ok_def do_get_property_def Let_def)
  obtain s' where s': "do_set_property name v s = (Inr (), s') \<and> svg_ok s'
    \<and> (name = ''width'' \<longrightarrow> svg_width s' = v) \<and> (name = ''height'' \<longrightarrow> svg_height s' = v)
    \<and> (name \<in> {''width'', ''height''} \<and> (custom_width s' = None \<or> custom_height s' = None) \<longrightarrow> svg_sx s' = svg_sy s')"
    using assms size_changed_ok [of "s\<lparr>custom_width := Some v\<rparr>"] size_changed_ok [of "s\<lparr>custom_height := Some v\<rparr>"]
    by (auto simp: do_set_property_def svg_ok_def)
  moreover have "fst (do_get_property ''width'' s') = Inr (h_width (svg_handle_of s'))"
    by (simp add: do_get_property_def Let_def)
  ultimately show ?thesis using painted broken by (intro exI [of _ s']) blast
qed

theorem svg_property_sizes_witness:
  "\<exists>s'. do_set_property ''width'' 24 (new_svg_item 0 0 \<lparr>h_width = 48, h_height = 60\<rparr>) = (Inr (), s') \<and> svg_ok s' \<and> svg_width s' = 24"
  using svg_property_sizes [of "new_svg_item 0 0 \<lparr>h_width = 48, h_height = 60\<rparr>" "''width''" 24]
  by (auto simp: svg_ok_def new_svg_item_def)

theorem is_item_at_bounds:
  "do_simple_is_item_at s x y = (case do_simple_update s of (x1, y1, x2, y2) \<Rightarrow> x1 \<le> x \<and> x \<le> x2 \<and> y1 \<le> y \<and> y \<le> y2)"
  by (auto simp: do_simple_is_item_at_def do_simple_update_def)

theorem rsvg_cache_stable:
  "rsvg_handle_factory load f cache = (Inr h, cache') \<Longrightarrow> rsvg_handle_factory load' f cache' = (Inr h, cache')"
  by (auto simp: rsvg_handle_factory_def update_conv split: option.splits sum.splits)

end
