(* ===== verification/Viz_Hud.thy ===== *)
theory Viz_Hud
  imports Viz_Base
begin

text \<open>
  The axes of the visualizer, \<^verbatim>\<open>src/visualizer/visualizer/hud.py\<close>: the choice of the divisions and the redrawing of both
  axes with a pool of labels that is kept between redraws. The scroll adjustments, the zoom and the canvas'
  conversion from pixels are arguments. Floats are exact rationals; \<^verbatim>\<open>rint(math.log10(q))\<close> is computed exactly.
\<close>

section \<open>Divisions\<close>

text \<open>The power of ten nearest to a positive number on the logarithmic scale, by repeated scaling.\<close>

function log_up :: "rat \<Rightarrow> int" where
  "log_up q = (if 10 \<le> q * q \<and> 0 < q then log_up (q / 10) + 1 else 0)"
  by pat_completeness auto

lemma root_ten: "0 < (q :: rat) \<Longrightarrow> 10 \<le> q * q \<Longrightarrow> 3 < q"
  by (rule ccontr) (use mult_mono [of q 3 q 3] in auto)

termination log_up
proof (relation "measure (\<lambda>q. nat \<lfloor>q\<rfloor>)")
  fix q :: rat
  assume "10 \<le> q * q \<and> 0 < q"
  then have "3 < q" using root_ten by blast
  then have "q / 10 + 1 < q" by simp
  then have "\<lfloor>q / 10\<rfloor> + 1 \<le> \<lfloor>q\<rfloor>" by (metis floor_add_int floor_mono less_imp_le of_int_1)
  moreover have "0 \<le> \<lfloor>q / 10\<rfloor>" using \<open>3 < q\<close> by simp
  ultimately have "nat \<lfloor>q / 10\<rfloor> < nat \<lfloor>q\<rfloor>" unfolding nat_less_eq_zless by linarith
  then show "(q / 10, q) \<in> measure (\<lambda>q. nat \<lfloor>q\<rfloor>)" unfolding in_measure .
qed simp

function log_down :: "rat \<Rightarrow> int" where
  "log_down q = (if 10 * (q * q) < 1 \<and> 0 < q then log_down (q * 10) - 1 else 0)"
  by pat_completeness auto

termination log_down
proof (relation "measure (\<lambda>q. nat \<lfloor>1 / q\<rfloor>)")
  fix q :: rat
  assume q: "10 * (q * q) < 1 \<and> 0 < q"
  then have "10 \<le> (1 / q) * (1 / q)" by (simp add: field_simps)
  then have "3 < 1 / q" using root_ten [of "1 / q"] q by simp
  then have "1 / (q * 10) + 1 < 1 / q" using q by (simp add: field_simps)
  then have "\<lfloor>1 / (q * 10)\<rfloor> + 1 \<le> \<lfloor>1 / q\<rfloor>" by (metis floor_add_int floor_mono less_imp_le of_int_1)
  moreover have "0 \<le> \<lfloor>1 / (q * 10)\<rfloor>" using q by simp
  ultimately have "nat \<lfloor>1 / (q * 10)\<rfloor> < nat \<lfloor>1 / q\<rfloor>" unfolding nat_less_eq_zless by linarith
  then show "(q * 10, q) \<in> measure (\<lambda>q. nat \<lfloor>1 / q\<rfloor>)" unfolding in_measure .
qed simp

declare log_up.simps [simp del] log_down.simps [simp del]

definition rint_log10 :: "rat \<Rightarrow> int" where
  "rint_log10 q = (if 10 \<le> q * q then log_up q else log_down q)"

definition rint :: "rat \<Rightarrow> int" where
  "rint x = \<lfloor>x + 1 / 2\<rfloor>"

text \<open>One pass of the loop, on \<open>(x0, div, ndiv)\<close>.\<close>

definition division_pass :: "rat \<Rightarrow> rat \<Rightarrow> rat \<Rightarrow> rat \<Rightarrow> nat \<Rightarrow> rat \<times> rat \<times> int \<Rightarrow> rat \<times> rat \<times> int" where
  "division_pass xi extent text_width dx_over_ndiv n st =
     (case st of (_, _, ndiv) \<Rightarrow>
        let dv = 10 powi rint_log10 dx_over_ndiv;
            dv = (if \<bar>dv / 2 - dx_over_ndiv\<bar> < \<bar>dv - dx_over_ndiv\<bar> then dv / 2
                   else if \<bar>dv * 2 - dx_over_ndiv\<bar> < \<bar>dv - dx_over_ndiv\<bar> then dv * 2 else dv);
            x0 = dv * of_int \<lceil>xi / dv\<rceil> - dv
        in (x0, dv, if 1 < n then rint (extent / text_width) else ndiv))"

definition compute_divisions :: "rat \<Rightarrow> rat \<Rightarrow> (rat \<times> rat) res" where
  "compute_divisions xi xf =
     (if \<not> xi < xf then Inl AssertionError
      else let dx = xf - xi; extent = dx; ndiv = 5; text_width = dx / of_int ndiv / 2; dx_over_ndiv = dx / of_int ndiv
           in (case fold (division_pass xi extent text_width dx_over_ndiv) [0..<5] (0, 0, ndiv) of
                 (x0, dv, _) \<Rightarrow> Inr (x0, dv)))"

section \<open>The axes\<close>

record hud_label =
  l_id :: nat
  l_visible :: bool
  l_text :: rat
  l_font :: int
  l_x :: rat
  l_y :: rat

type_synonym segment = "(rat \<times> rat) \<times> (rat \<times> rat)"

record axes =
  hlines :: "segment list"
  vlines :: "segment list"
  labels :: "hud_label list"
  axes_visible :: bool
  line_width :: rat
  label_count :: nat

text \<open>What the axes read from the visualizer: the adjustments (value and page size), the zoom once it is there, and
  the conversion of pixels.\<close>

record hud_view =
  hadj :: "rat \<times> rat"
  vadj :: "rat \<times> rat"
  zoom_of :: "rat option"
  from_pixels :: "rat \<times> rat \<Rightarrow> rat \<times> rat"

definition new_axes :: axes where
  "new_axes = \<lparr>hlines = [], vlines = [], labels = [], axes_visible = True, line_width = 0, label_count = 0\<rparr>"

definition set_visible :: "bool \<Rightarrow> axes \<Rightarrow> axes" where
  "set_visible v ax =
     (if v then ax\<lparr>axes_visible := True\<rparr>
      else ax\<lparr>axes_visible := False, labels := map (\<lambda>l. l\<lparr>l_visible := False\<rparr>) (labels ax)\<rparr>)"

text \<open>\<^verbatim>\<open>get_label\<close> takes a label from the pool or makes a new one; \<^verbatim>\<open>set_properties\<close> follows at once.\<close>

definition draw_label ::
    "int \<Rightarrow> rat \<Rightarrow> rat \<times> rat \<Rightarrow> hud_label list \<times> hud_label list \<times> nat \<Rightarrow> hud_label list \<times> hud_label list \<times> nat" where
  "draw_label font v pos st =
     (case st of (unused, used, made) \<Rightarrow>
        case unused of
          [] \<Rightarrow> ([], used @ [\<lparr>l_id = made, l_visible = True, l_text = v, l_font = font, l_x = fst pos, l_y = snd pos\<rparr>], made + 1)
        | l # unused' \<Rightarrow>
            (unused', used @ [l\<lparr>l_visible := True, l_text := v, l_font := font, l_x := fst pos, l_y := snd pos\<rparr>], made))"

text \<open>One axis: the path of its line and ticks, and its labels. \<open>None\<close>: the loop over the ticks does not end.\<close>

definition draw_axis ::
    "int \<Rightarrow> rat \<Rightarrow> rat \<Rightarrow> (rat \<Rightarrow> rat \<times> rat) \<Rightarrow> hud_label list \<times> hud_label list \<times> nat
      \<Rightarrow> (rat list \<times> hud_label list \<times> hud_label list \<times> nat) res option" where
  "draw_axis font lo hi pos st =
     (case compute_divisions lo hi of
        Inl e \<Rightarrow> Some (Inl e)
      | Inr (x0, dv) \<Rightarrow>
          map_option (\<lambda>ticks. Inr (ticks, fold (\<lambda>x. draw_label font x (pos x)) ticks st)) (step_loop x0 hi dv))"

definition update_view :: "hud_view \<Rightarrow> axes \<Rightarrow> axes res option" where
  "update_view vz ax =
     (case zoom_of vz of
        None \<Rightarrow> Some (Inr ax)
      | Some zoom \<Rightarrow>
          if zoom = 0 then Some (Inl ZeroDivisionError)
          else let unused = map (\<lambda>l. l\<lparr>l_visible := False\<rparr>) (labels ax);
                   offset = 10 / zoom; lw = 5 / zoom; font = py_trunc (12 / zoom);
                   (x1, y1) = from_pixels vz (fst (hadj vz), fst (vadj vz));
                   (x2, y2) = from_pixels vz (fst (hadj vz) + snd (hadj vz), fst (vadj vz) + snd (vadj vz));
                   yc = y2 - lw / 2; xc = x1 + lw / 2
               in Option.bind (draw_axis font (x1 / PIXELS_PER_METER) (x2 / PIXELS_PER_METER)
                      (\<lambda>x. (PIXELS_PER_METER * x, yc - offset)) (unused, [], label_count ax)) (\<lambda>h.
                  case h of
                    Inl e \<Rightarrow> Some (Inl e)
                  | Inr (xs, st) \<Rightarrow>
                      Option.bind (draw_axis font (y1 / PIXELS_PER_METER) (y2 / PIXELS_PER_METER)
                        (\<lambda>y. (xc + offset, PIXELS_PER_METER * y)) st) (\<lambda>v.
                      case v of
                        Inl e \<Rightarrow> Some (Inl e)
                      | Inr (ys, rest, used, made) \<Rightarrow> Some (Inr (ax\<lparr>
                          hlines := ((x1, yc), (x2, yc)) # map (\<lambda>x. ((PIXELS_PER_METER * x, yc - offset), (PIXELS_PER_METER * x, yc))) xs,
                          vlines := ((xc, y1), (xc, y2)) # map (\<lambda>y. ((xc, PIXELS_PER_METER * y), (xc + offset, PIXELS_PER_METER * y))) ys,
                          labels := used @ rest, line_width := lw, label_count := made\<rparr>)))))"

text \<open>The handler of the adjustments' signals.\<close>

definition on_adjustment :: "hud_view \<Rightarrow> axes \<Rightarrow> axes res option" where
  "on_adjustment vz ax = (if axes_visible ax then update_view vz ax else Some (Inr ax))"

section \<open>The size of a division\<close>

lemma log_up_range:
  "0 < q \<Longrightarrow> 1 \<le> 10 * (q * q) \<Longrightarrow> \<exists>m. q = m * 10 powi log_up q \<and> 1 \<le> 10 * (m * m) \<and> m * m < 10 \<and> 0 < m"
proof (induction q rule: log_up.induct)
  case (1 q)
  show ?case
  proof (cases "10 \<le> q * q")
    case True
    then have "1 \<le> 10 * (q / 10 * (q / 10))" by simp
    then obtain m where "q / 10 = m * 10 powi log_up (q / 10)" "1 \<le> 10 * (m * m)" "m * m < 10" "0 < m"
      using 1 True by auto
    then show ?thesis using True 1(2) by (intro exI [of _ m]) (simp add: log_up.simps [of q] power_int_add field_simps)
  next
    case False
    then show ?thesis using 1 by (intro exI [of _ q]) (simp add: log_up.simps [of q])
  qed
qed

lemma log_down_range:
  "0 < q \<Longrightarrow> q * q < 10 \<Longrightarrow> \<exists>m. q = m * 10 powi log_down q \<and> 1 \<le> 10 * (m * m) \<and> m * m < 10 \<and> 0 < m"
proof (induction q rule: log_down.induct)
  case (1 q)
  show ?case
  proof (cases "10 * (q * q) < 1")
    case True
    then have "q * 10 * (q * 10) < 10" by simp
    then obtain m where "q * 10 = m * 10 powi log_down (q * 10)" "1 \<le> 10 * (m * m)" "m * m < 10" "0 < m"
      using 1 True by auto
    then show ?thesis using True 1(2) by (intro exI [of _ m]) (simp add: log_down.simps [of q] power_int_diff field_simps)
  next
    case False
    then show ?thesis using 1 by (intro exI [of _ q]) (simp add: log_down.simps [of q])
  qed
qed

lemma rint_log10_range:
  assumes "0 < q"
  shows "\<exists>m. q = m * 10 powi rint_log10 q \<and> 1 \<le> 10 * (m * m) \<and> m * m < 10 \<and> 0 < m"
proof (cases "10 \<le> q * q")
  case True
  then show ?thesis using log_up_range [OF assms] by (auto simp: rint_log10_def)
next
  case False
  then show ?thesis using log_down_range [OF assms] by (auto simp: rint_log10_def)
qed

text \<open>The size of a division, written once: every pass of the loop computes it from the same numbers.\<close>

definition division_size :: "rat \<Rightarrow> rat" where
  "division_size q =
     (let dv = 10 powi rint_log10 q
      in if \<bar>dv / 2 - q\<bar> < \<bar>dv - q\<bar> then dv / 2 else if \<bar>dv * 2 - q\<bar> < \<bar>dv - q\<bar> then dv * 2 else dv)"

lemma division_pass_eq:
  "division_pass xi extent w q n (x0, dv, k) =
    (division_size q * of_int \<lceil>xi / division_size q\<rceil> - division_size q, division_size q,
     if 1 < n then rint (extent / w) else k)"
  by (simp add: division_pass_def division_size_def Let_def)

lemma compute_divisions_eq:
  assumes "xi < xf"
  defines "dv \<equiv> division_size ((xf - xi) / 5)"
  shows "compute_divisions xi xf = Inr (dv * of_int \<lceil>xi / dv\<rceil> - dv, dv)"
  using assms by (simp add: compute_divisions_def division_pass_eq Let_def upt_rec)

lemma division_size_bounds:
  assumes "0 < q"
  shows "0 < division_size q \<and> 2 * (q * q) \<le> 5 * (division_size q * division_size q)
    \<and> 2 * (division_size q * division_size q) \<le> 5 * (q * q)"
proof -
  define P where "P = (10 :: rat) powi rint_log10 q"
  obtain m where m: "q = m * P" "1 \<le> 10 * (m * m)" "m * m < 10" "0 < m"
    using rint_log10_range [OF assms] by (auto simp: P_def)
  have P: "0 < P" by (simp add: P_def)
  have abs_scale: "\<bar>c * P - m * P\<bar> = \<bar>c - m\<bar> * P" for c using P by (simp add: abs_mult flip: left_diff_distrib)
  define c :: rat where "c = (if \<bar>1 / 2 - m\<bar> < \<bar>1 - m\<bar> then 1 / 2 else if \<bar>2 - m\<bar> < \<bar>1 - m\<bar> then 2 else 1)"
  have dv: "division_size q = c * P"
  proof -
    have cmp: "\<bar>a * P - m * P\<bar> < \<bar>b * P - m * P\<bar> \<longleftrightarrow> \<bar>a - m\<bar> < \<bar>b - m\<bar>" for a b
      unfolding abs_scale using P by (rule mult_less_cancel_right_pos)
    have "P / 2 = 1 / 2 * P" "P * 2 = 2 * P" "P = 1 * P" by simp_all
    then have half: "\<bar>P / 2 - q\<bar> < \<bar>P - q\<bar> \<longleftrightarrow> \<bar>1 / 2 - m\<bar> < \<bar>1 - m\<bar>"
      and double: "\<bar>P * 2 - q\<bar> < \<bar>P - q\<bar> \<longleftrightarrow> \<bar>2 - m\<bar> < \<bar>1 - m\<bar>"
      using cmp [of "1 / 2" 1] cmp [of 2 1] m(1) by metis+
    show ?thesis unfolding division_size_def Let_def P_def [symmetric] half double c_def
      by (cases "\<bar>1 / 2 - m\<bar> < \<bar>1 - m\<bar>"; cases "\<bar>2 - m\<bar> < \<bar>1 - m\<bar>"; simp only: if_True if_False; simp)
  qed
  have c: "0 < c \<and> 2 * (m * m) \<le> 5 * (c * c) \<and> 2 * (c * c) \<le> 5 * (m * m)"
  proof -
    consider "m < 3 / 4" | "3 / 4 \<le> m" "m \<le> 3 / 2" | "3 / 2 < m" by linarith
    then show ?thesis
    proof cases
      case 1
      then have "m * m \<le> 3 / 4 * (3 / 4)" using m(4) by (intro mult_mono) auto
      then show ?thesis using 1 m by (auto simp: c_def abs_if)
    next
      case 2
      then have "m * m \<le> 3 / 2 * (3 / 2)" "3 / 4 * (3 / 4) \<le> m * m" by (intro mult_mono; simp)+
      then show ?thesis using 2 by (auto simp: c_def abs_if)
    next
      case 3
      then have "3 / 2 * (3 / 2) \<le> m * m" by (intro mult_mono) auto
      then show ?thesis using 3 m by (auto simp: c_def abs_if)
    qed
  qed
  have "2 * (m * m) * (P * P) \<le> 5 * (c * c) * (P * P)" "2 * (c * c) * (P * P) \<le> 5 * (m * m) * (P * P)"
    using c P by (auto intro!: mult_right_mono)
  then have "2 * (m * P * (m * P)) \<le> 5 * (c * P * (c * P))" "2 * (c * P * (c * P)) \<le> 5 * (m * P * (m * P))"
    by (simp_all only: mult.assoc mult.left_commute mult.commute)
  then show ?thesis using c P unfolding dv unfolding m(1) by simp
qed

lemma square_root_le: "0 < (b :: rat) \<Longrightarrow> a * a \<le> b * b \<Longrightarrow> a \<le> b"
  by (metis abs_le_square_iff abs_of_pos abs_ge_self order_trans power2_eq_square)

lemma division_size_ratio:
  assumes "0 < q"
  shows "q \<le> 8 / 5 * division_size q \<and> 3 / 5 * division_size q \<le> q"
proof -
  note b = division_size_bounds [OF assms]
  let ?d = "division_size q"
  have "q * q \<le> 8 / 5 * ?d * (8 / 5 * ?d)" "3 / 5 * ?d * (3 / 5 * ?d) \<le> q * q"
    using b mult_nonneg_nonneg [of ?d ?d] by auto
  then show ?thesis using square_root_le [of "8 / 5 * ?d" q] square_root_le [of q "3 / 5 * ?d"] b assms by auto
qed

lemma divisions_bounds:
  assumes "xi < xf"
  shows "\<exists>x0 dv. compute_divisions xi xf = Inr (x0, dv) \<and> 0 < dv \<and> (\<exists>k. x0 = of_int k * dv) \<and> x0 < xi \<and> xi \<le> x0 + dv
    \<and> (\<exists>ticks. step_loop x0 xf dv = Some ticks \<and> 4 \<le> length ticks \<and> length ticks \<le> 9)"
proof -
  let ?q = "(xf - xi) / 5"
  define dv where "dv = division_size ?q"
  define x0 where "x0 = dv * of_int \<lceil>xi / dv\<rceil> - dv"
  have q: "0 < ?q" using assms by simp
  have pos: "0 < dv" using division_size_bounds [OF q] by (simp add: dv_def)
  have r: "?q \<le> 8 / 5 * dv" "3 / 5 * dv \<le> ?q" using division_size_ratio [OF q] by (simp_all add: dv_def)
  have x: "x0 < xi" "xi \<le> x0 + dv"
    using ceiling_divide_upper [OF pos, of xi] ceiling_divide_lower [OF pos, of xi]
    by (simp_all add: x0_def algebra_simps)
  let ?n = "nat \<lceil>(xf - x0) / dv\<rceil>"
  have "xf - x0 \<le> 9 * dv" "3 * dv < xf - x0" using r x by simp_all
  then have "(xf - x0) / dv \<le> 9" "3 < (xf - x0) / dv" using pos by (simp_all add: field_simps)
  then have "\<lceil>(xf - x0) / dv\<rceil> \<le> 9" "4 \<le> \<lceil>(xf - x0) / dv\<rceil>" by (simp_all add: ceiling_le_iff le_ceiling_iff)
  then have n: "4 \<le> ?n" "?n \<le> 9" by linarith+
  have "compute_divisions xi xf = Inr (x0, dv)" using compute_divisions_eq [OF assms] by (simp add: x0_def dv_def)
  moreover have "x0 = of_int (\<lceil>xi / dv\<rceil> - 1) * dv" by (simp add: x0_def algebra_simps)
  then have "\<exists>k. x0 = of_int k * dv" by blast
  moreover note step_loop_positive [OF pos, of x0 xf]
  ultimately show ?thesis using pos x n by auto
qed

lemma division_size_shape: "\<exists>k. division_size q \<in> {10 powi k / 2, 10 powi k, 2 * 10 powi k}"
  by (rule exI [of _ "rint_log10 q"]) (simp add: division_size_def Let_def)

lemma multiples_in_range:
  fixes dv :: rat
  assumes "0 < dv" "xi < xf"
  defines "x0 \<equiv> dv * of_int \<lceil>xi / dv\<rceil> - dv"
  shows "(\<lambda>k. x0 + of_nat k * dv) ` {1..<nat \<lceil>(xf - x0) / dv\<rceil>} = {x. \<exists>j. x = of_int j * dv \<and> xi \<le> x \<and> x < xf}"
proof -
  let ?c = "\<lceil>xi / dv\<rceil>" and ?n = "\<lceil>(xf - x0) / dv\<rceil>"
  have x0: "x0 = of_int (?c - 1) * dv" by (simp add: x0_def algebra_simps)
  have lower: "xi \<le> of_int j * dv \<longleftrightarrow> ?c \<le> j" for j using assms(1) by (simp add: ceiling_le_iff pos_divide_le_eq)
  have upper: "of_int j * dv < xf \<longleftrightarrow> j - (?c - 1) < ?n" for j
    using assms(1) by (simp add: less_ceiling_iff x0 pos_less_divide_eq) (simp add: algebra_simps)
  have point: "x0 + of_nat k * dv = of_int (?c - 1 + int k) * dv" for k by (simp add: x0 algebra_simps)
  show ?thesis
  proof (intro equalityI subsetI)
    fix x assume "x \<in> (\<lambda>k. x0 + of_nat k * dv) ` {1..<nat ?n}"
    then obtain k where k: "1 \<le> k" "int k < ?n" "x = x0 + of_nat k * dv" by auto
    then have "xi \<le> of_int (?c - 1 + int k) * dv" "of_int (?c - 1 + int k) * dv < xf" unfolding lower upper by simp_all
    then show "x \<in> {x. \<exists>j. x = of_int j * dv \<and> xi \<le> x \<and> x < xf}" using k(3) unfolding point by blast
  next
    fix x assume "x \<in> {x. \<exists>j. x = of_int j * dv \<and> xi \<le> x \<and> x < xf}"
    then obtain j where j: "x = of_int j * dv" "?c \<le> j" "j - (?c - 1) < ?n" using lower upper by blast
    then have "x = x0 + of_nat (nat (j - (?c - 1))) * dv" unfolding point by simp
    moreover have "1 \<le> nat (j - (?c - 1))" "nat (j - (?c - 1)) < nat ?n" using j(2,3) by linarith+
    then have "nat (j - (?c - 1)) \<in> {1..<nat ?n}" by (simp only: atLeastLessThan_iff simp_thms)
    ultimately show "x \<in> (\<lambda>k. x0 + of_nat k * dv) ` {1..<nat ?n}" by blast
  qed
qed

text \<open>C14: For every visible range that is not empty the length of a division is half of, once or twice a power of ten, and the loop that draws
  the axis ends. Its ticks are, in ascending order, one tick outside the range, within one length to the left of it, and then exactly the
  multiples of the length inside the range, of which there are between three and eight.\<close>

theorem divisions_exact:
  assumes "xi < xf"
  shows "\<exists>x0 dv ticks. compute_divisions xi xf = Inr (x0, dv) \<and> (\<exists>k. dv \<in> {10 powi k / 2, 10 powi k, 2 * 10 powi k})
    \<and> step_loop x0 xf dv = Some (x0 # ticks) \<and> sorted_wrt (<) (x0 # ticks) \<and> x0 < xi \<and> xi \<le> x0 + dv
    \<and> set ticks = {x. \<exists>j. x = of_int j * dv \<and> xi \<le> x \<and> x < xf} \<and> 3 \<le> length ticks \<and> length ticks \<le> 8"
proof -
  obtain x0 dv ticks where d: "compute_divisions xi xf = Inr (x0, dv)" "0 < dv" "x0 < xi" "xi \<le> x0 + dv"
    "step_loop x0 xf dv = Some ticks" "4 \<le> length ticks" "length ticks \<le> 9"
    using divisions_bounds [OF assms] by blast
  let ?n = "nat \<lceil>(xf - x0) / dv\<rceil>" and ?f = "\<lambda>k. x0 + of_nat k * dv"
  have ticks: "ticks = map ?f [0..<?n]" using d(5) step_loop_positive [OF d(2)] by simp
  have n: "4 \<le> ?n" "?n \<le> 9" using d(6,7) ticks by simp_all
  have "0 < ?n" using n(1) by linarith
  then have "[0..<?n] = 0 # [1..<?n]" unfolding One_nat_def by (rule upt_conv_Cons)
  then have split: "ticks = x0 # map ?f [1..<?n]" using ticks by simp
  have dv: "dv = division_size ((xf - xi) / 5)" "x0 = dv * of_int \<lceil>xi / dv\<rceil> - dv"
    using d(1) compute_divisions_eq [OF assms] by auto
  have "sorted_wrt (<) ticks" unfolding ticks by (simp add: sorted_wrt_iff_nth_less d(2))
  moreover have "set (map ?f [1..<?n]) = {x. \<exists>j. x = of_int j * dv \<and> xi \<le> x \<and> x < xf}"
    using multiples_in_range [OF d(2) assms] dv(2) by simp
  moreover have "\<exists>k. dv \<in> {10 powi k / 2, 10 powi k, 2 * 10 powi k}" unfolding dv(1) by (rule division_size_shape)
  moreover have "3 \<le> length (map ?f [1..<?n])" "length (map ?f [1..<?n]) \<le> 8" using n by simp_all
  ultimately show ?thesis using d(1,3,4,5) unfolding split by blast
qed

theorem divisions_exact_witness:
  "\<exists>x0 dv ticks. compute_divisions (5 / 100) (165 / 100) = Inr (x0, dv) \<and> step_loop x0 (165 / 100) dv = Some (x0 # ticks)
    \<and> 3 \<le> length ticks"
  using divisions_exact [of "5 / 100" "165 / 100"] by fastforce

lemma of_rat_powi: "real_of_rat (10 powi n) = 10 powi n"
  by (cases n rule: int_cases2) (simp_all add: power_int_minus of_rat_power of_rat_inverse)

text \<open>The scaling loops compute the rounded logarithm.\<close>

theorem rint_log10_correct:
  assumes "0 < q"
  shows "rint_log10 q = \<lfloor>log 10 (real_of_rat q) + 1 / 2\<rfloor>"
proof -
  obtain m where m: "q = m * 10 powi rint_log10 q" "1 \<le> 10 * (m * m)" "m * m < 10" "0 < m"
    using rint_log10_range [OF assms] by blast
  let ?m = "real_of_rat m"
  have "real_of_rat 1 \<le> real_of_rat (10 * (m * m))" "real_of_rat (m * m) < real_of_rat 10" "0 < ?m"
    using m(2-4) by (simp_all only: of_rat_less_eq of_rat_less zero_less_of_rat_iff)
  then have "1 \<le> 10 * (?m * ?m)" "?m * ?m < 10" by (simp_all add: of_rat_mult)
  then have "log 10 1 \<le> log 10 (10 * (?m * ?m))" "log 10 (?m * ?m) < log 10 10"
    using \<open>0 < ?m\<close> by (auto intro!: log_mono log_less)
  then have l: "0 \<le> 1 + 2 * log 10 ?m" "2 * log 10 ?m < 1" using \<open>0 < ?m\<close> by (simp_all add: log_mult)
  have "real_of_rat q = ?m * 10 powi rint_log10 q"
    by (subst m(1)) (simp add: of_rat_mult of_rat_powi)
  then have "log 10 (real_of_rat q) = log 10 ?m + real_of_int (rint_log10 q)"
    using \<open>0 < ?m\<close> by (simp add: log_mult flip: powr_real_of_int')
  then show ?thesis using l by (intro floor_unique [symmetric]) simp_all
qed

section \<open>The pool of labels\<close>

lemma draw_label_simps:
  "draw_label font v pos ([], used, made) =
    ([], used @ [\<lparr>l_id = made, l_visible = True, l_text = v, l_font = font, l_x = fst pos, l_y = snd pos\<rparr>], made + 1)"
  "draw_label font v pos (l # rest, used, made) =
    (rest, used @ [l\<lparr>l_visible := True, l_text := v, l_font := font, l_x := fst pos, l_y := snd pos\<rparr>], made)"
  by (simp_all add: draw_label_def)

lemma draw_labels:
  "\<exists>new. fold (\<lambda>x. draw_label font x (pos x)) ticks (unused, used, made)
      = (drop (length ticks) unused, used @ new, made + (length ticks - length unused))
    \<and> map l_text new = ticks \<and> list_all l_visible new
    \<and> map l_id new = map l_id (take (length ticks) unused) @ [made ..< made + (length ticks - length unused)]"
proof (induction ticks arbitrary: unused used made)
  case (Cons x ticks)
  show ?case
  proof (cases unused)
    case Nil
    let ?l = "\<lparr>l_id = made, l_visible = True, l_text = x, l_font = font, l_x = fst (pos x), l_y = snd (pos x)\<rparr>"
    obtain new where "fold (\<lambda>x. draw_label font x (pos x)) ticks ([], used @ [?l], made + 1)
        = ([], (used @ [?l]) @ new, made + 1 + length ticks)"
      "map l_text new = ticks" "list_all l_visible new" "map l_id new = [made + 1 ..< made + 1 + length ticks]"
      using Cons [of "[]" "used @ [?l]" "made + 1"] by auto
    then show ?thesis using Nil by (intro exI [of _ "?l # new"]) (simp add: draw_label_simps upt_conv_Cons del: upt_Suc)
  next
    case (Cons l rest)
    let ?l = "l\<lparr>l_visible := True, l_text := x, l_font := font, l_x := fst (pos x), l_y := snd (pos x)\<rparr>"
    obtain new where "fold (\<lambda>x. draw_label font x (pos x)) ticks (rest, used @ [?l], made)
        = (drop (length ticks) rest, (used @ [?l]) @ new, made + (length ticks - length rest))"
      "map l_text new = ticks" "list_all l_visible new"
      "map l_id new = map l_id (take (length ticks) rest) @ [made ..< made + (length ticks - length rest)]"
      using Cons.IH [of rest "used @ [?l]" made] by auto
    then show ?thesis using \<open>unused = l # rest\<close> by (intro exI [of _ "?l # new"]) (simp add: draw_label_simps)
  qed
qed simp

lemma draw_axis_result:
  assumes "lo < hi"
  shows "\<exists>ticks st'. draw_axis font lo hi pos st = Some (Inr (ticks, st')) \<and> 4 \<le> length ticks \<and> length ticks \<le> 9
    \<and> st' = fold (\<lambda>x. draw_label font x (pos x)) ticks st"
proof -
  obtain x0 dv ticks where "compute_divisions lo hi = Inr (x0, dv)" "step_loop x0 hi dv = Some ticks"
    "4 \<le> length ticks" "length ticks \<le> 9" using divisions_bounds [OF assms] by blast
  then show ?thesis by (simp add: draw_axis_def)
qed

text \<open>The labels are numbered in the order in which they were made, and there are never more than both axes can use.\<close>

definition pool_ok :: "axes \<Rightarrow> bool" where
  "pool_ok ax \<longleftrightarrow> map l_id (labels ax) = [0..<label_count ax] \<and> label_count ax \<le> 18"

definition view_ok :: "hud_view \<Rightarrow> bool" where
  "view_ok vz \<longleftrightarrow> zoom_of vz \<noteq> Some 0 \<and>
     (case (from_pixels vz (fst (hadj vz), fst (vadj vz)),
            from_pixels vz (fst (hadj vz) + snd (hadj vz), fst (vadj vz) + snd (vadj vz))) of
        ((x1, y1), (x2, y2)) \<Rightarrow> x1 < x2 \<and> y1 < y2)"

lemma drop_drop_pool:
  fixes ls :: "hud_label list"
  assumes "map l_id a = map l_id (take i ls) @ [m ..< m + (i - length ls)]"
    and "map l_id b = map l_id (take j (drop i ls)) @ [m + (i - length ls) ..< m + (i - length ls) + (j - length (drop i ls))]"
  shows "map l_id (a @ b @ drop j (drop i ls)) = map l_id ls @ [m ..< m + (i + j - length ls)]"
proof -
  have parts: "map l_id (take i ls) @ map l_id (drop i ls) = map l_id ls"
    "map l_id (take j (drop i ls)) @ map l_id (drop j (drop i ls)) = map l_id (drop i ls)"
    by (metis append_take_drop_id map_append)+
  consider "i + j \<le> length ls" | "i \<le> length ls" "length ls < i + j" | "length ls < i" by linarith
  then show ?thesis
  proof cases
    case 1
    then show ?thesis using assms parts by simp
  next
    case 2
    then have "i + j - length ls = j - (length ls - i)" by simp
    then show ?thesis using 2 assms parts by simp
  next
    case 3
    then have "[m..<m + (i - length ls)] @ [m + (i - length ls)..<m + (i - length ls) + j] = [m..<m + (i + j - length ls)]"
      by (metis (no_types, lifting) Nat.add_diff_assoc2 add.assoc less_imp_le upt_add_eq_append le_add1)
    then show ?thesis using 3 assms by simp
  qed
qed


text \<open>Both axes drawn from one pool.\<close>

lemma two_axes_pool:
  assumes ids: "map l_id un = [0..<m]" and hidden: "\<forall>l \<in> set un. \<not> l_visible l"
  shows "\<exists>rest used made. fold (\<lambda>y. draw_label font y (posy y)) ys (fold (\<lambda>x. draw_label font x (posx x)) xs (un, [], m))
      = (rest, used, made)
    \<and> made = max m (length xs + length ys) \<and> map l_id (used @ rest) = [0..<made]
    \<and> map l_text (filter l_visible (used @ rest)) = xs @ ys"
proof -
  have len: "length un = m" using arg_cong [OF ids, of length] by simp
  let ?m1 = "m + (length xs - length un)" and ?un1 = "drop (length xs) un"
  obtain a where a: "fold (\<lambda>x. draw_label font x (posx x)) xs (un, [], m) = (?un1, a, ?m1)"
    "map l_text a = xs" "list_all l_visible a" "map l_id a = map l_id (take (length xs) un) @ [m ..< ?m1]"
    using draw_labels [of font posx xs un "[]" m] by auto
  obtain b where b: "fold (\<lambda>y. draw_label font y (posy y)) ys (?un1, a, ?m1)
      = (drop (length ys) ?un1, a @ b, ?m1 + (length ys - length ?un1))" "map l_text b = ys" "list_all l_visible b"
    "map l_id b = map l_id (take (length ys) ?un1) @ [?m1 ..< ?m1 + (length ys - length ?un1)]"
    using draw_labels [of font posy ys ?un1 a ?m1] by blast
  let ?rest = "drop (length ys) ?un1" and ?made = "?m1 + (length ys - length ?un1)"
  have made: "?made = max m (length xs + length ys)" using len by simp
  have "map l_id (a @ b @ ?rest) = [0..<m] @ [m ..< m + (length xs + length ys - m)]"
    using drop_drop_pool [OF a(4) b(4)] ids len by simp
  also have "\<dots> = [0..<?made]" unfolding made by (simp add: max_def flip: upt_add_eq_append)
  finally have "map l_id ((a @ b) @ ?rest) = [0..<?made]" by simp
  moreover have "filter l_visible ((a @ b) @ ?rest) = a @ b"
    using a(3) b(3) hidden by (auto simp: list_all_iff filter_empty_conv dest!: in_set_dropD)
  then have "map l_text (filter l_visible ((a @ b) @ ?rest)) = xs @ ys" using a(2) b(2) by simp
  ultimately show ?thesis using a(1) b(1) made by (intro exI [of _ ?rest] exI [of _ "a @ b"] exI [of _ ?made]) simp
qed

lemma update_view_result:
  assumes "view_ok vz" "zoom_of vz = Some z" "pool_ok ax"
  shows "\<exists>ax' xs ys. update_view vz ax = Some (Inr ax') \<and> pool_ok ax'
    \<and> length xs \<in> {4..9} \<and> length ys \<in> {4..9}
    \<and> map l_text (filter l_visible (labels ax')) = xs @ ys
    \<and> length (hlines ax') = Suc (length xs) \<and> length (vlines ax') = Suc (length ys)
    \<and> label_count ax' = max (label_count ax) (length xs + length ys) \<and> axes_visible ax' = axes_visible ax"
proof -
  obtain x1 y1 x2 y2 where p: "from_pixels vz (fst (hadj vz), fst (vadj vz)) = (x1, y1)"
    "from_pixels vz (fst (hadj vz) + snd (hadj vz), fst (vadj vz) + snd (vadj vz)) = (x2, y2)" by fastforce
  then have lt: "x1 / PIXELS_PER_METER < x2 / PIXELS_PER_METER" "y1 / PIXELS_PER_METER < y2 / PIXELS_PER_METER" "z \<noteq> 0"
    using assms(1,2) by (auto simp: view_ok_def PIXELS_PER_METER_def divide_strict_right_mono)
  define posx where "posx = (\<lambda>x. (PIXELS_PER_METER * x, y2 - 5 / z / 2 - 10 / z))"
  define posy where "posy = (\<lambda>y. (x1 + 5 / z / 2 + 10 / z, PIXELS_PER_METER * y))"
  define un where "un = map (\<lambda>l. l\<lparr>l_visible := False\<rparr>) (labels ax)"
  have un: "map l_id un = [0..<label_count ax]" "\<forall>l \<in> set un. \<not> l_visible l"
    using assms(3) by (auto simp: un_def pool_ok_def o_def)
  let ?font = "py_trunc (12 / z)" and ?st = "(un, [], label_count ax)"
  obtain xs where h: "draw_axis ?font (x1 / PIXELS_PER_METER) (x2 / PIXELS_PER_METER) posx ?st
      = Some (Inr (xs, fold (\<lambda>x. draw_label ?font x (posx x)) xs ?st))" "4 \<le> length xs" "length xs \<le> 9"
    using draw_axis_result [OF lt(1)] by blast
  obtain ys where v: "draw_axis ?font (y1 / PIXELS_PER_METER) (y2 / PIXELS_PER_METER) posy (fold (\<lambda>x. draw_label ?font x (posx x)) xs ?st)
      = Some (Inr (ys, fold (\<lambda>y. draw_label ?font y (posy y)) ys (fold (\<lambda>x. draw_label ?font x (posx x)) xs ?st)))"
    "4 \<le> length ys" "length ys \<le> 9"
    using draw_axis_result [OF lt(2)] by blast
  obtain rest used made where pool: "fold (\<lambda>y. draw_label ?font y (posy y)) ys (fold (\<lambda>x. draw_label ?font x (posx x)) xs ?st)
      = (rest, used, made)" "made = max (label_count ax) (length xs + length ys)" "map l_id (used @ rest) = [0..<made]"
    "map l_text (filter l_visible (used @ rest)) = xs @ ys"
    using two_axes_pool [OF un] by blast
  obtain ax' where ax': "update_view vz ax = Some (Inr ax')" "labels ax' = used @ rest" "label_count ax' = made"
    "length (hlines ax') = Suc (length xs)" "length (vlines ax') = Suc (length ys)" "axes_visible ax' = axes_visible ax"
    using p lt(3) h(1) v(1) pool(1) assms(2) unfolding update_view_def un_def [symmetric] posx_def posy_def by (simp add: Let_def)
  have "pool_ok ax'" using ax'(2,3) pool(2,3) h(3) v(3) assms(3) by (simp add: pool_ok_def)
  then show ?thesis using h(2,3) v(2,3) ax' pool(2,4) by (intro exI [of _ ax'] exI [of _ xs] exI [of _ ys]) simp
qed

text \<open>C12: Redrawing the axes of a view that is not empty always ends. Afterwards the visible labels are exactly the labels of the
  ticks of the two axes, between four and nine for each; every label that was ever made is still in the pool, the
  pool has grown only as far as the ticks needed, and it never holds more than eighteen labels.\<close>

theorem update_view_pool:
  assumes "view_ok vz" "zoom_of vz = Some z" "pool_ok ax"
  shows "\<exists>ax' xs ys. update_view vz ax = Some (Inr ax') \<and> pool_ok ax'
    \<and> length xs \<in> {4..9} \<and> length ys \<in> {4..9}
    \<and> map l_text (filter l_visible (labels ax')) = xs @ ys
    \<and> length (hlines ax') = Suc (length xs) \<and> length (vlines ax') = Suc (length ys)
    \<and> label_count ax' = max (label_count ax) (length xs + length ys)"
  using update_view_result [OF assms] by blast

theorem update_view_pool_witness:
  "\<exists>ax'. update_view \<lparr>hadj = (0, 600), vadj = (0, 450), zoom_of = Some 1, from_pixels = (\<lambda>p. p)\<rparr> new_axes = Some (Inr ax')
    \<and> label_count ax' \<le> 18"
  using update_view_pool [of "\<lparr>hadj = (0, 600), vadj = (0, 450), zoom_of = Some 1, from_pixels = (\<lambda>p. p)\<rparr>" 1 new_axes]
  by (auto simp: view_ok_def pool_ok_def new_axes_def)

text \<open>The other operations keep the pool as well; hidden axes have no visible label and are not redrawn.\<close>

theorem axes_hidden:
  assumes "pool_ok ax"
  shows "pool_ok (set_visible v ax) \<and> filter l_visible (labels (set_visible False ax)) = []
    \<and> on_adjustment vz (set_visible False ax) = Some (Inr (set_visible False ax))"
  using assms by (auto simp: pool_ok_def set_visible_def on_adjustment_def o_def filter_empty_conv)

end
