(* ===== verification/Viz_Thread.thy ===== *)
theory Viz_Thread
  imports Py_Numbers
begin

text \<open>
  The two threads of the visualizer, from \<^verbatim>\<open>src/visualizer/visualizer/core.py\<close>: \<^verbatim>\<open>SimulationThread.run\<close> and the handlers of the main
  loop that talk to it (\<^verbatim>\<open>update_view_timeout\<close>, \<^verbatim>\<open>update_model\<close>, \<^verbatim>\<open>_start_update_timer\<close>, \<^verbatim>\<open>_on_play_button_toggled\<close>, \<^verbatim>\<open>_quit\<close>, and
  those that hold the lock for a while). They share a lock, the event \<^verbatim>\<open>go\<close>, the flag \<^verbatim>\<open>quit\<close>, the target time and the list of pause
  messages. Every access to a shared object is a step of its own, and so is what a thread does while it holds the lock, up to its release;
  the steps of the two threads interleave freely. \<^verbatim>\<open>autoscale_view\<close>, which moves the nodes without taking the lock, is not among them. What one run of the
  simulator does, the time it reaches and the messages it leaves, is not determined, and neither is whether a redraw raises. While
  \<^verbatim>\<open>update_view_timeout\<close> waits for the lock it runs the event loop, so that other handlers run inside it: the calls that wait are a stack.
\<close>

section \<open>State\<close>

datatype sim_pc = AtLoop | AtWait | AtClear | AtTest | AtLock | Simulating | Ended

datatype main_pc = Dispatching | AtViewLock | Viewing nat | AfterView nat "string list" | AtViewGo | AtHandlerLock | InHandler | AtQuitGo | AtJoin | Quitted

text \<open>\<^verbatim>\<open>sources\<close> are the timers that the event loop knows, \<^verbatim>\<open>timeout_id\<close> is the one the program remembers. \<^verbatim>\<open>waiting_views\<close> are the timers whose
  \<^verbatim>\<open>update_view_timeout\<close> waits for the lock, the innermost first. \<^verbatim>\<open>view_failed\<close> is an observation: a redraw has raised since the last timer
  was started.\<close>

record threads =
  quit :: bool
  go :: bool
  locked_by_sim :: bool
  locked_by_main :: bool
  sim_at :: sim_pc
  main_at :: main_pc
  sim_now :: rat
  target_time :: rat
  viewed_time :: rat
  pause_messages :: "string list"
  idle_updates :: nat
  play_active :: bool
  sources :: "nat list"
  timeout_id :: "nat option"
  next_source :: nat
  waiting_views :: "nat list"
  view_failed :: bool
  sample_period :: rat

definition lock_free :: "threads \<Rightarrow> bool" where
  "lock_free s \<longleftrightarrow> \<not> locked_by_sim s \<and> \<not> locked_by_main s"

definition SAMPLE_PERIOD :: rat where
  "SAMPLE_PERIOD = 1 / 10"

text \<open>\<^verbatim>\<open>GLib.source_remove\<close>; an identifier that is no longer known is ignored.\<close>

definition source_remove :: "nat option \<Rightarrow> threads \<Rightarrow> threads" where
  "source_remove i s = s\<lparr>sources := filter (\<lambda>j. Some j \<noteq> i) (sources s)\<rparr>"

definition start_update_timer :: "threads \<Rightarrow> threads" where
  "start_update_timer s =
     (let s1 = source_remove (timeout_id s) s
      in s1\<lparr>sources := sources s1 @ [next_source s], timeout_id := Some (next_source s), next_source := next_source s + 1,
            view_failed := False\<rparr>)"

definition on_play_button_toggled :: "threads \<Rightarrow> threads" where
  "on_play_button_toggled s = (if play_active s then start_update_timer s else source_remove (timeout_id s) s)"

definition speed_changed :: "rat \<Rightarrow> threads \<Rightarrow> threads" where
  "speed_changed v s = start_update_timer (s\<lparr>sample_period := SAMPLE_PERIOD * v\<rparr>)"

text \<open>After \<^verbatim>\<open>Visualizer.__init__\<close>, \<^verbatim>\<open>create_gui\<close> and \<^verbatim>\<open>start\<close>: the speed is set to one, which starts a timer.\<close>

definition start_threads :: threads where
  "start_threads = speed_changed 1
     \<lparr>quit = False, go = False, locked_by_sim = False, locked_by_main = False, sim_at = AtLoop, main_at = Dispatching,
      sim_now = 0, target_time = 0, viewed_time = 0, pause_messages = [], idle_updates = 0, play_active = False, sources = [],
      timeout_id = None, next_source = 1, waiting_views = [], view_failed = False, sample_period = SAMPLE_PERIOD\<rparr>"

section \<open>The simulation thread\<close>

inductive sim_step :: "threads \<Rightarrow> threads \<Rightarrow> bool" where
  sim_loop: "sim_at s = AtLoop \<Longrightarrow> sim_step s (s\<lparr>sim_at := (if quit s then Ended else AtWait)\<rparr>)"
| sim_wait: "sim_at s = AtWait \<Longrightarrow> go s \<Longrightarrow> sim_step s (s\<lparr>sim_at := AtClear\<rparr>)"
| sim_clear: "sim_at s = AtClear \<Longrightarrow> sim_step s (s\<lparr>go := False, sim_at := AtTest\<rparr>)"
| sim_test: "sim_at s = AtTest \<Longrightarrow> sim_step s (s\<lparr>sim_at := (if quit s then Ended else AtLock)\<rparr>)"
| sim_lock: "sim_at s = AtLock \<Longrightarrow> lock_free s \<Longrightarrow> sim_step s (s\<lparr>locked_by_sim := True, sim_at := Simulating\<rparr>)"
| sim_run: "sim_at s = Simulating \<Longrightarrow> sim_now s \<le> t \<Longrightarrow> t \<le> max (sim_now s) (target_time s) \<Longrightarrow>
    sim_step s (s\<lparr>sim_now := t, pause_messages := pause_messages s @ msgs, idle_updates := idle_updates s + 1,
                  locked_by_sim := False, sim_at := AtLoop\<rparr>)"

section \<open>The main loop\<close>

text \<open>\<^verbatim>\<open>update_view_timeout\<close>, called by timer \<^verbatim>\<open>i\<close>, from the moment the lock is held: the pause messages are taken, the view is redrawn,
  the target moves on and the lock is released.\<close>

definition redraw_view :: "nat \<Rightarrow> threads \<Rightarrow> threads" where
  "redraw_view i s = s\<lparr>pause_messages := [], viewed_time := sim_now s, target_time := sim_now s + sample_period s,
     locked_by_main := False, main_at := AfterView i (pause_messages s)\<rparr>"

text \<open>Then, without the lock: with a pause message the play button is released; while it is down the simulation may go on, which is
  the next step, otherwise the timer is given up. The event loop removes a timer whose callback does not return true.\<close>

definition finish_view :: "nat \<Rightarrow> string list \<Rightarrow> threads \<Rightarrow> threads" where
  "finish_view i messages s =
     (let s1 = (if messages \<noteq> [] \<and> play_active s then on_play_button_toggled (s\<lparr>play_active := False\<rparr>) else s)
      in if \<not> play_active s1 then source_remove (Some i) (s1\<lparr>timeout_id := None, main_at := Dispatching\<rparr>)
         else s1\<lparr>main_at := AtViewGo\<rparr>)"

text \<open>The redraw raises: the lock is released, the rest is skipped, and the callback has no value.\<close>

definition fail_view :: "nat \<Rightarrow> threads \<Rightarrow> threads" where
  "fail_view i s = source_remove (Some i)
     (s\<lparr>pause_messages := [], locked_by_main := False, main_at := Dispatching, view_failed := True\<rparr>)"

text \<open>\<^verbatim>\<open>_quit\<close> up to the flag.\<close>

definition begin_quit :: "threads \<Rightarrow> threads" where
  "begin_quit s = (source_remove (timeout_id s) s)\<lparr>timeout_id := None, quit := True, main_at := AtQuitGo\<rparr>"

inductive main_step :: "threads \<Rightarrow> threads \<Rightarrow> bool" where
  timer: "main_at s = Dispatching \<Longrightarrow> i \<in> set (sources s) \<Longrightarrow> i \<notin> set (waiting_views s) \<Longrightarrow>
    main_step s (s\<lparr>waiting_views := i # waiting_views s, main_at := AtViewLock\<rparr>)"
| view_lock: "main_at s = AtViewLock \<Longrightarrow> lock_free s \<Longrightarrow> waiting_views s = i # rest \<Longrightarrow>
    main_step s (s\<lparr>locked_by_main := True, waiting_views := rest, main_at := Viewing i\<rparr>)"
| view_busy: "main_at s = AtViewLock \<Longrightarrow> \<not> lock_free s \<Longrightarrow> main_step s (s\<lparr>main_at := Dispatching\<rparr>)"
| view_retry: "main_at s = Dispatching \<Longrightarrow> waiting_views s \<noteq> [] \<Longrightarrow> main_step s (s\<lparr>main_at := AtViewLock\<rparr>)"
| view: "main_at s = Viewing i \<Longrightarrow> main_step s (redraw_view i s)"
| view_end: "main_at s = AfterView i messages \<Longrightarrow> main_step s (finish_view i messages s)"
| view_go: "main_at s = AtViewGo \<Longrightarrow> main_step s (s\<lparr>go := True, main_at := Dispatching\<rparr>)"
| view_raises: "main_at s = Viewing i \<Longrightarrow> main_step s (fail_view i s)"
| idle: "main_at s = Dispatching \<Longrightarrow> 0 < idle_updates s \<Longrightarrow>
    main_step s (s\<lparr>idle_updates := idle_updates s - 1, main_at := AtHandlerLock\<rparr>)"
| handler: "main_at s = Dispatching \<Longrightarrow> main_step s (s\<lparr>main_at := AtHandlerLock\<rparr>)"
| handler_lock: "main_at s = AtHandlerLock \<Longrightarrow> lock_free s \<Longrightarrow> main_step s (s\<lparr>locked_by_main := True, main_at := InHandler\<rparr>)"
| handler_done: "main_at s = InHandler \<Longrightarrow> main_step s (s\<lparr>locked_by_main := False, main_at := Dispatching\<rparr>)"
| play: "main_at s = Dispatching \<Longrightarrow> main_step s (on_play_button_toggled (s\<lparr>play_active := \<not> play_active s\<rparr>))"
| speed: "main_at s = Dispatching \<Longrightarrow> 0 < v \<Longrightarrow> v \<le> 10 \<Longrightarrow> main_step s (speed_changed v s)"
| quit_flag: "main_at s = Dispatching \<Longrightarrow> main_step s (begin_quit s)"
| quit_go: "main_at s = AtQuitGo \<Longrightarrow> main_step s (s\<lparr>go := True, main_at := AtJoin\<rparr>)"
| join: "main_at s = AtJoin \<Longrightarrow> sim_at s = Ended \<Longrightarrow> main_step s (s\<lparr>main_at := Quitted\<rparr>)"

definition thread_step :: "threads \<Rightarrow> threads \<Rightarrow> bool" where
  "thread_step s s' \<longleftrightarrow> sim_step s s' \<or> main_step s s'"

section \<open>Invariant\<close>

fun in_main_section :: "main_pc \<Rightarrow> bool" where
  "in_main_section (Viewing i) = True" | "in_main_section InHandler = True" | "in_main_section _ = False"

definition timer_armed :: "threads \<Rightarrow> bool" where
  "timer_armed s \<longleftrightarrow> (case timeout_id s of None \<Rightarrow> False | Some i \<Rightarrow> i \<in> set (sources s))"

definition locks_ok :: "threads \<Rightarrow> bool" where
  "locks_ok s \<longleftrightarrow>
     (locked_by_sim s \<longleftrightarrow> sim_at s = Simulating) \<and> (locked_by_main s \<longleftrightarrow> in_main_section (main_at s))
     \<and> \<not> (locked_by_sim s \<and> locked_by_main s)
     \<and> (quit s \<longleftrightarrow> main_at s \<in> {AtQuitGo, AtJoin, Quitted})
     \<and> (main_at s \<in> {AtJoin, Quitted} \<and> sim_at s = AtWait \<longrightarrow> go s)
     \<and> (sim_at s = Ended \<longrightarrow> quit s) \<and> (main_at s = AtViewLock \<longrightarrow> waiting_views s \<noteq> [])"

definition times_ok :: "threads \<Rightarrow> bool" where
  "times_ok s \<longleftrightarrow> sim_now s \<le> max 0 (target_time s) \<and> viewed_time s \<le> sim_now s \<and> 0 \<le> viewed_time s
     \<and> target_time s \<le> viewed_time s + 1 \<and> 0 < sample_period s \<and> sample_period s \<le> 1"

definition timers_ok :: "threads \<Rightarrow> bool" where
  "timers_ok s \<longleftrightarrow> (play_active s \<and> \<not> view_failed s \<and> \<not> quit s \<longrightarrow> timer_armed s)"

definition threads_ok :: "threads \<Rightarrow> bool" where
  "threads_ok s \<longleftrightarrow> locks_ok s \<and> times_ok s \<and> timers_ok s"

lemmas timer_defs = source_remove_def start_update_timer_def on_play_button_toggled_def speed_changed_def

lemmas handler_defs = redraw_view_def finish_view_def fail_view_def begin_quit_def timer_defs

lemma start_threads_ok: "threads_ok start_threads"
  by (simp add: threads_ok_def locks_ok_def times_ok_def timers_ok_def timer_armed_def start_threads_def timer_defs SAMPLE_PERIOD_def
      Let_def)

lemma sim_step_locks: "sim_step s s' \<Longrightarrow> locks_ok s \<Longrightarrow> locks_ok s'"
  by (induction rule: sim_step.induct) (auto simp: locks_ok_def lock_free_def)

lemma sim_step_times: "sim_step s s' \<Longrightarrow> times_ok s \<Longrightarrow> times_ok s'"
proof (induction rule: sim_step.induct)
  case (sim_run s t msgs)
  then have "t \<le> max 0 (target_time s)" "viewed_time s \<le> t" by (auto simp: times_ok_def)
  with sim_run show ?case by (simp add: times_ok_def)
qed (simp_all add: times_ok_def)

lemma sim_step_timers: "sim_step s s' \<Longrightarrow> timers_ok s \<Longrightarrow> timers_ok s'"
  by (induction rule: sim_step.induct) (simp_all add: timers_ok_def timer_armed_def split: option.splits)

lemma main_step_locks: "main_step s s' \<Longrightarrow> locks_ok s \<Longrightarrow> locks_ok s'"
  by (induction rule: main_step.induct) (auto simp: locks_ok_def lock_free_def handler_defs Let_def)

lemma main_step_times: "main_step s s' \<Longrightarrow> times_ok s \<Longrightarrow> times_ok s'"
  by (induction rule: main_step.induct) (auto simp: times_ok_def handler_defs SAMPLE_PERIOD_def Let_def)

lemma main_step_timers: "main_step s s' \<Longrightarrow> timers_ok s \<Longrightarrow> timers_ok s'"
  by (induction rule: main_step.induct) (auto simp: timers_ok_def timer_armed_def handler_defs Let_def split: option.splits)

lemma thread_step_ok: "thread_step s s' \<Longrightarrow> threads_ok s \<Longrightarrow> threads_ok s'"
  using sim_step_locks sim_step_times sim_step_timers main_step_locks main_step_times main_step_timers by (auto simp: thread_step_def threads_ok_def)

lemma reachable_ok: "thread_step\<^sup>*\<^sup>* start_threads s \<Longrightarrow> threads_ok s"
  by (induction rule: rtranclp_induct) (auto simp: start_threads_ok thread_step_ok)

text \<open>C7: In every interleaving of the two threads, the simulator never runs while the view is redrawn or a handler that took the lock is at
  work; simulated time is never more than one second (a sample period at the highest speed) ahead of the time that is drawn; and while
  the play button is down a timer that the program remembers is armed, unless a redraw has raised.\<close>

theorem simulator_excludes_view:
  assumes "thread_step\<^sup>*\<^sup>* start_threads s"
  shows "\<not> (sim_at s = Simulating \<and> in_main_section (main_at s))
    \<and> viewed_time s \<le> sim_now s \<and> sim_now s \<le> viewed_time s + 1
    \<and> (\<not> play_active s \<or> quit s \<or> view_failed s \<or> timer_armed s)"
proof -
  have "locks_ok s" and t: "times_ok s" and "timers_ok s" using reachable_ok [OF assms] by (simp_all add: threads_ok_def)
  then have "\<not> (sim_at s = Simulating \<and> in_main_section (main_at s))" "\<not> play_active s \<or> quit s \<or> view_failed s \<or> timer_armed s"
    by (simp_all add: locks_ok_def timers_ok_def) blast+
  moreover have "viewed_time s \<le> sim_now s" "sim_now s \<le> viewed_time s + 1" using t by (simp_all add: times_ok_def max_def split: if_splits)
  ultimately show ?thesis by blast
qed

theorem simulator_excludes_view_witness:
  "sim_now (on_play_button_toggled (start_threads\<lparr>play_active := True\<rparr>)) \<le> viewed_time (on_play_button_toggled (start_threads\<lparr>play_active := True\<rparr>)) + 1
   \<and> timer_armed (on_play_button_toggled (start_threads\<lparr>play_active := True\<rparr>))"
proof -
  have "main_step start_threads (on_play_button_toggled (start_threads\<lparr>play_active := True\<rparr>))"
    using main_step.play [of start_threads] by (simp add: start_threads_def timer_defs Let_def)
  then have "thread_step start_threads (on_play_button_toggled (start_threads\<lparr>play_active := True\<rparr>))" by (simp add: thread_step_def)
  then show ?thesis
    using simulator_excludes_view [OF r_into_rtranclp, of "on_play_button_toggled (start_threads\<lparr>play_active := True\<rparr>)"]
    by (auto simp: start_threads_def timer_defs Let_def)
qed

text \<open>The exception in the theorem is real: after a redraw that raised, the play button can be down with no timer left.\<close>

theorem failed_view_stalls: "\<exists>s. thread_step\<^sup>*\<^sup>* start_threads s \<and> play_active s \<and> sources s = [] \<and> timeout_id s \<noteq> None"
proof -
  define a where "a = on_play_button_toggled (start_threads\<lparr>play_active := True\<rparr>)"
  define b where "b = a\<lparr>waiting_views := [2], main_at := AtViewLock\<rparr>"
  define c where "c = b\<lparr>locked_by_main := True, waiting_views := [], main_at := Viewing 2\<rparr>"
  have "main_step start_threads a"
    using main_step.play [of start_threads] by (simp add: a_def start_threads_def timer_defs Let_def)
  moreover have "main_step a b"
    using main_step.timer [of a 2] by (simp add: a_def b_def start_threads_def timer_defs Let_def)
  moreover have "main_step b c"
    using main_step.view_lock [of b 2 "[]"] by (simp add: a_def b_def c_def start_threads_def timer_defs lock_free_def Let_def)
  moreover have "main_step c (fail_view 2 c)" by (rule main_step.view_raises) (simp add: c_def)
  ultimately have "thread_step\<^sup>*\<^sup>* start_threads (fail_view 2 c)"
    by (meson thread_step_def rtranclp.rtrancl_into_rtrancl rtranclp.rtrancl_refl)
  moreover have "play_active (fail_view 2 c) \<and> sources (fail_view 2 c) = [] \<and> timeout_id (fail_view 2 c) \<noteq> None"
    by (simp add: a_def b_def c_def start_threads_def timer_defs fail_view_def Let_def)
  ultimately show ?thesis by blast
qed

section \<open>Quitting\<close>

text \<open>What happens on every path: the goal is reached, or every next step leads to a state from which it is.\<close>

inductive inevitably :: "('s \<Rightarrow> 's \<Rightarrow> bool) \<Rightarrow> ('s \<Rightarrow> bool) \<Rightarrow> 's \<Rightarrow> bool" for step goal where
  reached: "goal s \<Longrightarrow> inevitably step goal s"
| ahead: "\<exists>s'. step s s' \<Longrightarrow> (\<And>s'. step s s' \<Longrightarrow> inevitably step goal s') \<Longrightarrow> inevitably step goal s"

text \<open>The contract of a phase that must end: it is never stuck before its end, and every step brings it nearer.\<close>

locale ending_phase =
  fixes step :: "'s \<Rightarrow> 's \<Rightarrow> bool" and inside :: "'s \<Rightarrow> bool" and finished :: "'s \<Rightarrow> bool" and rank :: "'s \<Rightarrow> nat"
  assumes progress: "inside s \<Longrightarrow> \<not> finished s \<Longrightarrow> \<exists>s'. step s s'"
    and nearer: "inside s \<Longrightarrow> \<not> finished s \<Longrightarrow> step s s' \<Longrightarrow> inside s' \<and> rank s' < rank s"
begin

lemma ends_on_every_path: "inside s \<Longrightarrow> inevitably step finished s"
proof (induction "rank s" arbitrary: s rule: less_induct)
  case less
  show ?case
  proof (cases "finished s")
    case True
    then show ?thesis by (rule inevitably.reached)
  next
    case False
    show ?thesis
    proof (rule inevitably.ahead)
      show "\<exists>s'. step s s'" using progress less.prems False by blast
      show "inevitably step finished s'" if "step s s'" for s' using nearer [OF less.prems False that] less.hyps by blast
    qed
  qed
qed

end

fun sim_rank :: "sim_pc \<Rightarrow> nat" where
  "sim_rank AtWait = 5" | "sim_rank AtClear = 4" | "sim_rank AtTest = 3" | "sim_rank AtLock = 4"
| "sim_rank Simulating = 3" | "sim_rank AtLoop = 2" | "sim_rank Ended = 0"

fun main_rank :: "main_pc \<Rightarrow> nat" where
  "main_rank AtQuitGo = 2" | "main_rank AtJoin = 1" | "main_rank _ = 0"

lemma quit_progress:
  assumes "threads_ok s" "main_at s \<in> {AtQuitGo, AtJoin}"
  shows "\<exists>s'. thread_step s s'"
proof (cases "main_at s = AtQuitGo")
  case True
  then show ?thesis using main_step.quit_go thread_step_def by blast
next
  case False
  then have j: "main_at s = AtJoin" "quit s" "lock_free s \<or> sim_at s = Simulating" "sim_at s = AtWait \<longrightarrow> go s"
    using assms by (auto simp: threads_ok_def locks_ok_def lock_free_def)
  show ?thesis
  proof (cases "sim_at s")
    case Simulating
    then show ?thesis using sim_step.sim_run [of s "sim_now s"] by (auto simp: thread_step_def)
  next
    case AtLock
    then show ?thesis using j sim_step.sim_lock [of s] by (auto simp: thread_step_def)
  next
    case AtTest
    then show ?thesis using sim_step.sim_test [of s] unfolding thread_step_def by blast
  next
    case Ended
    then show ?thesis using j main_step.join [of s] unfolding thread_step_def by blast
  next
    case AtLoop
    then show ?thesis using sim_step.sim_loop [of s] unfolding thread_step_def by blast
  next
    case AtWait
    then show ?thesis using j sim_step.sim_wait [of s] unfolding thread_step_def by blast
  next
    case AtClear
    then show ?thesis using sim_step.sim_clear [of s] unfolding thread_step_def by blast
  qed
qed

lemma quit_nearer:
  assumes "threads_ok s" "main_at s \<in> {AtQuitGo, AtJoin}" "thread_step s s'"
  shows "main_at s' \<in> {AtQuitGo, AtJoin, Quitted} \<and> sim_rank (sim_at s') + main_rank (main_at s') < sim_rank (sim_at s) + main_rank (main_at s)"
proof -
  have "quit s" using assms by (auto simp: threads_ok_def locks_ok_def)
  then have "sim_step s s' \<Longrightarrow> main_at s' = main_at s \<and> sim_rank (sim_at s') < sim_rank (sim_at s)"
    by (elim sim_step.cases) auto
  moreover have "main_step s s' \<Longrightarrow> main_at s' \<in> {AtJoin, Quitted} \<and> sim_at s' = sim_at s \<and> main_rank (main_at s') < main_rank (main_at s)"
    using assms(2) by (elim main_step.cases) auto
  ultimately show ?thesis using assms by (auto simp: thread_step_def)
qed

interpretation quitting: ending_phase thread_step "\<lambda>s. threads_ok s \<and> main_at s \<in> {AtQuitGo, AtJoin, Quitted}"
  "\<lambda>s. main_at s = Quitted" "\<lambda>s. sim_rank (sim_at s) + main_rank (main_at s)"
  by unfold_locales (use quit_progress quit_nearer thread_step_ok in blast)+

text \<open>C4: Once the window is closed, the visualizer ends whatever the threads do: the main thread never waits in vain in \<^verbatim>\<open>join\<close>, no
  wake-up is lost, and on every path of the interleaving the join returns.\<close>

theorem quit_joins:
  assumes "thread_step\<^sup>*\<^sup>* start_threads s" "quit s"
  shows "inevitably thread_step (\<lambda>s. main_at s = Quitted) s"
  using reachable_ok [OF assms(1)] assms(2) by (intro quitting.ends_on_every_path) (auto simp: threads_ok_def locks_ok_def)

theorem quit_joins_witness: "inevitably thread_step (\<lambda>s. main_at s = Quitted) (begin_quit start_threads)"
proof -
  have "main_step start_threads (begin_quit start_threads)"
    by (rule main_step.quit_flag) (simp add: start_threads_def timer_defs Let_def)
  then have "thread_step start_threads (begin_quit start_threads)" by (simp add: thread_step_def)
  then show ?thesis using quit_joins [OF r_into_rtranclp] by (simp add: begin_quit_def)
qed

end
