(* ===== verification/Viz_Nodes.thy ===== *)
theory Viz_Nodes
  imports Viz_Base "HOL-Library.Word"
begin

text \<open>
  The objects on the canvas of the visualizer, from \<^verbatim>\<open>src/visualizer/visualizer/core.py\<close>: nodes, channels, wired links, the
  scan of the topology, selection, dragging and panning. The visualizer is one record; nodes and channels are
  dictionaries, links are numbered in the order of their creation. What the simulation contains (\<open>ns3_world\<close>), the
  layout that graphviz computes and the parsing of colour names are parameters.
\<close>

unbundle bit_operations_syntax

section \<open>State\<close>

datatype viz_end = NodeEnd int | ChannelEnd int

record viz_link =
  link_node1 :: int
  link_node2 :: viz_end
  link_data :: "((rat \<times> rat) \<times> (rat \<times> rat)) option"

record viz_node =
  n_pos :: "rat \<times> rat"
  n_links :: "nat list"
  n_mobility :: "bool option"
  n_selected :: bool
  n_highlighted :: bool
  n_color :: int
  n_size :: rat
  n_svg :: "(svg_item \<times> rat \<times> rat) option"
  n_label :: "string option"
  n_label_item :: "(string \<times> rat \<times> rat) option"
  n_radius :: rat
  n_fill :: int
  n_line_width :: rat
  n_stroke :: string

record viz_channel =
  c_pos :: "rat \<times> rat"
  c_links :: "nat list"

datatype show_mode = ShowAll | ShowNone | ShowSelected

record drag_state =
  canvas_0 :: "rat \<times> rat"
  sim_0 :: "rat \<times> rat"

record panning_state =
  initial_mouse_pos :: "rat \<times> rat"
  initial_canvas_pos :: "rat \<times> rat"

record viz =
  v_nodes :: "(int \<times> viz_node) list"
  v_channels :: "(int \<times> viz_channel) list"
  v_links :: "viz_link list"
  v_bounds :: "(rat \<times> rat \<times> rat \<times> rat) option"
  v_selected :: "int option"
  v_mode :: show_mode
  v_interest :: "int list"
  v_traits :: "(string \<times> net_traits) list"
  v_drag :: "drag_state option"
  v_panning :: "panning_state option"
  v_scroll :: "rat \<times> rat"
  v_follow :: "int option"

text \<open>A device of the simulation: its class, the identity of its channel and the nodes of the devices on that channel.\<close>

record ns3_device =
  d_class :: string
  d_channel :: int
  d_peers :: "int list"

record ns3_world =
  w_count :: nat
  w_mobility :: "int \<Rightarrow> (rat \<times> rat) option"
  w_devices :: "int \<Rightarrow> ns3_device list"

section \<open>Nodes, channels and links\<close>

definition DEFAULT_NODE_SIZE :: rat where
  "DEFAULT_NODE_SIZE = 1"

text \<open>The first part of \<^verbatim>\<open>_update_appearance\<close>: radius, colours and line width.\<close>

definition node_look :: "viz_node \<Rightarrow> viz_node" where
  "node_look n =
     (let radius = transform_distance_simulation_to_canvas (n_size n);
          alpha = (if n_svg n \<noteq> None then 0x80 else 0xff)
      in n\<lparr>n_radius := radius, n_fill := (n_color n AND 0xffffff00) OR alpha,
           n_line_width := (if n_selected n then radius * (3 / 10) else radius * (15 / 100)),
           n_stroke := (if n_highlighted n then ''yellow'' else ''black'')\<rparr>)"

definition new_node :: viz_node where
  "new_node = node_look \<lparr>n_pos = (0, 0), n_links = [], n_mobility = None, n_selected = False, n_highlighted = False,
     n_color = 0x808080ff, n_size = DEFAULT_NODE_SIZE, n_svg = None, n_label = None, n_label_item = None,
     n_radius = 0, n_fill = 0, n_line_width = 0, n_stroke = ''''\<rparr>"

definition new_channel :: viz_channel where
  "new_channel = \<lparr>c_pos = (0, 0), c_links = []\<rparr>"

definition node_of :: "viz \<Rightarrow> int \<Rightarrow> viz_node" where
  "node_of st i = (case map_of (v_nodes st) i of Some n \<Rightarrow> n | None \<Rightarrow> new_node)"

definition channel_of :: "viz \<Rightarrow> int \<Rightarrow> viz_channel" where
  "channel_of st c = (case map_of (v_channels st) c of Some ch \<Rightarrow> ch | None \<Rightarrow> new_channel)"

definition set_node :: "int \<Rightarrow> viz_node \<Rightarrow> viz \<Rightarrow> viz" where
  "set_node i n st = st\<lparr>v_nodes := AList.update i n (v_nodes st)\<rparr>"

definition set_channel :: "int \<Rightarrow> viz_channel \<Rightarrow> viz \<Rightarrow> viz" where
  "set_channel c ch st = st\<lparr>v_channels := AList.update c ch (v_channels st)\<rparr>"

text \<open>\<^verbatim>\<open>get_node\<close> and \<^verbatim>\<open>get_channel\<close> make the object on first use.\<close>

definition get_node :: "int \<Rightarrow> viz \<Rightarrow> viz" where
  "get_node i st = (if map_of (v_nodes st) i = None then set_node i new_node st else st)"

definition get_channel :: "int \<Rightarrow> viz \<Rightarrow> viz" where
  "get_channel c st = (if map_of (v_channels st) c = None then set_channel c new_channel st else st)"

definition end_pos :: "viz \<Rightarrow> viz_end \<Rightarrow> rat \<times> rat" where
  "end_pos st e = (case e of NodeEnd i \<Rightarrow> n_pos (node_of st i) | ChannelEnd c \<Rightarrow> c_pos (channel_of st c))"

definition create_link :: "int \<Rightarrow> viz_end \<Rightarrow> viz \<Rightarrow> viz" where
  "create_link i e st =
     (let k = length (v_links st);
          st = st\<lparr>v_links := v_links st @ [\<lparr>link_node1 = i, link_node2 = e, link_data = None\<rparr>]\<rparr>;
          n = node_of st i; st = set_node i (n\<lparr>n_links := n_links n @ [k]\<rparr>) st
      in (case e of
            NodeEnd j \<Rightarrow> let m = node_of st j in set_node j (m\<lparr>n_links := n_links m @ [k]\<rparr>) st
          | ChannelEnd c \<Rightarrow> let ch = channel_of st c in set_channel c (ch\<lparr>c_links := c_links ch @ [k]\<rparr>) st))"

definition update_points :: "nat \<Rightarrow> viz \<Rightarrow> viz" where
  "update_points k st =
     (let l = v_links st ! k
      in st\<lparr>v_links := (v_links st)[k := l\<lparr>link_data := Some (n_pos (node_of st (link_node1 l)), end_pos st (link_node2 l))\<rparr>]\<rparr>)"

definition update_svg_position :: "rat \<Rightarrow> rat \<Rightarrow> svg_item \<times> rat \<times> rat \<Rightarrow> svg_item \<times> rat \<times> rat" where
  "update_svg_position x y svg =
     (case svg of (s, ax, ay) \<Rightarrow> (s\<lparr>svg_x := x - (1 - ax) * svg_width s, svg_y := y - (1 - ay) * svg_height s\<rparr>, ax, ay))"

text \<open>The canvas' bounds grow to the new position; \<open>None\<close>: \<^verbatim>\<open>get_bounds\<close> raises the \<^verbatim>\<open>TypeError\<close> that is caught.\<close>

definition grow_bounds :: "rat \<Rightarrow> rat \<Rightarrow> viz \<Rightarrow> viz" where
  "grow_bounds x y st =
     (case v_bounds st of
        None \<Rightarrow> st
      | Some (min_x, min_y, max_x, max_y) \<Rightarrow>
          st\<lparr>v_bounds := Some (min x min_x, min y min_y, max x max_x, max y max_y)\<rparr>)"

definition set_position :: "int \<Rightarrow> rat \<Rightarrow> rat \<Rightarrow> viz \<Rightarrow> viz" where
  "set_position i x y st =
     (let n = node_of st i;
          n = n\<lparr>n_pos := (x, y), n_svg := map_option (update_svg_position x y) (n_svg n)\<rparr>;
          st = fold update_points (n_links n) (set_node i n st);
          m = node_of st i;
          st = set_node i (m\<lparr>n_label_item := map_option (\<lambda>(t, _). (t, x, y + n_size m * 3)) (n_label_item m)\<rparr>) st
      in grow_bounds x y st)"

definition set_channel_position :: "int \<Rightarrow> rat \<Rightarrow> rat \<Rightarrow> viz \<Rightarrow> viz" where
  "set_channel_position c x y st =
     (let ch = channel_of st c in fold update_points (c_links ch) (set_channel c (ch\<lparr>c_pos := (x, y)\<rparr>) st))"

text \<open>\<^verbatim>\<open>_update_appearance\<close>: a label that is set is created, filled in and placed.\<close>

definition update_appearance :: "int \<Rightarrow> viz \<Rightarrow> viz" where
  "update_appearance i st =
     (let n = node_look (node_of st i)
      in case n_label n of
           None \<Rightarrow> set_node i n st
         | Some t \<Rightarrow>
             let n = n\<lparr>n_label_item := Some (t, case n_label_item n of None \<Rightarrow> (0, 0) | Some (_, p) \<Rightarrow> p)\<rparr>
             in (case n_pos n of (x, y) \<Rightarrow> set_position i x y (set_node i n st)))"

definition change_node :: "(viz_node \<Rightarrow> viz_node) \<Rightarrow> int \<Rightarrow> viz \<Rightarrow> viz" where
  "change_node f i st = update_appearance i (set_node i (f (node_of st i)) st)"

definition set_selected :: "bool \<Rightarrow> int \<Rightarrow> viz \<Rightarrow> viz" where
  "set_selected v = change_node (\<lambda>n. n\<lparr>n_selected := v\<rparr>)"

definition set_highlighted :: "bool \<Rightarrow> int \<Rightarrow> viz \<Rightarrow> viz" where
  "set_highlighted v = change_node (\<lambda>n. n\<lparr>n_highlighted := v\<rparr>)"

definition set_size :: "rat \<Rightarrow> int \<Rightarrow> viz \<Rightarrow> viz" where
  "set_size v = change_node (\<lambda>n. n\<lparr>n_size := v\<rparr>)"

text \<open>A colour: an RGBA number, or a name that \<^verbatim>\<open>Gdk.color_parse\<close> turns into three 16-bit parts.\<close>

datatype colour = Rgba int | ColourName string

definition colour_value :: "(string \<Rightarrow> int \<times> int \<times> int) \<Rightarrow> colour \<Rightarrow> int" where
  "colour_value parse c =
     (case c of
        Rgba v \<Rightarrow> v
      | ColourName s \<Rightarrow>
          (case parse s of (r, g, b) \<Rightarrow>
             push_bit 24 (drop_bit 8 r) OR push_bit 16 (drop_bit 8 g) OR push_bit 8 (drop_bit 8 b) OR 0xff))"

definition set_color :: "(string \<Rightarrow> int \<times> int \<times> int) \<Rightarrow> colour \<Rightarrow> int \<Rightarrow> viz \<Rightarrow> viz" where
  "set_color parse c = change_node (\<lambda>n. n\<lparr>n_color := colour_value parse c\<rparr>)"

text \<open>\<^verbatim>\<open>set_label\<close> asks for \<^verbatim>\<open>basestring\<close>, which Python 3 does not have.\<close>

definition set_label :: "string \<Rightarrow> int \<Rightarrow> viz \<Rightarrow> unit res \<times> viz" where
  "set_label label i st = (Inl NameError, st)"

text \<open>\<^verbatim>\<open>set_svg_icon\<close>; \<open>None\<close> stands for a module \<^verbatim>\<open>svgitem\<close> that could not be imported. The icon without alignment that
  stays on the node when the image has no extent, so that scaling it divides by zero, is not represented.\<close>

definition set_svg_icon ::
    "(string \<Rightarrow> svg_handle res) option \<Rightarrow> string \<Rightarrow> rat option \<Rightarrow> rat option \<Rightarrow> rat \<Rightarrow> rat \<Rightarrow> int \<Rightarrow> viz \<Rightarrow> unit res \<times> viz" where
  "set_svg_icon svgitem f width height align_x align_y i st =
     (if width = None \<and> height = None then (Inl ValueError, st)
      else case svgitem of
        None \<Rightarrow> (Inl AttributeError, st)
      | Some load \<Rightarrow>
          (case load f of
             Inl e \<Rightarrow> (Inl e, st)
           | Inr h \<Rightarrow>
               let (x, y) = n_pos (node_of st i);
                   set_w = (case width of None \<Rightarrow> Pair (Inr ()) | Some w \<Rightarrow> do_set_property ''width'' (transform_distance_simulation_to_canvas w));
                   set_h = (case height of None \<Rightarrow> Pair (Inr ()) | Some w \<Rightarrow> do_set_property ''height'' (transform_distance_simulation_to_canvas w))
               in (case set_w (new_svg_item x y h) of
                     (Inl e, s) \<Rightarrow> (Inl e, st)
                   | (Inr _, s) \<Rightarrow>
                       (case set_h s of
                          (Inl e, s) \<Rightarrow> (Inl e, st)
                        | (Inr _, s) \<Rightarrow>
                            (Inr (), change_node (\<lambda>n. n\<lparr>n_svg := Some (update_svg_position x y (s, align_x, align_y))\<rparr>) i st)))))"

text \<open>\<^verbatim>\<open>has_mobility\<close> remembers its answer.\<close>

definition has_mobility :: "ns3_world \<Rightarrow> int \<Rightarrow> viz \<Rightarrow> bool \<times> viz" where
  "has_mobility w i st =
     (case n_mobility (node_of st i) of
        Some b \<Rightarrow> (b, st)
      | None \<Rightarrow> let b = (w_mobility w i \<noteq> None) in (b, set_node i ((node_of st i)\<lparr>n_mobility := Some b\<rparr>) st))"

section \<open>Scanning the topology\<close>

text \<open>The graph that is handed to graphviz: its nodes in the order in which they were added, and its edges.\<close>

record viz_graph =
  g_nodes :: "viz_end list"
  g_edges :: "(viz_end \<times> viz_end) list"

definition graph_add_node :: "viz_end \<Rightarrow> viz_graph \<Rightarrow> viz_graph" where
  "graph_add_node e g = (if e \<in> set (g_nodes g) then g else g\<lparr>g_nodes := g_nodes g @ [e]\<rparr>)"

definition graph_add_edge :: "viz_end \<Rightarrow> viz_end \<Rightarrow> viz_graph \<Rightarrow> viz_graph" where
  "graph_add_edge a b g = (graph_add_node b (graph_add_node a g))\<lparr>g_edges := g_edges g @ [(a, b)]\<rparr>"

text \<open>One peer on a channel with at most two devices.\<close>

definition scan_peer :: "ns3_world \<Rightarrow> int \<Rightarrow> int \<Rightarrow> viz \<times> viz_graph \<Rightarrow> viz \<times> viz_graph" where
  "scan_peer w i j vg =
     (case vg of (st, g) \<Rightarrow>
        let st = get_node j st
        in if j = i then (st, g)
           else let (st, g) = (if w_mobility w i = None
                               then (case has_mobility w j st of (b, st) \<Rightarrow>
                                       (st, if \<not> b then graph_add_edge (NodeEnd i) (NodeEnd j) g else g))
                               else (st, g))
                in (create_link i (NodeEnd j) st, g))"

definition scan_device :: "ns3_world \<Rightarrow> int \<Rightarrow> ns3_device \<Rightarrow> viz \<times> viz_graph \<Rightarrow> viz \<times> viz_graph" where
  "scan_device w i d vg =
     (case vg of (st, g) \<Rightarrow>
        (case lookup_netdevice_traits (d_class d) (v_traits st) of (traits, table, _) \<Rightarrow>
           let st = st\<lparr>v_traits := table\<rparr>
           in if is_wireless traits = Some True then (st, g)
              else if is_virtual traits then (st, g)
              else if 2 < length (d_peers d)
              then let g = (if w_mobility w i = None then graph_add_edge (NodeEnd i) (ChannelEnd (d_channel d)) g else g)
                   in (create_link i (ChannelEnd (d_channel d)) (get_channel (d_channel d) st), g)
              else fold (scan_peer w i) (d_peers d) (st, g)))"

definition scan_node ::
    "(string \<Rightarrow> int \<times> int \<times> int) \<Rightarrow> ns3_world \<Rightarrow> int \<Rightarrow> viz \<times> viz_graph \<Rightarrow> viz \<times> viz_graph" where
  "scan_node parse w i vg =
     (case vg of (st, g) \<Rightarrow>
        let st = get_node i st;
            (st, g) = (case w_mobility w i of
                         None \<Rightarrow> (st, graph_add_node (NodeEnd i) g)
                       | Some (x, y) \<Rightarrow>
                           (case transform_point_simulation_to_canvas x y of (cx, cy) \<Rightarrow>
                              (set_position i cx cy (set_color parse (ColourName ''red'') i st), g)))
        in fold (scan_device w i) (w_devices w i) (st, g))"

definition place_end :: "(viz_end \<Rightarrow> rat \<times> rat) \<Rightarrow> viz_end \<Rightarrow> viz \<Rightarrow> viz" where
  "place_end pos e st =
     (case pos e of (x, y) \<Rightarrow>
        (case e of NodeEnd i \<Rightarrow> set_position i x y st | ChannelEnd c \<Rightarrow> set_channel_position c x y st))"

definition scan_topology ::
    "(string \<Rightarrow> int \<times> int \<times> int) \<Rightarrow> (viz_graph \<Rightarrow> viz_end \<Rightarrow> rat \<times> rat) \<Rightarrow> ns3_world \<Rightarrow> viz \<Rightarrow> viz" where
  "scan_topology parse layout w st =
     (case fold (scan_node parse w) (map int [0..<w_count w]) (st, \<lparr>g_nodes = [], g_edges = []\<rparr>) of
        (st, g) \<Rightarrow> fold (place_end (layout g)) (g_nodes g) st)"

text \<open>The visible part of the canvas: the conversion to pixels, the page sizes of the two adjustments, and the limits that
  they put on a value that is set.\<close>

record view_port =
  to_pixels :: "rat \<times> rat \<Rightarrow> rat \<times> rat"
  page_size :: "rat \<times> rat"
  clamp :: "rat \<times> rat \<Rightarrow> rat \<times> rat"

definition center_view :: "view_port \<Rightarrow> rat \<times> rat \<Rightarrow> viz \<Rightarrow> viz" where
  "center_view vp p st =
     (case to_pixels vp p of (px, py) \<Rightarrow>
        st\<lparr>v_scroll := clamp vp (px - fst (page_size vp) / 2, py - snd (page_size vp) / 2)\<rparr>)"

definition update_node_position :: "view_port \<Rightarrow> ns3_world \<Rightarrow> int \<Rightarrow> viz \<Rightarrow> viz" where
  "update_node_position vp w i st =
     (case has_mobility w i st of (b, st) \<Rightarrow>
        if b then (case w_mobility w i of
                     None \<Rightarrow> st
                   | Some (x, y) \<Rightarrow>
                       (case transform_point_simulation_to_canvas x y of (cx, cy) \<Rightarrow>
                          let st = set_position i cx cy st
                          in if v_follow st = Some i then center_view vp (cx, cy) st else st))
        else st)"

definition update_node_positions :: "view_port \<Rightarrow> ns3_world \<Rightarrow> viz \<Rightarrow> viz" where
  "update_node_positions vp w st = fold (update_node_position vp w) (map fst (v_nodes st)) st"

section \<open>Selection\<close>

definition interest_of :: "nat \<Rightarrow> show_mode \<Rightarrow> int option \<Rightarrow> int list" where
  "interest_of n mode sel =
     (case mode of
        ShowAll \<Rightarrow> map int [0..<n]
      | ShowNone \<Rightarrow> []
      | ShowSelected \<Rightarrow> (case sel of None \<Rightarrow> [] | Some i \<Rightarrow> [i]))"

definition set_show_transmissions_mode :: "nat \<Rightarrow> show_mode \<Rightarrow> viz \<Rightarrow> viz" where
  "set_show_transmissions_mode n mode st = st\<lparr>v_mode := mode, v_interest := interest_of n mode (v_selected st)\<rparr>"

text \<open>The argument of \<^verbatim>\<open>select_node\<close>: nothing, a view of a node, a number (or a node of the simulation), or something else.\<close>

datatype select_arg = NoNode | ViewNode int | NodeIndex int | OtherArg

definition select_target :: "select_arg \<Rightarrow> viz \<Rightarrow> int option res" where
  "select_target a st =
     (case a of
        NoNode \<Rightarrow> Inr None
      | ViewNode i \<Rightarrow> Inr (Some i)
      | NodeIndex i \<Rightarrow> if map_of (v_nodes st) i = None then Inl KeyError else Inr (Some i)
      | OtherArg \<Rightarrow> Inl TypeError)"

definition select_node :: "select_arg \<Rightarrow> viz \<Rightarrow> unit res \<times> viz" where
  "select_node a st =
     (case select_target a st of
        Inl e \<Rightarrow> (Inl e, st)
      | Inr node \<Rightarrow>
          if node = v_selected st then (Inr (), st)
          else let st = (case v_selected st of None \<Rightarrow> st | Some i \<Rightarrow> set_selected False i st);
                   st = st\<lparr>v_selected := node\<rparr>;
                   st = (case node of None \<Rightarrow> st | Some i \<Rightarrow> set_selected True i st);
                   st = (if v_mode st = ShowSelected
                         then st\<lparr>v_interest := (case node of None \<Rightarrow> [] | Some i \<Rightarrow> [i])\<rparr> else st)
               in (Inr (), st))"

text \<open>\<^verbatim>\<open>center_on_node\<close> and \<^verbatim>\<open>set_follow_node\<close> take the same kinds of argument.\<close>

definition center_on_node :: "view_port \<Rightarrow> select_arg \<Rightarrow> viz \<Rightarrow> unit res \<times> viz" where
  "center_on_node vp a st =
     (case (if a = NoNode then Inl TypeError else select_target a st) of
        Inl e \<Rightarrow> (Inl e, st)
      | Inr None \<Rightarrow> (Inr (), st)
      | Inr (Some i) \<Rightarrow> (Inr (), center_view vp (n_pos (node_of st i)) st))"

definition set_follow_node :: "int option \<Rightarrow> viz \<Rightarrow> viz" where
  "set_follow_node node st = st\<lparr>v_follow := node\<rparr>"

section \<open>Mouse\<close>

text \<open>Dragging a node. \<open>mob\<close> is the position of the node's mobility model, which the drag changes.\<close>

definition begin_node_drag :: "(rat \<times> rat) option \<Rightarrow> rat \<times> rat \<Rightarrow> viz \<Rightarrow> viz" where
  "begin_node_drag mob mouse st =
     (case mob of
        None \<Rightarrow> st
      | Some p \<Rightarrow> if v_drag st \<noteq> None then st else st\<lparr>v_drag := Some \<lparr>canvas_0 = mouse, sim_0 = p\<rparr>\<rparr>)"

definition node_drag_motion :: "int \<Rightarrow> (rat \<times> rat) option \<Rightarrow> rat \<times> rat \<Rightarrow> viz \<Rightarrow> bool \<times> (rat \<times> rat) option \<times> viz" where
  "node_drag_motion i mob mouse st =
     (case mob of
        None \<Rightarrow> (False, mob, st)
      | Some p \<Rightarrow>
          (case v_drag st of
             None \<Rightarrow> (False, mob, st)
           | Some ds \<Rightarrow>
               let dx = fst mouse - fst (canvas_0 ds); dy = snd mouse - snd (canvas_0 ds);
                   px = fst (sim_0 ds) + transform_distance_canvas_to_simulation dx;
                   py = snd (sim_0 ds) + transform_distance_canvas_to_simulation dy
               in (case transform_point_simulation_to_canvas px py of (cx, cy) \<Rightarrow>
                     (True, Some (px, py), set_position i cx cy st))))"

definition end_node_drag :: "viz \<Rightarrow> viz" where
  "end_node_drag st = (if v_drag st = None then st else st\<lparr>v_drag := None\<rparr>)"

definition begin_panning :: "rat \<times> rat \<Rightarrow> viz \<Rightarrow> viz" where
  "begin_panning mouse st = st\<lparr>v_panning := Some \<lparr>initial_mouse_pos = mouse, initial_canvas_pos = v_scroll st\<rparr>\<rparr>"

definition end_panning :: "viz \<Rightarrow> viz" where
  "end_panning st = (if v_panning st = None then st else st\<lparr>v_panning := None\<rparr>)"

definition panning_motion :: "view_port \<Rightarrow> rat \<times> rat \<Rightarrow> viz \<Rightarrow> bool res \<times> viz" where
  "panning_motion vp mouse st =
     (case v_panning st of
        None \<Rightarrow> (Inl AssertionError, st)
      | Some ps \<Rightarrow>
          let dx = fst mouse - fst (initial_mouse_pos ps); dy = snd mouse - snd (initial_mouse_pos ps)
          in (Inr True, st\<lparr>v_scroll := clamp vp (fst (initial_canvas_pos ps) - dx, snd (initial_canvas_pos ps) - dy)\<rparr>))"

text \<open>The button handlers; what they do not handle returns \<^verbatim>\<open>False\<close>. The menu of button 3 is left out.\<close>

definition canvas_button_press :: "int \<Rightarrow> rat \<times> rat \<Rightarrow> viz \<Rightarrow> bool \<times> viz" where
  "canvas_button_press button mouse st = (if button = 2 then (True, begin_panning mouse st) else (False, st))"

definition canvas_button_release :: "int \<Rightarrow> viz \<Rightarrow> bool \<times> viz" where
  "canvas_button_release button st = (if button = 2 then (True, end_panning st) else (False, st))"

definition on_node_button_press :: "int \<Rightarrow> (rat \<times> rat) option \<Rightarrow> rat \<times> rat \<Rightarrow> int \<Rightarrow> viz \<Rightarrow> bool \<times> viz" where
  "on_node_button_press button mob mouse i st =
     (if button = 1 then (True, snd (select_node (ViewNode i) st))
      else if button = 3 then (True, st)
      else if button = 2 then (True, begin_node_drag mob mouse st)
      else (False, st))"

definition on_node_button_release :: "int \<Rightarrow> viz \<Rightarrow> bool \<times> viz" where
  "on_node_button_release button st = (if button = 2 then (True, end_node_drag st) else (False, st))"

definition on_root_button_press :: "int \<Rightarrow> viz \<Rightarrow> bool option \<times> viz" where
  "on_root_button_press button st = (if button = 1 then (Some True, snd (select_node NoNode st)) else (None, st))"

definition new_viz :: "nat \<Rightarrow> viz" where
  "new_viz n = set_show_transmissions_mode n ShowAll
     \<lparr>v_nodes = [], v_channels = [], v_links = [], v_bounds = Some (- 10000, - 10000, 10000, 10000), v_selected = None,
      v_mode = ShowAll, v_interest = [], v_traits = netdevice_traits, v_drag = None, v_panning = None, v_scroll = (0, 0),
      v_follow = None\<rparr>"

section \<open>Links follow the nodes\<close>

definition end_links :: "viz \<Rightarrow> viz_end \<Rightarrow> nat list" where
  "end_links st e = (case e of NodeEnd i \<Rightarrow> n_links (node_of st i) | ChannelEnd c \<Rightarrow> c_links (channel_of st c))"

definition link_ok :: "viz \<Rightarrow> nat \<Rightarrow> bool" where
  "link_ok st k \<longleftrightarrow> (let l = v_links st ! k in
     k \<in> set (end_links st (NodeEnd (link_node1 l))) \<and> k \<in> set (end_links st (link_node2 l))
     \<and> (link_data l = None \<or> link_data l = Some (end_pos st (NodeEnd (link_node1 l)), end_pos st (link_node2 l))))"

definition links_ok :: "viz \<Rightarrow> bool" where
  "links_ok st \<longleftrightarrow> (\<forall>k < length (v_links st). link_ok st k) \<and> (\<forall>e. \<forall>k \<in> set (end_links st e). k < length (v_links st))"

lemma node_of_set_node [simp]: "node_of (set_node i n st) j = (if j = i then n else node_of st j)"
  by (simp add: node_of_def set_node_def update_conv)

lemma channel_of_set_channel [simp]: "channel_of (set_channel c ch st) d = (if d = c then ch else channel_of st d)"
  by (simp add: channel_of_def set_channel_def update_conv)

lemma other_parts [simp]:
  "channel_of (set_node i n st) c = channel_of st c" "node_of (set_channel c ch st) j = node_of st j"
  "v_links (set_node i n st) = v_links st" "v_links (set_channel c ch st) = v_links st"
  by (simp_all add: node_of_def channel_of_def set_node_def set_channel_def)

lemma links_upd [simp]:
  "node_of (st\<lparr>v_links := ls\<rparr>) i = node_of st i" "channel_of (st\<lparr>v_links := ls\<rparr>) c = channel_of st c"
  "end_pos (st\<lparr>v_links := ls\<rparr>) e = end_pos st e" "end_links (st\<lparr>v_links := ls\<rparr>) e = end_links st e"
  by (simp_all add: node_of_def channel_of_def end_pos_def end_links_def cong: viz_end.case_cong)

text \<open>States with the same links, positions and link lists.\<close>

definition same_links :: "viz \<Rightarrow> viz \<Rightarrow> bool" where
  "same_links st st' \<longleftrightarrow> v_links st' = v_links st \<and> end_pos st' = end_pos st \<and> end_links st' = end_links st"

lemma same_links_ok: "same_links st st' \<Longrightarrow> links_ok st \<Longrightarrow> links_ok st'"
  by (simp add: same_links_def links_ok_def link_ok_def)

lemma same_links_refl [simp]: "same_links st st"
  by (simp add: same_links_def)

lemma same_links_trans: "same_links a b \<Longrightarrow> same_links b c \<Longrightarrow> same_links a c"
  by (simp add: same_links_def)

lemma same_links_set_node:
  "n_pos n = n_pos (node_of st i) \<Longrightarrow> n_links n = n_links (node_of st i) \<Longrightarrow> same_links st (set_node i n st)"
  by (auto simp: same_links_def end_pos_def end_links_def fun_eq_iff split: viz_end.splits)

lemma update_points_only: "\<exists>ls. update_points k st = st\<lparr>v_links := ls\<rparr> \<and> length ls = length (v_links st)"
  unfolding update_points_def Let_def by (rule exI, rule conjI, rule refl) simp

lemma fold_update_only: "\<exists>ls. fold update_points ks st = st\<lparr>v_links := ls\<rparr> \<and> length ls = length (v_links st)"
proof (induction ks arbitrary: st)
  case (Cons k ks)
  obtain ls where ls: "update_points k st = st\<lparr>v_links := ls\<rparr>" "length ls = length (v_links st)"
    using update_points_only by blast
  show ?case using Cons [of "st\<lparr>v_links := ls\<rparr>"] ls by auto
next
  case Nil
  show ?case by (intro exI [of _ "v_links st"]) simp
qed

lemma fold_update_same:
  "node_of (fold update_points ks st) i = node_of st i" "channel_of (fold update_points ks st) c = channel_of st c"
  "end_pos (fold update_points ks st) e = end_pos st e" "end_links (fold update_points ks st) e = end_links st e"
  "length (v_links (fold update_points ks st)) = length (v_links st)"
  using fold_update_only [of ks st] by auto

definition redrawn :: "viz \<Rightarrow> viz_link \<Rightarrow> viz_link" where
  "redrawn st l = l\<lparr>link_data := Some (end_pos st (NodeEnd (link_node1 l)), end_pos st (link_node2 l))\<rparr>"

lemma redrawn_simps [simp]:
  "link_node1 (redrawn st l) = link_node1 l" "link_node2 (redrawn st l) = link_node2 l"
  "link_data (redrawn st l) = Some (end_pos st (NodeEnd (link_node1 l)), end_pos st (link_node2 l))"
  "redrawn st (redrawn st l) = redrawn st l" "redrawn (st\<lparr>v_links := ls\<rparr>) l = redrawn st l"
  by (simp_all add: redrawn_def)

lemma update_points_redraws: "update_points k st = st\<lparr>v_links := (v_links st)[k := redrawn st (v_links st ! k)]\<rparr>"
  by (simp add: update_points_def redrawn_def Let_def end_pos_def)

lemma fold_update_nth:
  "k < length (v_links st) \<Longrightarrow>
    v_links (fold update_points ks st) ! k = (if k \<in> set ks then redrawn st (v_links st ! k) else v_links st ! k)"
proof (induction ks arbitrary: st)
  case (Cons j ks)
  then show ?case by (cases "k = j") (simp_all add: update_points_redraws nth_list_update)
qed simp

text \<open>Moving one end: the links of that end are redrawn, the others do not touch it.\<close>

lemma move_end_ok:
  assumes ok: "links_ok st" and links: "v_links st' = v_links st" "end_links st' = end_links st"
    and other: "\<And>e. e \<noteq> moved \<Longrightarrow> end_pos st' e = end_pos st e"
  shows "links_ok (fold update_points (end_links st moved) st')"
proof -
  let ?ks = "end_links st moved" and ?st = "fold update_points (end_links st moved) st'"
  note f = fold_update_nth [of _ st' ?ks] fold_update_same [of ?ks st']
  have "link_ok ?st k" if k: "k < length (v_links st)" for k
  proof -
    let ?l = "v_links st ! k"
    have l: "k \<in> set (end_links st (NodeEnd (link_node1 ?l)))" "k \<in> set (end_links st (link_node2 ?l))"
      "link_data ?l = None \<or> link_data ?l = Some (end_pos st (NodeEnd (link_node1 ?l)), end_pos st (link_node2 ?l))"
      using ok k by (auto simp: links_ok_def link_ok_def Let_def)
    show ?thesis
    proof (cases "k \<in> set ?ks")
      case True
      then show ?thesis using f k l links by (simp add: link_ok_def fold_update_same Let_def)
    next
      case False
      then have "NodeEnd (link_node1 ?l) \<noteq> moved" "link_node2 ?l \<noteq> moved" using l by auto
      then show ?thesis using False f k l links other by (simp add: link_ok_def fold_update_same Let_def)
    qed
  qed
  moreover have "k < length (v_links ?st)" if "k \<in> set (end_links ?st e)" for e k
    using ok that f links by (auto simp: links_ok_def fold_update_same)
  ultimately show ?thesis using f links by (simp add: links_ok_def)
qed

lemma grow_bounds_same [simp]: "same_links st (grow_bounds x y st)" "node_of (grow_bounds x y st) i = node_of st i"
  by (auto simp: grow_bounds_def same_links_def fun_eq_iff end_pos_def end_links_def node_of_def channel_of_def
      split: option.splits viz_end.splits)

lemma set_position_links_ok:
  assumes "links_ok st"
  shows "links_ok (set_position i x y st)"
proof -
  let ?n = "(node_of st i)\<lparr>n_pos := (x, y), n_svg := map_option (update_svg_position x y) (n_svg (node_of st i))\<rparr>"
  let ?st1 = "set_node i ?n st"
  have "links_ok (fold update_points (end_links st (NodeEnd i)) ?st1)"
    using assms by (rule move_end_ok) (auto simp: end_links_def end_pos_def fun_eq_iff split: viz_end.splits)
  then have moved: "links_ok (fold update_points (n_links ?n) ?st1)" by (simp add: end_links_def)
  show ?thesis
    unfolding set_position_def Let_def
    by (rule same_links_ok [OF grow_bounds_same(1)], rule same_links_ok [OF same_links_set_node moved]) simp_all
qed

lemma set_channel_position_links_ok:
  assumes "links_ok st"
  shows "links_ok (set_channel_position c x y st)"
proof -
  have "links_ok (fold update_points (end_links st (ChannelEnd c)) (set_channel c ((channel_of st c)\<lparr>c_pos := (x, y)\<rparr>) st))"
    using assms by (rule move_end_ok) (auto simp: end_links_def end_pos_def fun_eq_iff split: viz_end.splits)
  then show ?thesis by (simp add: set_channel_position_def Let_def end_links_def)
qed

lemma create_link_links_ok:
  assumes "links_ok st"
  shows "links_ok (create_link i e st)"
proof -
  let ?k = "length (v_links st)" and ?st = "create_link i e st"
  have links: "v_links ?st = v_links st @ [\<lparr>link_node1 = i, link_node2 = e, link_data = None\<rparr>]"
    by (cases e) (simp_all add: create_link_def Let_def)
  have pos: "end_pos ?st f = end_pos st f" for f
    by (cases e; cases f) (auto simp: create_link_def Let_def end_pos_def)
  have el: "set (end_links ?st f) = set (end_links st f) \<union> (if f = NodeEnd i \<or> f = e then {?k} else {})" for f
    by (cases e; cases f) (auto simp: create_link_def Let_def end_links_def)
  have "link_ok ?st k" if "k < length (v_links ?st)" for k
    using assms that by (cases "k = ?k") (auto simp: links_ok_def link_ok_def links pos el Let_def nth_append)
  then show ?thesis using assms by (auto simp: links_ok_def links el less_Suc_eq split: if_splits)
qed

lemma get_links_ok:
  "links_ok st \<Longrightarrow> links_ok (get_node i st)" "links_ok st \<Longrightarrow> links_ok (get_channel c st)"
proof -
  have "same_links st (get_node i st)"
    by (auto simp: get_node_def node_of_def intro!: same_links_set_node)
  then show "links_ok st \<Longrightarrow> links_ok (get_node i st)" using same_links_ok by blast
  have "same_links st (get_channel c st)"
    by (auto simp: get_channel_def same_links_def end_pos_def end_links_def fun_eq_iff channel_of_def [of st] split: viz_end.splits)
  then show "links_ok st \<Longrightarrow> links_ok (get_channel c st)" using same_links_ok by blast
qed

section \<open>Selection and appearance\<close>

text \<open>What all operations on positions leave alone: which nodes are selected, and that a node looks as its state says.\<close>

definition node_same :: "viz_node \<Rightarrow> viz_node \<Rightarrow> bool" where
  "node_same n m \<longleftrightarrow> n_selected m = n_selected n \<and> (node_look n = n \<longrightarrow> node_look m = m)"

definition nodes_same :: "viz \<Rightarrow> viz \<Rightarrow> bool" where
  "nodes_same st st' \<longleftrightarrow> (\<forall>i. node_same (node_of st i) (node_of st' i)) \<and> v_selected st' = v_selected st
     \<and> v_mode st' = v_mode st \<and> v_interest st' = v_interest st"

lemma nodes_same_refl [simp]: "nodes_same st st"
  by (simp add: nodes_same_def node_same_def)

lemma nodes_same_trans: "nodes_same a b \<Longrightarrow> nodes_same b c \<Longrightarrow> nodes_same a c"
  by (simp add: nodes_same_def node_same_def)

lemma node_look_idem [simp]: "node_look (node_look n) = node_look n"
  by (simp add: node_look_def Let_def)

lemma node_look_pos [simp]:
  "n_pos (node_look n) = n_pos n" "n_links (node_look n) = n_links n" "n_selected (node_look n) = n_selected n"
  "n_label (node_look n) = n_label n" "n_label_item (node_look n) = n_label_item n"
  by (simp_all add: node_look_def Let_def)

text \<open>The fields that the appearance does not depend on.\<close>

lemma node_look_upd:
  "node_look n = n \<Longrightarrow> node_look (n\<lparr>n_pos := p\<rparr>) = n\<lparr>n_pos := p\<rparr>"
  "node_look n = n \<Longrightarrow> node_look (n\<lparr>n_links := ks\<rparr>) = n\<lparr>n_links := ks\<rparr>"
  "node_look n = n \<Longrightarrow> node_look (n\<lparr>n_mobility := b\<rparr>) = n\<lparr>n_mobility := b\<rparr>"
  "node_look n = n \<Longrightarrow> node_look (n\<lparr>n_label_item := t\<rparr>) = n\<lparr>n_label_item := t\<rparr>"
  "node_look n = n \<Longrightarrow> node_look (n\<lparr>n_svg := map_option f (n_svg n)\<rparr>) = n\<lparr>n_svg := map_option f (n_svg n)\<rparr>"
  by (cases n, simp add: node_look_def Let_def)+

lemma set_node_same: "node_same (node_of st i) n \<Longrightarrow> nodes_same st (set_node i n st)"
  by (auto simp: nodes_same_def node_same_def set_node_def node_of_def update_conv)

lemma new_node_look [simp]: "node_look new_node = new_node" "n_selected new_node = False" "n_links new_node = []"
  by (simp_all add: new_node_def)

lemma update_points_same: "nodes_same st (fold update_points ks st)"
proof -
  obtain ls where "fold update_points ks st = st\<lparr>v_links := ls\<rparr>" using fold_update_only [of ks st] by blast
  then show ?thesis by (simp add: nodes_same_def node_same_def)
qed

lemma grow_bounds_nodes_same: "nodes_same st (grow_bounds x y st)"
  by (auto simp: nodes_same_def node_same_def grow_bounds_def node_of_def split: option.splits)

lemma set_position_same: "nodes_same st (set_position i x y st)"
proof -
  let ?n = "(node_of st i)\<lparr>n_pos := (x, y), n_svg := map_option (update_svg_position x y) (n_svg (node_of st i))\<rparr>"
  let ?st1 = "set_node i ?n st" and ?st2 = "fold update_points (n_links ?n) (set_node i ?n st)"
  let ?m = "(node_of ?st2 i)\<lparr>n_label_item := map_option (\<lambda>(t, _). (t, x, y + n_size (node_of ?st2 i) * 3)) (n_label_item (node_of ?st2 i))\<rparr>"
  have "node_same (node_of st i) ?n"
    using node_look_upd(5) [OF node_look_upd(1) [of "node_of st i" "(x, y)"]] by (auto simp: node_same_def)
  then have "nodes_same st ?st1" by (rule set_node_same)
  moreover have "nodes_same ?st1 ?st2" by (rule update_points_same)
  moreover have "nodes_same ?st2 (set_node i ?m ?st2)" by (rule set_node_same) (auto simp: node_same_def node_look_upd)
  moreover have "nodes_same (set_node i ?m ?st2) (set_position i x y st)"
    unfolding set_position_def Let_def by (rule grow_bounds_nodes_same)
  ultimately show ?thesis using nodes_same_trans by blast
qed


section \<open>The invariant of the visualizer\<close>

text \<open>Drawn links join the positions of their ends; exactly the selected node is marked; every node looks as its state says; the
  simulation is told the nodes of interest that the mode asks for.\<close>

definition viz_ok :: "nat \<Rightarrow> viz \<Rightarrow> bool" where
  "viz_ok N st \<longleftrightarrow> links_ok st \<and> (\<forall>i. n_selected (node_of st i) = (v_selected st = Some i))
     \<and> (\<forall>i. node_look (node_of st i) = node_of st i) \<and> v_interest st = interest_of N (v_mode st) (v_selected st)"

lemma viz_ok_same: "viz_ok N st \<Longrightarrow> nodes_same st st' \<Longrightarrow> links_ok st' \<Longrightarrow> viz_ok N st'"
  by (simp add: viz_ok_def nodes_same_def node_same_def)

lemma viz_ok_links: "viz_ok N st \<Longrightarrow> links_ok st"
  by (simp add: viz_ok_def)

lemma set_position_viz_ok: "viz_ok N st \<Longrightarrow> viz_ok N (set_position i x y st)"
  using viz_ok_same set_position_same set_position_links_ok viz_ok_links by blast

lemma set_channel_position_viz_ok:
  assumes "viz_ok N st"
  shows "viz_ok N (set_channel_position c x y st)"
proof -
  let ?st1 = "set_channel c ((channel_of st c)\<lparr>c_pos := (x, y)\<rparr>) st"
  have "nodes_same st ?st1" by (simp add: nodes_same_def node_same_def set_channel_def node_of_def)
  then have "nodes_same st (set_channel_position c x y st)"
    unfolding set_channel_position_def Let_def by (rule nodes_same_trans) (rule update_points_same)
  then show ?thesis using assms viz_ok_same set_channel_position_links_ok viz_ok_links by blast
qed

lemma get_viz_ok:
  "viz_ok N st \<Longrightarrow> viz_ok N (get_node i st)" "viz_ok N st \<Longrightarrow> viz_ok N (get_channel c st)"
proof -
  have "nodes_same st (get_node i st)" "nodes_same st (get_channel c st)"
    by (auto simp: get_node_def get_channel_def nodes_same_def node_same_def set_node_def set_channel_def node_of_def update_conv)
  then show "viz_ok N st \<Longrightarrow> viz_ok N (get_node i st)" "viz_ok N st \<Longrightarrow> viz_ok N (get_channel c st)"
    using viz_ok_same get_links_ok viz_ok_links by blast+
qed

lemma create_link_viz_ok:
  assumes "viz_ok N st"
  shows "viz_ok N (create_link i e st)"
proof -
  have "nodes_same st (create_link i e st)"
    by (cases e) (auto simp: create_link_def Let_def nodes_same_def node_same_def node_look_upd,
        simp_all add: set_node_def set_channel_def)
  then show ?thesis using assms viz_ok_same create_link_links_ok viz_ok_links by blast
qed

lemma has_mobility_viz_ok:
  assumes "viz_ok N st"
  shows "viz_ok N (snd (has_mobility w i st))"
proof (cases "n_mobility (node_of st i)")
  case None
  let ?n = "(node_of st i)\<lparr>n_mobility := Some (w_mobility w i \<noteq> None)\<rparr>"
  have "nodes_same st (set_node i ?n st)" by (rule set_node_same) (simp add: node_same_def node_look_upd)
  moreover have "links_ok (set_node i ?n st)"
    by (rule same_links_ok [OF same_links_set_node viz_ok_links [OF assms]]) simp_all
  ultimately have "viz_ok N (set_node i ?n st)" using assms viz_ok_same by blast
  then show ?thesis using None by (simp add: has_mobility_def Let_def)
qed (use assms in \<open>simp add: has_mobility_def\<close>)

text \<open>A change of a node that is followed by \<^verbatim>\<open>_update_appearance\<close>.\<close>

lemma change_node_result:
  assumes f: "\<And>n. n_pos (f n) = n_pos n \<and> n_links (f n) = n_links n" and links: "links_ok st"
  shows "links_ok (change_node f i st) \<and> n_selected (node_of (change_node f i st) i) = n_selected (f (node_of st i))
    \<and> node_look (node_of (change_node f i st) i) = node_of (change_node f i st) i
    \<and> (\<forall>j. j \<noteq> i \<longrightarrow> node_same (node_of st j) (node_of (change_node f i st) j))
    \<and> v_selected (change_node f i st) = v_selected st \<and> v_mode (change_node f i st) = v_mode st
    \<and> v_interest (change_node f i st) = v_interest st"
proof -
  let ?st1 = "set_node i (f (node_of st i)) st"
  let ?n = "node_look (f (node_of st i))"
  have ok: "links_ok (set_node i n ?st1)" if "n_pos n = n_pos ?n" "n_links n = n_links ?n" for n
    using that f by (intro same_links_ok [OF same_links_trans [OF same_links_set_node same_links_set_node] links]) simp_all
  show ?thesis
  proof (cases "n_label ?n")
    case None
    then have "change_node f i st = set_node i ?n ?st1" by (simp add: change_node_def update_appearance_def Let_def)
    then show ?thesis using ok [of ?n] by (simp add: node_same_def) (simp add: set_node_def)
  next
    case (Some t)
    let ?m = "?n\<lparr>n_label_item := Some (t, case n_label_item ?n of None \<Rightarrow> (0, 0) | Some (_, p) \<Rightarrow> p)\<rparr>"
    obtain x y where xy: "n_pos ?n = (x, y)" by fastforce
    let ?st2 = "set_node i ?m ?st1"
    have run: "change_node f i st = set_position i x y ?st2"
      using Some xy by (simp add: change_node_def update_appearance_def Let_def)
    have "links_ok (set_position i x y ?st2)" using ok [of ?m] set_position_links_ok by simp
    moreover have "nodes_same ?st2 (set_position i x y ?st2)" by (rule set_position_same)
    moreover have "node_look ?m = ?m" by (rule node_look_upd(4)) simp
    ultimately show ?thesis unfolding run by (simp add: nodes_same_def node_same_def) (simp add: set_node_def)
  qed
qed

lemma change_node_viz_ok:
  assumes "\<And>n. n_pos (f n) = n_pos n \<and> n_links (f n) = n_links n \<and> n_selected (f n) = n_selected n" "viz_ok N st"
  shows "viz_ok N (change_node f i st)"
proof -
  have f: "\<And>n. n_pos (f n) = n_pos n \<and> n_links (f n) = n_links n" using assms(1) by simp
  note r = change_node_result [OF f viz_ok_links [OF assms(2)], of i]
  have "n_selected (node_of (change_node f i st) j) = (v_selected st = Some j)
      \<and> node_look (node_of (change_node f i st) j) = node_of (change_node f i st) j" for j
    using r assms by (cases "j = i") (simp_all add: viz_ok_def node_same_def)
  then show ?thesis using r assms(2) by (simp add: viz_ok_def)
qed

lemma set_viz_ok:
  "viz_ok N st \<Longrightarrow> viz_ok N (set_highlighted b i st)" "viz_ok N st \<Longrightarrow> viz_ok N (set_size v i st)"
  "viz_ok N st \<Longrightarrow> viz_ok N (set_color parse c i st)"
  by (simp_all add: set_highlighted_def set_size_def set_color_def change_node_viz_ok)

lemma fold_viz_ok: "(\<And>x st. viz_ok N st \<Longrightarrow> viz_ok N (f x st)) \<Longrightarrow> viz_ok N st \<Longrightarrow> viz_ok N (fold f xs st)"
  by (induction xs arbitrary: st) simp_all

lemma fold_pair_viz_ok:
  "(\<And>x vg. viz_ok N (fst vg) \<Longrightarrow> viz_ok N (fst (f x vg))) \<Longrightarrow> viz_ok N (fst vg) \<Longrightarrow> viz_ok N (fst (fold f xs vg))"
  by (induction xs arbitrary: vg) simp_all

lemma scan_peer_viz_ok: "viz_ok N (fst vg) \<Longrightarrow> viz_ok N (fst (scan_peer w i j vg))"
  using has_mobility_viz_ok [of N "get_node j (fst vg)" w j]
  by (auto simp: scan_peer_def Let_def get_viz_ok create_link_viz_ok split: prod.splits)

lemma traits_viz_ok: "viz_ok N (st\<lparr>v_traits := t\<rparr>) = viz_ok N st"
  by (simp add: viz_ok_def links_ok_def link_ok_def end_pos_def end_links_def node_of_def channel_of_def Let_def
      cong: viz_end.case_cong)

lemma scan_device_viz_ok: "viz_ok N (fst vg) \<Longrightarrow> viz_ok N (fst (scan_device w i d vg))"
  by (auto simp: scan_device_def Let_def traits_viz_ok get_viz_ok create_link_viz_ok
      intro!: fold_pair_viz_ok scan_peer_viz_ok split: prod.splits)

lemma scan_node_viz_ok: "viz_ok N (fst vg) \<Longrightarrow> viz_ok N (fst (scan_node parse w i vg))"
  by (auto simp: scan_node_def Let_def get_viz_ok set_viz_ok set_position_viz_ok
      intro!: fold_pair_viz_ok scan_device_viz_ok split: prod.splits option.splits)

lemma scan_topology_viz_ok:
  assumes "viz_ok N st"
  shows "viz_ok N (scan_topology parse layout w st)"
proof -
  let ?vg = "fold (scan_node parse w) (map int [0..<w_count w]) (st, \<lparr>g_nodes = [], g_edges = []\<rparr>)"
  have "viz_ok N (fst ?vg)" using assms by (intro fold_pair_viz_ok scan_node_viz_ok) simp_all
  moreover have "viz_ok N (place_end pos e s)" if "viz_ok N s" for pos e s
    using that by (auto simp: place_end_def set_position_viz_ok set_channel_position_viz_ok split: prod.splits viz_end.splits)
  ultimately show ?thesis by (auto simp: scan_topology_def intro!: fold_viz_ok split: prod.splits)
qed

lemma scroll_viz_ok: "viz_ok N (st\<lparr>v_scroll := p\<rparr>) = viz_ok N st" "viz_ok N (st\<lparr>v_follow := f\<rparr>) = viz_ok N st"
  "viz_ok N (st\<lparr>v_drag := d\<rparr>) = viz_ok N st" "viz_ok N (st\<lparr>v_panning := q\<rparr>) = viz_ok N st"
  by (simp_all add: viz_ok_def links_ok_def link_ok_def end_pos_def end_links_def node_of_def channel_of_def Let_def
      cong: viz_end.case_cong)

lemma update_node_positions_viz_ok:
  assumes "viz_ok N st"
  shows "viz_ok N (update_node_positions vp w st)"
proof -
  have "viz_ok N (update_node_position vp w i s)" if "viz_ok N s" for i s
    using has_mobility_viz_ok [OF that, of w i]
    by (auto simp: update_node_position_def center_view_def Let_def scroll_viz_ok set_position_viz_ok
        split: prod.splits option.splits)
  then show ?thesis using assms by (auto simp: update_node_positions_def intro!: fold_viz_ok)
qed

lemma mode_viz_ok: "viz_ok N st \<Longrightarrow> viz_ok N (set_show_transmissions_mode N mode st)"
  by (simp add: set_show_transmissions_mode_def viz_ok_def links_ok_def link_ok_def end_pos_def end_links_def node_of_def
      channel_of_def Let_def cong: viz_end.case_cong)

lemma set_selected_result:
  assumes "links_ok st"
  shows "links_ok (set_selected b i st) \<and> n_selected (node_of (set_selected b i st) i) = b
    \<and> node_look (node_of (set_selected b i st) i) = node_of (set_selected b i st) i
    \<and> (\<forall>j. j \<noteq> i \<longrightarrow> node_same (node_of st j) (node_of (set_selected b i st) j))
    \<and> v_selected (set_selected b i st) = v_selected st \<and> v_mode (set_selected b i st) = v_mode st
    \<and> v_interest (set_selected b i st) = v_interest st"
  using change_node_result [OF _ assms, of "\<lambda>n. n\<lparr>n_selected := b\<rparr>" i] by (simp add: set_selected_def)


definition marked :: "int option \<Rightarrow> viz \<Rightarrow> bool" where
  "marked sel st \<longleftrightarrow> links_ok st \<and> (\<forall>i. n_selected (node_of st i) = (sel = Some i)) \<and> (\<forall>i. node_look (node_of st i) = node_of st i)"

lemma marked_fields [simp]:
  "marked sel (st\<lparr>v_selected := s\<rparr>) = marked sel st" "marked sel (st\<lparr>v_interest := n\<rparr>) = marked sel st"
  by (simp_all add: marked_def links_ok_def link_ok_def end_pos_def end_links_def node_of_def channel_of_def Let_def
      cong: viz_end.case_cong)

lemma unmark:
  assumes "marked (Some i) st"
  shows "marked None (set_selected False i st)"
proof -
  note r = set_selected_result [of st False i]
  have "\<not> n_selected (node_of (set_selected False i st) j) \<and> node_look (node_of (set_selected False i st) j) = node_of (set_selected False i st) j" for j
    using r assms by (cases "j = i") (simp_all add: marked_def node_same_def)
  then show ?thesis using r assms by (simp add: marked_def)
qed

lemma mark:
  assumes "marked None st"
  shows "marked (Some i) (set_selected True i st)"
proof -
  note r = set_selected_result [of st True i]
  have "n_selected (node_of (set_selected True i st) j) = (j = i) \<and> node_look (node_of (set_selected True i st) j) = node_of (set_selected True i st) j" for j
    using r assms by (cases "j = i") (simp_all add: marked_def node_same_def)
  then show ?thesis using r assms by (auto simp: marked_def)
qed

lemma select_node_result:
  assumes "viz_ok N st" "select_target a st = Inr node"
  shows "\<exists>st'. select_node a st = (Inr (), st') \<and> viz_ok N st' \<and> v_selected st' = node \<and> v_mode st' = v_mode st"
proof (cases "node = v_selected st")
  case True
  then show ?thesis using assms by (simp add: select_node_def)
next
  case False
  let ?st1 = "case v_selected st of None \<Rightarrow> st | Some i \<Rightarrow> set_selected False i st"
  let ?st2 = "?st1\<lparr>v_selected := node\<rparr>"
  let ?st3 = "case node of None \<Rightarrow> ?st2 | Some i \<Rightarrow> set_selected True i ?st2"
  let ?int = "case node of None \<Rightarrow> [] | Some i \<Rightarrow> [i]"
  let ?st4 = "if v_mode ?st3 = ShowSelected then ?st3\<lparr>v_interest := ?int\<rparr> else ?st3"
  have m0: "marked (v_selected st) st" "links_ok st" "v_interest st = interest_of N (v_mode st) (v_selected st)"
    using assms(1) by (simp_all add: marked_def viz_ok_def)
  have m1: "marked None ?st1" "v_mode ?st1 = v_mode st" "v_interest ?st1 = v_interest st"
    using m0 unmark set_selected_result [OF m0(2)] by (auto split: option.splits)
  then have m2: "marked None ?st2" by (simp only: marked_fields)
  then have l2: "links_ok ?st2" by (simp only: marked_def)
  have m3: "marked node ?st3" "v_mode ?st3 = v_mode st" "v_interest ?st3 = v_interest st" "v_selected ?st3 = node"
    using m1 m2 mark set_selected_result [OF l2] by (auto split: option.splits)
  have "v_interest ?st4 = interest_of N (v_mode ?st4) node"
    using m3 m0(3) by (auto simp: interest_of_def split: show_mode.splits)
  then have "viz_ok N ?st4" using m3 marked_fields(2) [where sel = node and st = ?st3 and n = ?int] by (auto simp: viz_ok_def marked_def)
  moreover have "select_node a st = (Inr (), ?st4)" using False assms(2) by (simp add: select_node_def Let_def)
  ultimately show ?thesis using m3 by (intro exI [of _ ?st4]) simp
qed


section \<open>Sessions\<close>

text \<open>Everything that changes the state while the visualizer runs.\<close>

inductive viz_step :: "nat \<Rightarrow> viz \<Rightarrow> viz \<Rightarrow> bool" for N :: nat where
  scan: "viz_step N st (scan_topology parse layout w st)"
| positions: "viz_step N st (update_node_positions vp w st)"
| select: "viz_step N st (snd (select_node a st))"
| mode: "viz_step N st (set_show_transmissions_mode N m st)"
| highlight: "viz_step N st (set_highlighted b i st)"
| resize: "viz_step N st (set_size v i st)"
| recolour: "viz_step N st (set_color parse c i st)"
| icon: "viz_step N st (snd (set_svg_icon svgitem f width height ax ay i st))"
| drag_begin: "viz_step N st (begin_node_drag mob mouse st)"
| drag_move: "viz_step N st (snd (snd (node_drag_motion i mob mouse st)))"
| drag_end: "viz_step N st (end_node_drag st)"
| pan_begin: "viz_step N st (begin_panning mouse st)"
| pan_move: "viz_step N st (snd (panning_motion vp mouse st))"
| pan_end: "viz_step N st (end_panning st)"
| centre: "viz_step N st (snd (center_on_node vp a st))"
| follow: "viz_step N st (set_follow_node node st)"

lemma set_svg_icon_viz_ok: "viz_ok N st \<Longrightarrow> viz_ok N (snd (set_svg_icon svgitem f width height ax ay i st))"
  by (auto simp: set_svg_icon_def Let_def change_node_viz_ok split: option.splits sum.splits prod.splits)

lemma select_node_viz_ok: "viz_ok N st \<Longrightarrow> viz_ok N (snd (select_node a st))"
  using select_node_result [of N st a] by (cases "select_target a st") (auto simp: select_node_def)

lemma viz_step_ok: "viz_step N st st' \<Longrightarrow> viz_ok N st \<Longrightarrow> viz_ok N st'"
  by (induction rule: viz_step.induct)
    (auto simp: scan_topology_viz_ok update_node_positions_viz_ok select_node_viz_ok mode_viz_ok set_viz_ok
      set_svg_icon_viz_ok begin_node_drag_def node_drag_motion_def end_node_drag_def begin_panning_def panning_motion_def
      end_panning_def center_on_node_def center_view_def set_follow_node_def scroll_viz_ok set_position_viz_ok Let_def
      split: option.splits prod.splits sum.splits if_splits)

lemma new_viz_ok: "viz_ok N (new_viz N)"
  by (auto simp: new_viz_def set_show_transmissions_mode_def viz_ok_def links_ok_def link_ok_def node_of_def end_links_def
      channel_of_def new_channel_def split: viz_end.splits)

text \<open>C6: In every state that a session reaches, whatever the user does and whatever the simulation reports: every link that is
  drawn joins the current positions of its two ends, exactly the selected node is marked as selected, every node has the
  size, colour and outline that its state asks for, and the simulation reports the nodes that the chosen mode asks for.\<close>

theorem session_invariant:
  assumes "(viz_step N)\<^sup>*\<^sup>* (new_viz N) st"
  shows "(\<forall>k < length (v_links st). \<forall>p. link_data (v_links st ! k) = Some p \<longrightarrow>
      p = (end_pos st (NodeEnd (link_node1 (v_links st ! k))), end_pos st (link_node2 (v_links st ! k))))
    \<and> (\<forall>i. n_selected (node_of st i) = (v_selected st = Some i))
    \<and> (\<forall>i. node_look (node_of st i) = node_of st i)
    \<and> v_interest st = interest_of N (v_mode st) (v_selected st)"
proof -
  have "viz_ok N st" using assms by (induction rule: rtranclp_induct) (auto simp: new_viz_ok viz_step_ok)
  then show ?thesis by (auto simp: viz_ok_def links_ok_def link_ok_def Let_def)
qed

definition sample_session :: viz where
  "sample_session = snd (select_node (ViewNode 1) (set_show_transmissions_mode 2 ShowSelected (new_viz 2)))"

theorem session_invariant_witness:
  "v_interest sample_session = interest_of 2 (v_mode sample_session) (v_selected sample_session)"
proof -
  have "(viz_step 2)\<^sup>*\<^sup>* (new_viz 2) sample_session"
    unfolding sample_session_def
    by (rule converse_rtranclp_into_rtranclp, rule viz_step.mode, rule r_into_rtranclp, rule viz_step.select)
  then show ?thesis using session_invariant by blast
qed

text \<open>While a node is dragged it follows the mouse: on the canvas it is always exactly where it was when the drag began, moved by
  as much as the mouse has moved, and its mobility model has the corresponding position.\<close>

theorem drag_follows_mouse:
  assumes "v_drag st = None" "mob = Some p"
    and "node_drag_motion i (Some q) mouse st' = (moved, mob', st'')" "v_drag st' = v_drag (begin_node_drag mob mouse0 st)"
  shows "moved \<and> n_pos (node_of st'' i) = (fst p * PIXELS_PER_METER + (fst mouse - fst mouse0), snd p * PIXELS_PER_METER + (snd mouse - snd mouse0))
    \<and> mob' = Some (fst p + (fst mouse - fst mouse0) / PIXELS_PER_METER, snd p + (snd mouse - snd mouse0) / PIXELS_PER_METER)"
proof -
  have d: "v_drag st' = Some \<lparr>canvas_0 = mouse0, sim_0 = p\<rparr>" using assms by (simp add: begin_node_drag_def)
  have pos: "n_pos (node_of (set_position i x y s) i) = (x, y)" for x y s
    by (simp add: set_position_def Let_def fold_update_same)
  show ?thesis
    using assms(3) d
    by (auto simp: node_drag_motion_def Let_def pos transform_point_simulation_to_canvas_def
        transform_distance_canvas_to_simulation_def PIXELS_PER_METER_def distrib_right)
qed

theorem drag_follows_mouse_witness:
  "\<exists>moved mob' st''. node_drag_motion 0 (Some (1, 2)) (40, 50) (begin_node_drag (Some (1, 2)) (10, 10) (new_viz 1)) = (moved, mob', st'')
    \<and> n_pos (node_of st'' 0) = (1 * PIXELS_PER_METER + (40 - 10), 2 * PIXELS_PER_METER + (50 - 10))"
proof -
  obtain moved mob' st'' where run: "node_drag_motion 0 (Some (1, 2)) (40, 50) (begin_node_drag (Some (1, 2)) (10, 10) (new_viz 1))
      = (moved, mob', st'')" by (metis prod_cases3)
  have "v_drag (new_viz 1) = None" by (simp add: new_viz_def set_show_transmissions_mode_def)
  then show ?thesis using drag_follows_mouse [OF _ refl run refl] run by auto
qed

section \<open>The links of the topology\<close>

text \<open>The links that one node, one device gives rise to.\<close>

definition wired :: "(string \<times> net_traits) list \<Rightarrow> ns3_device \<Rightarrow> bool" where
  "wired table d = (let t = fst (lookup_netdevice_traits (d_class d) table) in is_wireless t \<noteq> Some True \<and> \<not> is_virtual t)"

definition device_links :: "(string \<times> net_traits) list \<Rightarrow> int \<Rightarrow> ns3_device \<Rightarrow> (int \<times> viz_end) list" where
  "device_links table i d =
     (if \<not> wired table d then []
      else if 2 < length (d_peers d) then [(i, ChannelEnd (d_channel d))]
      else map (\<lambda>j. (i, NodeEnd j)) (filter (\<lambda>j. j \<noteq> i) (d_peers d)))"

definition topology_links :: "(string \<times> net_traits) list \<Rightarrow> ns3_world \<Rightarrow> (int \<times> viz_end) list" where
  "topology_links table w = concat (map (\<lambda>i. concat (map (device_links table i) (w_devices w i))) (map int [0..<w_count w]))"

definition link_ends :: "viz \<Rightarrow> (int \<times> viz_end) list" where
  "link_ends st = map (\<lambda>l. (link_node1 l, link_node2 l)) (v_links st)"

lemma link_ends_parts [simp]:
  "link_ends (set_node i n st) = link_ends st" "link_ends (set_channel c ch st) = link_ends st"
  "link_ends (get_node i st) = link_ends st" "link_ends (get_channel c st) = link_ends st"
  "link_ends (grow_bounds x y st) = link_ends st" "link_ends (st\<lparr>v_traits := t\<rparr>) = link_ends st"
  by (auto simp: link_ends_def get_node_def get_channel_def grow_bounds_def split: option.splits)

lemma link_ends_points [simp]: "link_ends (fold update_points ks st) = link_ends st"
proof (rule nth_equalityI)
  fix k
  assume "k < length (link_ends (fold update_points ks st))"
  then show "link_ends (fold update_points ks st) ! k = link_ends st ! k"
    by (simp add: link_ends_def fold_update_same fold_update_nth)
qed (simp add: link_ends_def fold_update_same)

lemma link_ends_position [simp]:
  "link_ends (set_position i x y st) = link_ends st" "link_ends (set_channel_position c x y st) = link_ends st"
  by (simp_all add: set_position_def set_channel_position_def Let_def)

lemma link_ends_change [simp]: "link_ends (change_node f i st) = link_ends st"
  by (auto simp: change_node_def update_appearance_def Let_def split: option.splits prod.splits)

lemma link_ends_create [simp]: "link_ends (create_link i e st) = link_ends st @ [(i, e)]"
  by (cases e) (simp_all add: create_link_def Let_def link_ends_def)

text \<open>The traits of a class do not change during the scan.\<close>

definition traits_grow :: "(string \<times> net_traits) list \<Rightarrow> viz \<Rightarrow> bool" where
  "traits_grow table st \<longleftrightarrow> (\<forall>c. fst (lookup_netdevice_traits c (v_traits st)) = fst (lookup_netdevice_traits c table))"


lemma traits_parts [simp]:
  "v_traits (set_node i n st) = v_traits st" "v_traits (set_channel c ch st) = v_traits st"
  "v_traits (get_node i st) = v_traits st" "v_traits (get_channel c st) = v_traits st"
  "v_traits (grow_bounds x y st) = v_traits st" "v_traits (create_link i e st) = v_traits st"
  "v_traits (fold update_points ks st) = v_traits st"
  using fold_update_only [of ks st]
  by (auto simp: set_node_def set_channel_def get_node_def get_channel_def grow_bounds_def create_link_def Let_def
      split: option.splits viz_end.splits)

lemma traits_position [simp]:
  "v_traits (set_position i x y st) = v_traits st" "v_traits (change_node f i st) = v_traits st"
  by (auto simp: set_position_def change_node_def update_appearance_def Let_def split: option.splits prod.splits)

lemma lookup_traits_again:
  "fst (lookup_netdevice_traits c (fst (snd (lookup_netdevice_traits d table)))) = fst (lookup_netdevice_traits c table)"
  by (auto simp: lookup_netdevice_traits_def Let_def update_conv split: option.splits)

lemma has_mobility_parts [simp]:
  "link_ends (snd (has_mobility w i st)) = link_ends st" "v_traits (snd (has_mobility w i st)) = v_traits st"
  by (auto simp: has_mobility_def Let_def split: option.splits)

lemma scan_peer_links:
  "link_ends (fst (scan_peer w i j vg)) = link_ends (fst vg) @ (if j = i then [] else [(i, NodeEnd j)])
    \<and> v_traits (fst (scan_peer w i j vg)) = v_traits (fst vg)"
  using has_mobility_parts [of w j "get_node j (fst vg)"]
  by (cases vg; cases "has_mobility w j (get_node j (fst vg))") (auto simp: scan_peer_def Let_def simp del: has_mobility_parts)

lemma scan_peers_links:
  "link_ends (fst (fold (scan_peer w i) js vg)) = link_ends (fst vg) @ map (\<lambda>j. (i, NodeEnd j)) (filter (\<lambda>j. j \<noteq> i) js)
    \<and> v_traits (fst (fold (scan_peer w i) js vg)) = v_traits (fst vg)"
  by (induction js arbitrary: vg) (simp_all add: scan_peer_links)

lemma scan_device_links:
  assumes "traits_grow table (fst vg)"
  shows "link_ends (fst (scan_device w i d vg)) = link_ends (fst vg) @ device_links table i d
    \<and> traits_grow table (fst (scan_device w i d vg))"
proof -
  obtain st g where vg: "vg = (st, g)" by (cases vg)
  obtain t table' b where l: "lookup_netdevice_traits (d_class d) (v_traits st) = (t, table', b)" by (metis prod_cases3)
  have t: "fst (lookup_netdevice_traits (d_class d) table) = t" using assms vg l unfolding traits_grow_def by (metis fst_conv)
  have grow: "traits_grow table (st\<lparr>v_traits := table'\<rparr>)"
    using assms vg lookup_traits_again [of _ "d_class d" "v_traits st"] l by (simp add: traits_grow_def)
  show ?thesis
    using grow t scan_peers_links [of w i "d_peers d" "(st\<lparr>v_traits := table'\<rparr>, g)"]
    by (auto simp: vg l scan_device_def device_links_def wired_def Let_def traits_grow_def)
qed

lemma scan_devices_links:
  "traits_grow table (fst vg) \<Longrightarrow>
    link_ends (fst (fold (scan_device w i) ds vg)) = link_ends (fst vg) @ concat (map (device_links table i) ds)
    \<and> traits_grow table (fst (fold (scan_device w i) ds vg))"
  by (induction ds arbitrary: vg) (simp_all add: scan_device_links)

lemma scan_node_links:
  assumes "traits_grow table (fst vg)"
  shows "link_ends (fst (scan_node parse w i vg)) = link_ends (fst vg) @ concat (map (device_links table i) (w_devices w i))
    \<and> traits_grow table (fst (scan_node parse w i vg))"
proof -
  obtain st g where vg: "vg = (st, g)" by (cases vg)
  let ?vg = "case w_mobility w i of None \<Rightarrow> (get_node i st, graph_add_node (NodeEnd i) g)
    | Some (x, y) \<Rightarrow> (case transform_point_simulation_to_canvas x y of (cx, cy) \<Rightarrow>
        (set_position i cx cy (set_color parse (ColourName ''red'') i (get_node i st)), g))"
  have "link_ends (fst ?vg) = link_ends st" "v_traits (fst ?vg) = v_traits st"
    by (auto simp: set_color_def split: option.splits prod.splits)
  then have "traits_grow table (fst ?vg)" "link_ends (fst ?vg) = link_ends (fst vg)"
    using assms vg by (simp_all add: traits_grow_def)
  moreover have "scan_node parse w i vg = fold (scan_device w i) (w_devices w i) ?vg"
    by (simp add: vg scan_node_def Let_def case_prod_beta split: option.split)
  ultimately show ?thesis using scan_devices_links by simp
qed

text \<open>C10: The scan of the topology creates, in this order, one link for every wired device on a channel with more than two
  devices, to the channel, and one link to every other node for a device on a smaller channel. So a point-to-point channel between
  two nodes gives two links, one from each end.\<close>

theorem scan_topology_links:
  "link_ends (scan_topology parse layout w (new_viz N)) = topology_links netdevice_traits w"
proof -
  have nodes: "link_ends (fst (fold (scan_node parse w) js vg)) = link_ends (fst vg) @ concat (map (\<lambda>i. concat (map (device_links table i) (w_devices w i))) js)
    \<and> traits_grow table (fst (fold (scan_node parse w) js vg))" if "traits_grow table (fst vg)" for js vg table
    using that by (induction js arbitrary: vg) (simp_all add: scan_node_links)
  have place: "link_ends (fold (place_end pos) es s) = link_ends s" for pos es s
    by (induction es arbitrary: s) (auto simp: place_end_def split: prod.splits viz_end.splits)
  have "traits_grow netdevice_traits (new_viz N)" "link_ends (new_viz N) = []"
    by (simp_all add: traits_grow_def new_viz_def set_show_transmissions_mode_def link_ends_def)
  then show ?thesis
    using nodes [where table = netdevice_traits and vg = "(new_viz N, \<lparr>g_nodes = [], g_edges = []\<rparr>)" and js = "map int [0..<w_count w]"]
    by (simp add: scan_topology_def topology_links_def place case_prod_beta)
qed

end
