(* ===== verification/Viz_Traffic.thy ===== *)
theory Viz_Traffic
  imports Viz_Nodes
begin

text \<open>
  The traffic on the canvas of the visualizer, from \<^verbatim>\<open>src/visualizer/visualizer/core.py\<close>: the window of the last samples, the
  averages over it, and the arrows for transmissions and packet drops with their pools. The direction of a label
  follows from \<^verbatim>\<open>atan2\<close>: the angle lies between minus and plus a right angle exactly when the receiver is not left of the
  transmitter. \<open>clip\<close> is \<^verbatim>\<open>PyViz.LineClipping\<close> with the visible bounds.
\<close>

section \<open>Samples\<close>

record sample =
  s_transmitter :: int
  s_receiver :: int
  s_bytes :: nat

text \<open>\<^verbatim>\<open>append\<close> and the loop of \<^verbatim>\<open>pop(0)\<close>.\<close>

fun shrink_window :: "int \<Rightarrow> 'a list \<Rightarrow> 'a list res" where
  "shrink_window k [] = (if k < 0 then Inl IndexError else Inr [])"
| "shrink_window k (x # xs) = (if k < int (length (x # xs)) then shrink_window k xs else Inr (x # xs))"

definition push_window :: "int \<Rightarrow> 'a \<Rightarrow> 'a list \<Rightarrow> 'a list res" where
  "push_window k x xs = shrink_window k (xs @ [x])"

definition do_simulation_periodic_update ::
    "rat \<Rightarrow> sample list \<Rightarrow> sample list \<Rightarrow> sample list list \<times> sample list list \<Rightarrow> (sample list list \<times> sample list list) res" where
  "do_simulation_periodic_update smoothing transmissions drops windows =
     (let smooth_factor = py_trunc (smoothing * 10)
      in res_bind (push_window smooth_factor transmissions (fst windows)) (\<lambda>t.
           res_bind (push_window smooth_factor drops (snd windows)) (\<lambda>d. Inr (t, d))))"

text \<open>The dictionary from keys to \<^verbatim>\<open>(bytes, count)\<close>.\<close>

definition add_sample :: "(sample \<Rightarrow> 'k) \<Rightarrow> sample \<Rightarrow> ('k \<times> nat \<times> nat) list \<Rightarrow> ('k \<times> nat \<times> nat) list" where
  "add_sample key s avg =
     (case (case map_of avg (key s) of None \<Rightarrow> (0, 0) | Some bc \<Rightarrow> bc) of
        (b, c) \<Rightarrow> AList.update (key s) (b + s_bytes s, c + 1) avg)"

definition average_by :: "(sample \<Rightarrow> 'k) \<Rightarrow> sample list list \<Rightarrow> ('k \<times> nat \<times> nat) list" where
  "average_by key window = fold (fold (add_sample key)) window []"

definition transmissions_average :: "sample list list \<Rightarrow> ((int \<times> int) \<times> nat \<times> nat) list" where
  "transmissions_average = average_by (\<lambda>s. (s_transmitter s, s_receiver s))"

definition drops_average :: "sample list list \<Rightarrow> (int \<times> nat \<times> nat) list" where
  "drops_average = average_by s_transmitter"

section \<open>Arrows\<close>

record arrow =
  a_id :: nat
  a_visible :: bool
  a_from :: "rat \<times> rat"
  a_to :: "rat \<times> rat"
  a_kbps :: rat
  a_rightwards :: bool
  a_label :: "rat \<times> rat"

record traffic =
  t_arrows :: "arrow list"
  t_drops :: "arrow list"
  t_made :: nat

definition hide_arrow :: "arrow \<Rightarrow> arrow" where
  "hide_arrow a = a\<lparr>a_visible := False\<rparr>"

text \<open>\<^verbatim>\<open>old_arrows.pop()\<close>, or a new arrow; the last component counts the arrows made so far.\<close>

definition take_arrow :: "arrow list \<Rightarrow> nat \<Rightarrow> arrow \<times> arrow list \<times> nat" where
  "take_arrow old n =
     (if old = [] then (\<lparr>a_id = n, a_visible = True, a_from = (0, 0), a_to = (0, 0), a_kbps = 0, a_rightwards = True, a_label = (0, 0)\<rparr>, [], n + 1)
      else (last old, butlast old, n))"

definition kbps_of :: "rat \<Rightarrow> nat \<Rightarrow> nat \<Rightarrow> rat" where
  "kbps_of period bytes c = of_nat (bytes * 8) / 1000 / of_nat c / period"

text \<open>The loop over the averages. \<open>ends k\<close> are the end points for a key, \<open>lab\<close> is the position of the label. The width of the line
  is the logarithm of a quotient by the sample period, which raises for a period of zero, and for a byte count of zero or a negative period;
  then the arrows taken so far are gone from the pool.\<close>

fun draw_arrows ::
    "rat \<Rightarrow> ('k \<Rightarrow> viz \<Rightarrow> viz) \<Rightarrow> ('k \<Rightarrow> viz \<Rightarrow> (rat \<times> rat) \<times> (rat \<times> rat)) \<Rightarrow> ((rat \<times> rat) \<Rightarrow> (rat \<times> rat) \<Rightarrow> rat \<times> rat)
      \<Rightarrow> ('k \<times> nat \<times> nat) list \<Rightarrow> arrow list \<Rightarrow> arrow list \<Rightarrow> nat \<Rightarrow> viz \<Rightarrow> arrow list res \<times> arrow list \<times> nat \<times> viz" where
  "draw_arrows period touch ends lab [] old new n st = (Inr (new @ old), old, n, st)"
| "draw_arrows period touch ends lab ((k, bytes, c) # rest) old new n st =
     (let st = touch k st
      in case take_arrow old n of (a, old, n) \<Rightarrow>
           if period = 0 then (Inl ZeroDivisionError, old, n, st)
           else if bytes = 0 \<or> period < 0 then (Inl ValueError, old, n, st)
           else (case ends k st of (p, q) \<Rightarrow>
                   let a = a\<lparr>a_visible := True, a_from := p, a_to := q, a_kbps := kbps_of period bytes c,
                             a_rightwards := (fst p \<le> fst q), a_label := lab p q\<rparr>
                   in draw_arrows period touch ends lab rest old (new @ [a]) n st))"

definition update_transmissions_view ::
    "rat \<Rightarrow> (rat \<times> rat \<Rightarrow> rat \<times> rat \<Rightarrow> (rat \<times> rat) \<times> (rat \<times> rat)) \<Rightarrow> sample list list \<Rightarrow> traffic \<Rightarrow> viz \<Rightarrow> unit res \<times> traffic \<times> viz" where
  "update_transmissions_view period clip window tr st =
     (case draw_arrows period (\<lambda>(t, r) st. get_node r (get_node t st))
             (\<lambda>(t, r) st. (n_pos (node_of st t), n_pos (node_of st r)))
             (\<lambda>p q. case clip p q of ((x1, y1), (x2, y2)) \<Rightarrow> ((x1 + x2) / 2, (y1 + y2) / 2))
             (transmissions_average window) (map hide_arrow (t_arrows tr)) [] (t_made tr) st of
        (Inr arrows, _, n, st) \<Rightarrow> (Inr (), tr\<lparr>t_arrows := arrows, t_made := n\<rparr>, st)
      | (Inl e, old, n, st) \<Rightarrow> (Inl e, tr\<lparr>t_arrows := old, t_made := n\<rparr>, st))"

text \<open>A drop is drawn straight down to the lower edge of the window.\<close>

definition update_drops_view :: "rat \<Rightarrow> rat \<Rightarrow> sample list list \<Rightarrow> traffic \<Rightarrow> viz \<Rightarrow> unit res \<times> traffic \<times> viz" where
  "update_drops_view period edge_y window tr st =
     (case draw_arrows period get_node (\<lambda>t st. (n_pos (node_of st t), (fst (n_pos (node_of st t)), edge_y)))
             (\<lambda>p q. ((fst p + fst q) / 2, (snd p + snd q) / 2))
             (drops_average window) (map hide_arrow (t_drops tr)) [] (t_made tr) st of
        (Inr arrows, _, n, st) \<Rightarrow> (Inr (), tr\<lparr>t_drops := arrows, t_made := n\<rparr>, st)
      | (Inl e, old, n, st) \<Rightarrow> (Inl e, tr\<lparr>t_drops := old, t_made := n\<rparr>, st))"

section \<open>The window\<close>

lemma shrink_window_drop: "0 \<le> k \<Longrightarrow> shrink_window k xs = Inr (drop (length xs - nat k) xs)"
  by (induction xs) (auto simp: Suc_diff_le nat_less_iff not_less le_nat_iff diff_is_0_eq)

text \<open>After any number of updates the window holds the last samples, at most as many as the smoothing asks for.\<close>

theorem window_keeps_last:
  assumes "0 \<le> k"
  shows "fold (\<lambda>x r. res_bind r (push_window k x)) xs (Inr []) = Inr (drop (length xs - nat k) xs)"
proof (induction xs rule: rev_induct)
  case (snoc x xs)
  have "Suc n - (n - m + m) + (n - m) = Suc n - m" for n m :: nat by arith
  then show ?case using snoc assms by (simp add: push_window_def shrink_window_drop)
qed simp

section \<open>Averages\<close>

text \<open>The samples of a key in the window.\<close>

definition samples_of :: "(sample \<Rightarrow> 'k) \<Rightarrow> 'k \<Rightarrow> sample list \<Rightarrow> sample list" where
  "samples_of key k = filter (\<lambda>s. key s = k)"

lemma add_samples_lookup:
  assumes "\<And>k. map_of avg k = (if samples_of key k ys = [] then None else Some (sum_list (map s_bytes (samples_of key k ys)), length (samples_of key k ys)))"
  shows "map_of (fold (add_sample key) xs avg) k = (if samples_of key k (ys @ xs) = [] then None
      else Some (sum_list (map s_bytes (samples_of key k (ys @ xs))), length (samples_of key k (ys @ xs))))"
  using assms
proof (induction xs arbitrary: avg ys)
  case (Cons x xs)
  have "map_of (add_sample key x avg) k = (if samples_of key k (ys @ [x]) = [] then None
      else Some (sum_list (map s_bytes (samples_of key k (ys @ [x]))), length (samples_of key k (ys @ [x]))))" for k
    using Cons.prems [of k] Cons.prems [of "key x"]
    by (auto simp: add_sample_def update_conv samples_of_def split: option.splits if_splits prod.splits)
  then show ?case using Cons.IH [of "add_sample key x avg" "ys @ [x]"] by simp
qed simp

lemma fold_fold_concat: "fold (fold f) xss a = fold f (concat xss) a"
  by (induction xss arbitrary: a) simp_all

lemma average_by_concat: "average_by key window = fold (add_sample key) (concat window) []"
  by (simp add: average_by_def fold_fold_concat)

lemma average_by_lookup:
  "map_of (average_by key window) k =
    (let ss = samples_of key k (concat window) in if ss = [] then None else Some (sum_list (map s_bytes ss), length ss))"
  using add_samples_lookup [of "[]" key "[]" "concat window" k] by (simp add: average_by_concat samples_of_def Let_def)

lemma average_by_distinct: "distinct (map fst (average_by key window))"
proof -
  have "distinct (map fst avg) \<Longrightarrow> distinct (map fst (fold (add_sample key) xs avg))" for xs avg
    by (induction xs arbitrary: avg) (simp_all add: add_sample_def distinct_update split: prod.splits)
  then show ?thesis by (simp add: average_by_concat)
qed

section \<open>Pools of arrows\<close>

text \<open>The arrow that a key is given.\<close>

definition shows_key ::
    "rat \<Rightarrow> ('k \<Rightarrow> viz \<Rightarrow> (rat \<times> rat) \<times> (rat \<times> rat)) \<Rightarrow> viz \<Rightarrow> ('k \<times> nat \<times> nat) \<Rightarrow> arrow \<Rightarrow> bool" where
  "shows_key period ends st e a \<longleftrightarrow> (case e of (k, bytes, c) \<Rightarrow>
     a_visible a \<and> (a_from a, a_to a) = ends k st \<and> a_kbps a = 8 * of_nat bytes / (1000 * (of_nat c * period)) \<and> a_rightwards a = (fst (a_from a) \<le> fst (a_to a)))"

lemma take_arrow_ids:
  "take_arrow old n = (a, old', n') \<Longrightarrow>
    mset (map a_id old) + mset [n ..< n'] = add_mset (a_id a) (mset (map a_id old')) \<and> n \<le> n' \<and> set old' \<subseteq> set old"
  by (cases old rule: rev_cases) (auto simp: take_arrow_def split: if_splits)

lemma get_node_same [simp]: "node_of (get_node i st) = node_of st"
  by (auto simp: fun_eq_iff get_node_def node_of_def set_node_def update_conv)

lemma draw_arrows_result:
  assumes "\<forall>(k, b, c) \<in> set avg. 0 < b" and period: "0 < period"
    and touch: "\<And>k s. node_of (touch k s) = node_of s"
    and ends: "\<And>k s s'. node_of s = node_of s' \<Longrightarrow> ends k s = ends k s'"
  shows "\<exists>arrows old' n' st'. draw_arrows period touch ends lab avg old new n st = (Inr (new @ arrows @ old'), old', n', st')
    \<and> list_all2 (shows_key period ends st) avg arrows \<and> set old' \<subseteq> set old \<and> n \<le> n'
    \<and> mset (map a_id (arrows @ old')) = mset (map a_id old) + mset [n ..< n'] \<and> node_of st' = node_of st"
  using assms(1)
proof (induction avg arbitrary: old new n st)
  case (Cons e avg)
  obtain k b c where e: "e = (k, b, c)" by (cases e)
  obtain a old1 n1 where t: "take_arrow old n = (a, old1, n1)" by (metis prod_cases3)
  note ids = take_arrow_ids [OF t]
  let ?st = "touch k st"
  obtain p q where pq: "ends k ?st = (p, q)" by (cases "ends k ?st")
  let ?a = "a\<lparr>a_visible := True, a_from := p, a_to := q, a_kbps := kbps_of period b c, a_rightwards := (fst p \<le> fst q), a_label := lab p q\<rparr>"
  obtain arrows old' n' st' where IH: "draw_arrows period touch ends lab avg old1 (new @ [?a]) n1 ?st = (Inr ((new @ [?a]) @ arrows @ old'), old', n', st')"
    "list_all2 (shows_key period ends ?st) avg arrows" "set old' \<subseteq> set old1" "n1 \<le> n'"
    "mset (map a_id (arrows @ old')) = mset (map a_id old1) + mset [n1 ..< n']" "node_of st' = node_of ?st"
    using Cons.IH [of old1 "new @ [?a]" n1 ?st] Cons.prems by auto
  have run: "draw_arrows period touch ends lab (e # avg) old new n st = (Inr (new @ (?a # arrows) @ old'), old', n', st')"
    using Cons.prems IH(1) period by (simp add: e t pq Let_def)
  have same: "ends j ?st = ends j st" for j using ends touch by blast
  then have "shows_key period ends st e ?a" using pq by (simp add: shows_key_def e kbps_of_def)
  moreover have "shows_key period ends ?st = shows_key period ends st" by (simp add: fun_eq_iff shows_key_def same)
  then have "list_all2 (shows_key period ends st) avg arrows" using IH(2) by simp
  ultimately have sk: "list_all2 (shows_key period ends st) (e # avg) (?a # arrows)" by simp
  have "[n ..< n'] = [n ..< n1] @ [n1 ..< n']" using ids IH(4) by (metis le_Suc_ex upt_add_eq_append)
  then have "mset (map a_id ((?a # arrows) @ old')) = mset (map a_id old) + mset [n ..< n']"
    using IH(5) ids by (simp add: add.assoc [symmetric])
  then show ?case using run sk IH(3,4,6) ids touch by (intro exI [of _ "?a # arrows"] exI [of _ old'] exI [of _ n'] exI [of _ st']) auto
qed simp

lemma average_by_positive:
  assumes "\<forall>s \<in> set (concat window). 0 < s_bytes s"
  shows "\<forall>(k, b, c) \<in> set (average_by key window). 0 < b"
proof clarify
  fix k b c
  assume "(k, b, c) \<in> set (average_by key window)"
  then have "map_of (average_by key window) k = Some (b, c)" using average_by_distinct [of key window] by simp
  then obtain s where s: "s \<in> set (samples_of key k (concat window))" "b = sum_list (map s_bytes (samples_of key k (concat window)))"
    unfolding average_by_lookup Let_def by (cases "samples_of key k (concat window)") auto
  then have "s_bytes s \<le> b" by (simp add: member_le_sum_list)
  moreover have "0 < s_bytes s" using s(1) assms by (auto simp: samples_of_def)
  ultimately show "0 < b" by simp
qed

lemma hidden_arrows: "set hs \<subseteq> set (map hide_arrow as) \<Longrightarrow> \<forall>a \<in> set hs. \<not> a_visible a" "map a_id (map hide_arrow as) = map a_id as"
  by (auto simp: hide_arrow_def)

text \<open>C11: When every sample in the window has at least one byte and the sample period is positive, updating the view of the
  transmissions succeeds: afterwards there is exactly one visible arrow for every pair of nodes with a sample, from the transmitter to the receiver,
  labelled with the mean rate over the window's samples of the pair in kilobits per second; all other arrows are hidden, and no arrow that was ever made is lost.\<close>

theorem transmissions_view_correct:
  assumes "\<forall>s \<in> set (concat window). 0 < s_bytes s" "0 < period"
  shows "\<exists>shown hidden n' st'. update_transmissions_view period clip window tr st =
      (Inr (), tr\<lparr>t_arrows := shown @ hidden, t_made := n'\<rparr>, st')
    \<and> list_all2 (shows_key period (\<lambda>(t, r) st. (n_pos (node_of st t), n_pos (node_of st r))) st) (transmissions_average window) shown
    \<and> (\<forall>a \<in> set hidden. \<not> a_visible a)
    \<and> mset (map a_id (shown @ hidden)) = mset (map a_id (t_arrows tr)) + mset [t_made tr ..< n']
    \<and> (\<forall>t r. map_of (transmissions_average window) (t, r) =
        (let ss = filter (\<lambda>s. (s_transmitter s, s_receiver s) = (t, r)) (concat window)
         in if ss = [] then None else Some (sum_list (map s_bytes ss), length ss)))
    \<and> node_of st' = node_of st"
proof -
  let ?touch = "\<lambda>(t, r) st. get_node r (get_node t st)"
  let ?ends = "\<lambda>(t, r) st. (n_pos (node_of st t), n_pos (node_of st r))"
  let ?lab = "\<lambda>p q. case clip p q of ((x1, y1), (x2, y2)) \<Rightarrow> ((x1 + x2) / 2, (y1 + y2) / 2)"
  let ?avg = "transmissions_average window" and ?old = "map hide_arrow (t_arrows tr)"
  have pos: "\<forall>(k, b, c) \<in> set ?avg. 0 < b" using average_by_positive [OF assms(1)] by (simp add: transmissions_average_def)
  have touch: "node_of (?touch k s) = node_of s" for k s by (cases k) simp
  have ends: "node_of s = node_of s' \<Longrightarrow> ?ends k s = ?ends k s'" for k s s' by (cases k) simp
  obtain shown hidden n' st' where r: "draw_arrows period ?touch ?ends ?lab ?avg ?old [] (t_made tr) st = (Inr ([] @ shown @ hidden), hidden, n', st')"
    "list_all2 (shows_key period ?ends st) ?avg shown" "set hidden \<subseteq> set ?old"
    "mset (map a_id (shown @ hidden)) = mset (map a_id ?old) + mset [t_made tr ..< n']" "node_of st' = node_of st"
    using draw_arrows_result [where touch = ?touch and ends = ?ends and period = period and lab = ?lab and old = ?old and
        new = "[]" and n = "t_made tr" and st = st, OF pos assms(2) touch ends] by blast
  have "update_transmissions_view period clip window tr st = (Inr (), tr\<lparr>t_arrows := shown @ hidden, t_made := n'\<rparr>, st')"
    using r(1) by (simp add: update_transmissions_view_def)
  moreover have "map_of ?avg k = (let ss = filter (\<lambda>s. (s_transmitter s, s_receiver s) = k) (concat window)
      in if ss = [] then None else Some (sum_list (map s_bytes ss), length ss))" for k
    by (simp add: transmissions_average_def average_by_lookup samples_of_def)
  ultimately show ?thesis using r(2,4,5) hidden_arrows(1) [OF r(3)] unfolding hidden_arrows(2) by blast
qed

definition sample_window :: "sample list list" where
  "sample_window = [[\<lparr>s_transmitter = 0, s_receiver = 1, s_bytes = 512\<rparr>], [\<lparr>s_transmitter = 0, s_receiver = 1, s_bytes = 128\<rparr>]]"

theorem transmissions_view_correct_witness:
  "\<exists>shown hidden n' st'. update_transmissions_view (1 / 10) (\<lambda>p q. (p, q)) sample_window \<lparr>t_arrows = [], t_drops = [], t_made = 0\<rparr> (new_viz 2) =
      (Inr (), \<lparr>t_arrows = shown @ hidden, t_drops = [], t_made = n'\<rparr>, st')
    \<and> map_of (transmissions_average sample_window) (0, 1) = Some (640, 2)"
proof -
  have "\<forall>s \<in> set (concat sample_window). 0 < s_bytes s" by (simp add: sample_window_def)
  note t = transmissions_view_correct [OF this, of "1 / 10" "\<lambda>p q. (p, q)" "\<lparr>t_arrows = [], t_drops = [], t_made = 0\<rparr>" "new_viz 2"]
  moreover have "map_of (transmissions_average sample_window) (0, 1) = Some (640, 2)"
    by (simp add: transmissions_average_def average_by_lookup samples_of_def sample_window_def)
  ultimately show ?thesis by fastforce
qed

text \<open>The same for packet drops, which are drawn down to the edge of the window.\<close>

theorem drops_view_correct:
  assumes "\<forall>s \<in> set (concat window). 0 < s_bytes s" "0 < period"
  shows "\<exists>shown hidden n' st'. update_drops_view period edge_y window tr st = (Inr (), tr\<lparr>t_drops := shown @ hidden, t_made := n'\<rparr>, st')
    \<and> list_all2 (shows_key period (\<lambda>t st. (n_pos (node_of st t), (fst (n_pos (node_of st t)), edge_y))) st) (drops_average window) shown
    \<and> (\<forall>a \<in> set hidden. \<not> a_visible a)
    \<and> mset (map a_id (shown @ hidden)) = mset (map a_id (t_drops tr)) + mset [t_made tr ..< n']"
proof -
  let ?ends = "\<lambda>t st. (n_pos (node_of st t), (fst (n_pos (node_of st t)), edge_y))"
  let ?lab = "\<lambda>p q. ((fst p + fst q) / 2, (snd p + snd q) / 2)"
  let ?avg = "drops_average window" and ?old = "map hide_arrow (t_drops tr)"
  have pos: "\<forall>(k, b, c) \<in> set ?avg. 0 < b" using average_by_positive [OF assms(1)] by (simp add: drops_average_def)
  have touch: "node_of (get_node k s) = node_of s" for k s by simp
  have ends: "node_of s = node_of s' \<Longrightarrow> ?ends k s = ?ends k s'" for k s s' by simp
  obtain shown hidden n' st' where r: "draw_arrows period get_node ?ends ?lab ?avg ?old [] (t_made tr) st = (Inr ([] @ shown @ hidden), hidden, n', st')"
    "list_all2 (shows_key period ?ends st) ?avg shown" "set hidden \<subseteq> set ?old"
    "mset (map a_id (shown @ hidden)) = mset (map a_id ?old) + mset [t_made tr ..< n']"
    using draw_arrows_result [where touch = get_node and ends = ?ends and period = period and lab = ?lab and old = ?old and
        new = "[]" and n = "t_made tr" and st = st, OF pos assms(2) touch ends] by blast
  have "update_drops_view period edge_y window tr st = (Inr (), tr\<lparr>t_drops := shown @ hidden, t_made := n'\<rparr>, st')"
    using r(1) by (simp add: update_drops_view_def)
  then show ?thesis using r(2,4) hidden_arrows(1) [OF r(3)] unfolding hidden_arrows(2) by blast
qed

text \<open>A sample without a byte stops the update: the logarithm raises.\<close>

theorem empty_sample_raises:
  "0 < period \<Longrightarrow> fst (update_drops_view period edge_y [[\<lparr>s_transmitter = t, s_receiver = r, s_bytes = 0\<rparr>]] tr st) = Inl ValueError"
  by (simp add: update_drops_view_def drops_average_def average_by_def add_sample_def take_arrow_def Let_def)

end
