(* ===== verification/Viz_Plugins.thy ===== *)
theory Viz_Plugins
  imports Viz_Traffic
begin

text \<open>
  The plugins of the visualizer, from \<^verbatim>\<open>src/visualizer/visualizer/plugins\<close>: the lines between Wi-Fi stations and their
  access points (\<^verbatim>\<open>wifi_intrastructure_link.py\<close>), the interface statistics (\<^verbatim>\<open>interface_statistics.py\<close>), the tables of routes
  (\<^verbatim>\<open>olsr.py\<close>, \<^verbatim>\<open>ipv4_routing_table.py\<close>), and the last packets with their filter (\<^verbatim>\<open>show_last_packets.py\<close>); and the
  information windows of \<^verbatim>\<open>core.py\<close>, which is how the last three are refreshed. What the simulator reports (devices, counters, routes,
  packets, registered types) is an argument of the operations.
\<close>

section \<open>Wi-Fi links\<close>

text \<open>A link object; \<^verbatim>\<open>destroy\<close> forgets both ends. Links are named by their place in the order of creation.\<close>

record wifi_link =
  wl_node1 :: "int option"
  wl_node2 :: "int option"
  wl_visible :: bool
  wl_data :: "((rat \<times> rat) \<times> (rat \<times> rat)) option"

datatype wifi_mac = StaWifiMac | ApWifiMac | OtherWifiMac

text \<open>A device of a node: its number, the kind of its layer if it is a Wi-Fi device, its address.\<close>

record wifi_device =
  wd_id :: nat
  wd_mac :: "wifi_mac option"
  wd_address :: string

text \<open>\<^verbatim>\<open>WifiLinkMonitor\<close>, with the links made so far and the Wi-Fi links in the \<^verbatim>\<open>links\<close> of every node.\<close>

record wifi_monitor =
  access_points :: "(string \<times> int) list"
  stations :: "(nat \<times> int \<times> nat) list"
  wifi_links :: "wifi_link list"
  node_links :: "int \<Rightarrow> nat list"

definition new_monitor :: wifi_monitor where
  "new_monitor = \<lparr>access_points = [], stations = [], wifi_links = [], node_links = (\<lambda>_. [])\<rparr>"

definition change_link :: "nat \<Rightarrow> (wifi_link \<Rightarrow> wifi_link) \<Rightarrow> wifi_monitor \<Rightarrow> wifi_monitor" where
  "change_link k f m = m\<lparr>wifi_links := (wifi_links m)[k := f (wifi_links m ! k)]\<rparr>"

definition add_link :: "int \<Rightarrow> nat \<Rightarrow> wifi_monitor \<Rightarrow> wifi_monitor" where
  "add_link a k m = m\<lparr>node_links := (node_links m)(a := node_links m a @ [k])\<rparr>"

definition remove_link :: "int \<Rightarrow> nat \<Rightarrow> wifi_monitor \<Rightarrow> unit res \<times> wifi_monitor" where
  "remove_link a k m =
     (if k \<in> set (node_links m a) then (Inr (), m\<lparr>node_links := (node_links m)(a := remove1 k (node_links m a))\<rparr>)
      else (Inl ValueError, m))"

definition wifi_update_points :: "(int \<Rightarrow> rat \<times> rat) \<Rightarrow> nat \<Rightarrow> wifi_monitor \<Rightarrow> wifi_monitor" where
  "wifi_update_points pos k m =
     change_link k (\<lambda>l. case (wl_node1 l, wl_node2 l) of (Some a, Some b) \<Rightarrow> l\<lparr>wl_data := Some (pos a, pos b)\<rparr> | _ \<Rightarrow> l) m"

definition set_ap :: "(int \<Rightarrow> rat \<times> rat) \<Rightarrow> int option \<Rightarrow> nat \<Rightarrow> wifi_monitor \<Rightarrow> unit res \<times> wifi_monitor" where
  "set_ap pos ap k m =
     (if ap = wl_node2 (wifi_links m ! k) then (Inr (), m)
      else case (case wl_node2 (wifi_links m ! k) of None \<Rightarrow> (Inr (), m) | Some a \<Rightarrow> remove_link a k m) of
             (Inl e, m) \<Rightarrow> (Inl e, m)
           | (Inr _, m) \<Rightarrow>
               let m = change_link k (\<lambda>l. l\<lparr>wl_node2 := ap, wl_visible := (ap \<noteq> None)\<rparr>) m;
                   m = (case ap of None \<Rightarrow> m | Some a \<Rightarrow> add_link a k m)
               in (Inr (), wifi_update_points pos k m))"

definition new_wifi_link :: "int \<Rightarrow> wifi_link" where
  "new_wifi_link sta = \<lparr>wl_node1 = Some sta, wl_node2 = None, wl_visible = True, wl_data = None\<rparr>"

definition destroy_link :: "nat \<Rightarrow> wifi_monitor \<Rightarrow> wifi_monitor" where
  "destroy_link k m = change_link k (\<lambda>l. l\<lparr>wl_node1 := None, wl_node2 := None, wl_visible := False\<rparr>) m"

definition scan_wifi_device :: "int \<Rightarrow> wifi_device \<Rightarrow> wifi_monitor \<Rightarrow> wifi_monitor" where
  "scan_wifi_device i d m =
     (case wd_mac d of
        Some StaWifiMac \<Rightarrow>
          m\<lparr>wifi_links := wifi_links m @ [new_wifi_link i], stations := stations m @ [(wd_id d, i, length (wifi_links m))]\<rparr>
      | Some ApWifiMac \<Rightarrow> m\<lparr>access_points := AList.update (wd_address d) i (access_points m)\<rparr>
      | _ \<Rightarrow> m)"

definition scan_nodes :: "(int \<Rightarrow> wifi_device list) \<Rightarrow> int list \<Rightarrow> wifi_monitor \<Rightarrow> wifi_monitor" where
  "scan_nodes devices nodes m =
     (let m = fold (\<lambda>(_, _, k). destroy_link k) (stations m) m; m = m\<lparr>access_points := [], stations := []\<rparr>
      in fold (\<lambda>i. fold (scan_wifi_device i) (devices i)) nodes m)"

text \<open>What a station reports: whether its link is up, and the access point it belongs to.\<close>

definition no_bssid :: string where
  "no_bssid = ''00:00:00:00:00:00''"

definition station_ap :: "(string \<times> int) list \<Rightarrow> bool \<times> string \<Rightarrow> int option res" where
  "station_ap aps r =
     (if \<not> fst r \<or> snd r = no_bssid then Inr None
      else case map_of aps (snd r) of None \<Rightarrow> Inl KeyError | Some a \<Rightarrow> Inr (Some a))"

fun wifi_periodic_update ::
    "(int \<Rightarrow> rat \<times> rat) \<Rightarrow> (nat \<Rightarrow> bool \<times> string) \<Rightarrow> (nat \<times> int \<times> nat) list \<Rightarrow> wifi_monitor \<Rightarrow> unit res \<times> wifi_monitor" where
  "wifi_periodic_update pos report [] m = (Inr (), m)"
| "wifi_periodic_update pos report ((d, i, k) # ss) m =
     (case station_ap (access_points m) (report d) of
        Inl e \<Rightarrow> (Inl e, m)
      | Inr ap \<Rightarrow> (case set_ap pos ap k m of
                     (Inl e, m) \<Rightarrow> (Inl e, m)
                   | (Inr _, m) \<Rightarrow> wifi_periodic_update pos report ss m))"

definition simulation_periodic_update ::
    "(int \<Rightarrow> rat \<times> rat) \<Rightarrow> (nat \<Rightarrow> bool \<times> string) \<Rightarrow> wifi_monitor \<Rightarrow> unit res \<times> wifi_monitor" where
  "simulation_periodic_update pos report m = wifi_periodic_update pos report (stations m) m"

definition wifi_update_view :: "(int \<Rightarrow> rat \<times> rat) \<Rightarrow> wifi_monitor \<Rightarrow> wifi_monitor" where
  "wifi_update_view pos m = fold (\<lambda>(_, _, k). wifi_update_points pos k) (stations m) m"

section \<open>Interface statistics\<close>

definition NODE_STATISTICS_MEMORY :: int where
  "NODE_STATISTICS_MEMORY = 10"

record raw_stats =
  transmittedPackets :: nat
  transmittedBytes :: nat
  receivedPackets :: nat
  receivedBytes :: nat

record net_dev_stats =
  rxPackets :: nat
  rxBytes :: nat
  txPackets :: nat
  txBytes :: nat
  rxPacketRate :: rat
  rxBitRate :: rat
  txPacketRate :: rat
  txBitRate :: rat

type_synonym node_statistics = "(int \<times> raw_stats list list) list"

definition collect_statistics :: "int \<times> raw_stats list \<Rightarrow> node_statistics \<Rightarrow> node_statistics res" where
  "collect_statistics u d =
     (let raw = (case map_of d (fst u) of None \<Rightarrow> [] | Some xs \<Rightarrow> xs)
      in res_bind (push_window NODE_STATISTICS_MEMORY (snd u) raw) (\<lambda>xs. Inr (AList.update (fst u) xs d)))"

definition statistics_periodic_update :: "(int \<times> raw_stats list) list \<Rightarrow> node_statistics \<Rightarrow> node_statistics res" where
  "statistics_periodic_update us d = res_fold collect_statistics us d"

definition difference_rate :: "rat \<Rightarrow> nat \<Rightarrow> nat \<Rightarrow> rat" where
  "difference_rate k now before = of_int (int now - int before) / k"

definition out_stat :: "rat \<Rightarrow> raw_stats \<Rightarrow> raw_stats \<Rightarrow> net_dev_stats" where
  "out_stat k s s1 =
     \<lparr>rxPackets = receivedPackets s, rxBytes = receivedBytes s, txPackets = transmittedPackets s, txBytes = transmittedBytes s,
      rxPacketRate = difference_rate k (receivedPackets s) (receivedPackets s1),
      rxBitRate = of_int (int (receivedBytes s) - int (receivedBytes s1)) * 8 / k,
      txPacketRate = difference_rate k (transmittedPackets s) (transmittedPackets s1),
      txBitRate = of_int (int (transmittedBytes s) - int (transmittedBytes s1)) * 8 / k\<rparr>"

text \<open>The loop over the interfaces of the last sample, with the first sample at the same place.\<close>

fun out_stats :: "rat \<Rightarrow> raw_stats list \<Rightarrow> raw_stats list \<Rightarrow> net_dev_stats list res" where
  "out_stats k [] _ = Inr []"
| "out_stats k (s # ss) [] = Inl IndexError"
| "out_stats k (s # ss) (s1 # ss1) =
     (if k = 0 then Inl ZeroDivisionError else res_bind (out_stats k ss ss1) (\<lambda>os. Inr (out_stat k s s1 # os)))"

definition get_interface_statistics :: "rat \<Rightarrow> node_statistics \<Rightarrow> int \<Rightarrow> net_dev_stats list res" where
  "get_interface_statistics period d i =
     (case map_of d i of
        None \<Rightarrow> Inr []
      | Some raw \<Rightarrow>
          if int (length raw) < NODE_STATISTICS_MEMORY then Inr []
          else if int (length raw) \<noteq> NODE_STATISTICS_MEMORY then Inl AssertionError
          else out_stats (period * of_int (NODE_STATISTICS_MEMORY - 1)) (last raw) (hd raw))"

section \<open>Tables\<close>

text \<open>The name of an interface: the name given to the device, or its number.\<close>

definition interface_name :: "string \<Rightarrow> int \<Rightarrow> string" where
  "interface_name name i = (if name = '''' then ''(interface '' @ int_str i @ '')'' else name)"

record route_entry =
  r_dest :: string
  r_next :: string
  r_interface :: int
  r_hops :: int

text \<open>A row of a table of routes. A device is given by its name; an interface without a device is the loopback.\<close>

definition route_row :: "(int \<Rightarrow> string option) \<Rightarrow> route_entry \<Rightarrow> string \<times> string \<times> string" where
  "route_row device r =
     (r_dest r, r_next r, case device (r_interface r) of None \<Rightarrow> ''lo'' | Some name \<Rightarrow> interface_name name (r_interface r))"

text \<open>\<^verbatim>\<open>ShowOlsrRoutingTable.update\<close>: \<open>olsr\<close> are the entries if the node runs the protocol, \<open>ipv4\<close> the devices if it has the stack.\<close>

definition olsr_update ::
    "route_entry list option \<Rightarrow> (int \<Rightarrow> string option) option \<Rightarrow> ((string \<times> string \<times> string) \<times> int) list
      \<Rightarrow> unit res \<times> ((string \<times> string \<times> string) \<times> int) list" where
  "olsr_update olsr ipv4 rows =
     (case olsr of
        None \<Rightarrow> (Inr (), rows)
      | Some [] \<Rightarrow> (Inr (), [])
      | Some routes \<Rightarrow> (case ipv4 of
                           None \<Rightarrow> (Inl AttributeError, [(('''', '''', ''''), 0)])
                         | Some device \<Rightarrow> (Inr (), map (\<lambda>r. (route_row device r, r_hops r)) routes)))"

datatype ipv4_routing =
    Ipv4StaticRouting "route_entry list"
  | Ipv4GlobalRouting "route_entry list"
  | Ipv4ListRouting "(ipv4_routing \<times> int) list"
  | OtherRouting

fun list_protocol :: "ipv4_routing \<times> int \<Rightarrow> (route_entry list \<times> string \<times> int) list" where
  "list_protocol (Ipv4StaticRouting rs, prio) = [(rs, ''static'', prio)]"
| "list_protocol (Ipv4GlobalRouting rs, prio) = [(rs, ''global'', prio)]"
| "list_protocol (_, prio) = []"

fun routing_protocols :: "ipv4_routing \<Rightarrow> (route_entry list \<times> string \<times> int) list" where
  "routing_protocols (Ipv4StaticRouting rs) = [(rs, ''static'', 0)]"
| "routing_protocols (Ipv4ListRouting ps) = concat (map list_protocol ps)"
| "routing_protocols _ = []"

definition ipv4_update ::
    "(ipv4_routing option \<times> (int \<Rightarrow> string option)) option \<Rightarrow> ((string \<times> string \<times> string) \<times> string \<times> int) list
      \<Rightarrow> unit res \<times> ((string \<times> string \<times> string) \<times> string \<times> int) list" where
  "ipv4_update ipv4 rows =
     (case ipv4 of
        None \<Rightarrow> (Inl AttributeError, rows)
      | Some (None, _) \<Rightarrow> (Inr (), rows)
      | Some (Some routing, device) \<Rightarrow>
          (Inr (), if routing_protocols routing = [] then rows
                   else concat (map (\<lambda>(rs, kind, prio). map (\<lambda>r. (route_row device r, kind, prio)) rs) (routing_protocols routing))))"

section \<open>Last packets\<close>

record packet_sample =
  p_time :: string
  p_device :: "(string \<times> int) option"
  p_size :: nat
  p_contents :: string

definition packet_row :: "packet_sample \<Rightarrow> string \<times> string \<times> string \<times> string" where
  "packet_row s =
     (p_time s, case p_device s of None \<Rightarrow> ''(unknown)'' | Some (name, i) \<Rightarrow> interface_name name i, int_str (int (p_size s)), p_contents s)"

definition packet_list_update :: "packet_sample list \<Rightarrow> (string \<times> string \<times> string \<times> string) list" where
  "packet_list_update samples = map packet_row samples"

text \<open>The walk up the parents of a type.\<close>

partial_function (option) type_is_good :: "nat \<Rightarrow> nat \<Rightarrow> (nat \<Rightarrow> nat option) \<Rightarrow> nat \<Rightarrow> bool option" where
  "type_is_good header trailer parent t =
     (if t = header \<or> t = trailer then Some True
      else case parent t of None \<Rightarrow> Some False | Some p \<Rightarrow> type_is_good header trailer parent p)"

declare type_is_good.simps [code]

record type_config =
  tc_selected :: bool
  tc_name :: string
  tc_typeid :: nat

fun packet_filter_list ::
    "nat \<Rightarrow> nat \<Rightarrow> (nat \<Rightarrow> nat option) \<Rightarrow> (nat \<Rightarrow> string) \<Rightarrow> nat list \<Rightarrow> type_config list option" where
  "packet_filter_list header trailer parent name [] = Some []"
| "packet_filter_list header trailer parent name (t # ts) =
     (case type_is_good header trailer parent t of
        None \<Rightarrow> None
      | Some good \<Rightarrow>
          map_option (\<lambda>cs. if good \<and> t \<notin> {header, trailer} then \<lparr>tc_selected = True, tc_name = name t, tc_typeid = t\<rparr> # cs else cs)
            (packet_filter_list header trailer parent name ts))"

datatype filter_mode = FILTER_HEADERS_AND | FILTER_HEADERS_OR

record capture_options =
  c_mode :: filter_mode
  c_headers :: "nat list"
  c_numLastPackets :: nat

definition update_capture_options :: "bool \<Rightarrow> type_config list \<Rightarrow> capture_options" where
  "update_capture_options and_active cs =
     \<lparr>c_mode = (if and_active then FILTER_HEADERS_AND else FILTER_HEADERS_OR), c_headers = map tc_typeid (filter tc_selected cs),
      c_numLastPackets = 100\<rparr>"

definition sel_all_cb :: "bool \<Rightarrow> type_config list \<Rightarrow> type_config list \<times> capture_options" where
  "sel_all_cb and_active cs =
     (let cs = map (\<lambda>c. c\<lparr>tc_selected := True\<rparr>) cs in (cs, update_capture_options and_active cs))"

definition sel_none_cb :: "bool \<Rightarrow> type_config list \<Rightarrow> type_config list \<times> capture_options" where
  "sel_none_cb and_active cs =
     (let cs = map (\<lambda>c. c\<lparr>tc_selected := False\<rparr>) cs in (cs, update_capture_options and_active cs))"

section \<open>Information windows\<close>

text \<open>The windows that the visualizer refreshes, in the order they were opened, and those on the screen. A refresh reads the simulator,
  so \<open>update t w\<close> depends on the moment \<open>t\<close>; it may raise.\<close>

record 'w windows =
  information_windows :: "'w list"
  on_screen :: "'w list"

definition no_windows :: "'w windows" where
  "no_windows = \<lparr>information_windows = [], on_screen = []\<rparr>"

definition add_information_window :: "('t \<Rightarrow> 'w \<Rightarrow> unit res) \<Rightarrow> 't \<Rightarrow> 'w \<Rightarrow> 'w windows \<Rightarrow> unit res \<times> 'w windows" where
  "add_information_window update t w s = (update t w, s\<lparr>information_windows := information_windows s @ [w]\<rparr>)"

definition remove_information_window :: "'w \<Rightarrow> 'w windows \<Rightarrow> unit res \<times> 'w windows" where
  "remove_information_window w s =
     (if w \<in> set (information_windows s) then (Inr (), s\<lparr>information_windows := remove1 w (information_windows s)\<rparr>) else (Inl ValueError, s))"

text \<open>The end of the constructor of every information window, and the handler of its close button.\<close>

definition open_window :: "('t \<Rightarrow> 'w \<Rightarrow> unit res) \<Rightarrow> 't \<Rightarrow> 'w \<Rightarrow> 'w windows \<Rightarrow> unit res \<times> 'w windows" where
  "open_window update t w s =
     (case add_information_window update t w s of
        (Inl e, s) \<Rightarrow> (Inl e, s)
      | (Inr _, s) \<Rightarrow> (Inr (), s\<lparr>on_screen := on_screen s @ [w]\<rparr>))"

definition response_cb :: "'w \<Rightarrow> 'w windows \<Rightarrow> unit res \<times> 'w windows" where
  "response_cb w s = remove_information_window w (s\<lparr>on_screen := remove1 w (on_screen s)\<rparr>)"

text \<open>\<^verbatim>\<open>Visualizer.update_view\<close>: positions, windows, transmissions, drops; the first part that raises ends it. The last component
  tells whether the signal for the plugins is sent.\<close>

definition visualizer_update_view ::
    "view_port \<Rightarrow> ns3_world \<Rightarrow> rat \<Rightarrow> rat \<Rightarrow> (rat \<times> rat \<Rightarrow> rat \<times> rat \<Rightarrow> (rat \<times> rat) \<times> (rat \<times> rat))
      \<Rightarrow> ('t \<Rightarrow> 'w \<Rightarrow> unit res) \<Rightarrow> 't \<Rightarrow> 'w windows \<Rightarrow> sample list list \<times> sample list list \<Rightarrow> traffic \<Rightarrow> viz \<Rightarrow> unit res \<times> traffic \<times> viz \<times> bool" where
  "visualizer_update_view vp w period edge_y clip update t ws windows tr st =
     (let st = update_node_positions vp w st
      in case res_fold (\<lambda>v _. update t v) (information_windows ws) () of
           Inl e \<Rightarrow> (Inl e, tr, st, False)
         | Inr _ \<Rightarrow>
             (case update_transmissions_view period clip (fst windows) tr st of
                (Inl e, tr, st) \<Rightarrow> (Inl e, tr, st, False)
              | (Inr _, tr, st) \<Rightarrow>
                  (case update_drops_view period edge_y (snd windows) tr st of
                     (Inl e, tr, st) \<Rightarrow> (Inl e, tr, st, False)
                   | (Inr _, tr, st) \<Rightarrow> (Inr (), tr, st, True))))"

section \<open>The Wi-Fi links follow the stations\<close>

definition links_registered :: "wifi_monitor \<Rightarrow> bool" where
  "links_registered m \<longleftrightarrow>
     (\<forall>a. distinct (node_links m a)
        \<and> (\<forall>k \<in> set (node_links m a). k < length (wifi_links m) \<and> (wl_node2 (wifi_links m ! k) = Some a \<or> wl_node1 (wifi_links m ! k) = None)))
     \<and> (\<forall>k < length (wifi_links m). \<forall>a. wl_node2 (wifi_links m ! k) = Some a \<longrightarrow>
          k \<in> set (node_links m a) \<and> wl_node1 (wifi_links m ! k) \<noteq> None)"

definition stations_linked :: "wifi_monitor \<Rightarrow> bool" where
  "stations_linked m \<longleftrightarrow>
     distinct (map (\<lambda>(_, _, k). k) (stations m))
     \<and> (\<forall>(d, i, k) \<in> set (stations m). k < length (wifi_links m) \<and> wl_node1 (wifi_links m ! k) = Some i)"

definition monitor_ok :: "wifi_monitor \<Rightarrow> bool" where
  "monitor_ok m \<longleftrightarrow> links_registered m \<and> stations_linked m"

text \<open>A change that leaves the ends of all links alone.\<close>

definition same_ends :: "wifi_monitor \<Rightarrow> wifi_monitor \<Rightarrow> bool" where
  "same_ends m m' \<longleftrightarrow> node_links m' = node_links m \<and> stations m' = stations m \<and> access_points m' = access_points m
     \<and> length (wifi_links m') = length (wifi_links m)
     \<and> (\<forall>k < length (wifi_links m). wl_node1 (wifi_links m' ! k) = wl_node1 (wifi_links m ! k)
          \<and> wl_node2 (wifi_links m' ! k) = wl_node2 (wifi_links m ! k))"

lemma same_ends_refl [simp]: "same_ends m m"
  by (simp add: same_ends_def)

lemma same_ends_trans: "same_ends m m' \<Longrightarrow> same_ends m' m'' \<Longrightarrow> same_ends m m''"
  by (simp add: same_ends_def)

lemma same_ends_ok: "same_ends m m' \<Longrightarrow> monitor_ok m \<Longrightarrow> monitor_ok m'"
  unfolding monitor_ok_def links_registered_def stations_linked_def same_ends_def by fastforce

lemma nth_updated: "j < length xs \<Longrightarrow> xs[k := y] ! j = (if j = k then y else xs ! j)"
  by (auto simp: nth_list_update)

lemma update_points_same_ends: "same_ends m (wifi_update_points pos k m)"
  by (auto simp: same_ends_def wifi_update_points_def change_link_def nth_updated split: option.splits)

lemma update_view_same_ends: "same_ends m (fold (\<lambda>(_, _, k). wifi_update_points pos k) ss m)"
  by (induction ss arbitrary: m) (auto intro: same_ends_trans update_points_same_ends)

text \<open>\<^verbatim>\<open>set_ap\<close> moves the link of a station to another access point, and never raises.\<close>

definition relinked :: "nat \<Rightarrow> int option \<Rightarrow> wifi_monitor \<Rightarrow> wifi_monitor \<Rightarrow> bool" where
  "relinked k ap m m' \<longleftrightarrow> stations m' = stations m \<and> access_points m' = access_points m
     \<and> length (wifi_links m') = length (wifi_links m) \<and> wl_node2 (wifi_links m' ! k) = ap
     \<and> (\<forall>j < length (wifi_links m). wl_node1 (wifi_links m' ! j) = wl_node1 (wifi_links m ! j))
     \<and> (\<forall>j < length (wifi_links m). j \<noteq> k \<longrightarrow> wl_node2 (wifi_links m' ! j) = wl_node2 (wifi_links m ! j))"

lemma same_ends_relinked: "relinked k ap m m' \<Longrightarrow> same_ends m' m'' \<Longrightarrow> k < length (wifi_links m) \<Longrightarrow> relinked k ap m m''"
  by (auto simp: relinked_def same_ends_def)

lemma registered_distinct: "links_registered m \<Longrightarrow> distinct (node_links m a)"
  by (simp add: links_registered_def)

lemma registered_links:
  assumes "links_registered m" "j \<in> set (node_links m a)"
  shows "j < length (wifi_links m) \<and> (wl_node2 (wifi_links m ! j) = Some a \<or> wl_node1 (wifi_links m ! j) = None)"
  by (rule assms(1) [unfolded links_registered_def, THEN conjunct1, rule_format, THEN conjunct2, rule_format, OF assms(2)])

lemma linked_registered:
  assumes "links_registered m" "j < length (wifi_links m)" "wl_node2 (wifi_links m ! j) = Some a"
  shows "j \<in> set (node_links m a) \<and> wl_node1 (wifi_links m ! j) \<noteq> None"
  by (rule assms(1) [unfolded links_registered_def, THEN conjunct2, rule_format, OF assms(2,3)])

lemma relink_registered:
  assumes "links_registered m" "k < length (wifi_links m)" "wl_node1 (wifi_links m ! k) \<noteq> None"
  shows "links_registered (m\<lparr>wifi_links := (wifi_links m)[k := (wifi_links m ! k)\<lparr>wl_node2 := ap, wl_visible := v\<rparr>],
      node_links := (\<lambda>a. (if wl_node2 (wifi_links m ! k) = Some a then remove1 k (node_links m a) else node_links m a)
         @ (if ap = Some a then [k] else []))\<rparr>)"
proof -
  note dist = registered_distinct [OF assms(1)] and in_links = registered_links [OF assms(1)] and linked = linked_registered [OF assms(1)]
  have not_in: "k \<notin> set (node_links m a)" if "wl_node2 (wifi_links m ! k) \<noteq> Some a" for a
    using in_links [of k a] assms(3) that by auto
  show ?thesis
    unfolding links_registered_def
  proof (intro conjI allI ballI impI, goal_cases)
    case (1 a)
    then show ?case using dist [of a] not_in [of a] by (simp add: set_remove1_eq)
  next
    case (2 a j)
    then show ?case using in_links [of j a] assms(2) dist [of a] by (auto split: if_splits)
  next
    case (3 a j)
    then show ?case
      using in_links [of j a] assms(2) dist [of a] not_in [of a] by (cases "j = k") (auto simp: set_remove1_eq split: if_splits)
  next
    case (4 j a)
    then show ?case using linked [of j a] assms(2) by (cases "j = k") (auto simp: in_set_remove1)
  next
    case (5 j a)
    then show ?case using linked [of j a] assms(2,3) by (cases "j = k") auto
  qed
qed

lemma set_ap_result:
  assumes ok: "monitor_ok m" and k: "k < length (wifi_links m)" "wl_node1 (wifi_links m ! k) \<noteq> None"
  shows "\<exists>m'. set_ap pos ap k m = (Inr (), m') \<and> monitor_ok m' \<and> relinked k ap m m'"
proof (cases "ap = wl_node2 (wifi_links m ! k)")
  case True
  then show ?thesis using ok by (auto simp: set_ap_def relinked_def)
next
  case False
  define old where "old = wl_node2 (wifi_links m ! k)"
  define l where "l = (wifi_links m ! k)\<lparr>wl_node2 := ap, wl_visible := (ap \<noteq> None)\<rparr>"
  define nl where "nl = (\<lambda>a. (if old = Some a then remove1 k (node_links m a) else node_links m a) @ (if ap = Some a then [k] else []))"
  define m1 where "m1 = m\<lparr>wifi_links := (wifi_links m)[k := l], node_links := nl\<rparr>"
  have reg: "links_registered m" and st: "stations_linked m" using ok by (auto simp: monitor_ok_def)
  have mem: "k \<in> set (node_links m a)" if "old = Some a" for a
    using linked_registered [OF reg k(1)] that by (auto simp: old_def)
  have eq: "set_ap pos ap k m = (Inr (), wifi_update_points pos k m1)"
  proof -
    have "old = None \<or> (\<exists>a. old = Some a)" "ap = None \<or> (\<exists>b. ap = Some b)" by auto
    then show ?thesis
      using False mem unfolding set_ap_def old_def [symmetric]
      by (elim disjE exE)
        (auto simp: remove_link_def add_link_def change_link_def Let_def m1_def l_def nl_def fun_eq_iff intro!: arg_cong [where f = "wifi_update_points pos k"])
  qed
  have "links_registered m1" using relink_registered [OF reg k] by (simp add: m1_def l_def nl_def old_def)
  moreover have "stations_linked m1"
    using st k unfolding stations_linked_def m1_def l_def by (auto simp: nth_list_update)
  ultimately have "monitor_ok m1" by (simp add: monitor_ok_def)
  moreover have "relinked k ap m m1" using k by (auto simp: relinked_def m1_def l_def nth_list_update)
  ultimately show ?thesis
    using eq update_points_same_ends [of m1 pos k] same_ends_ok same_ends_relinked k(1) by blast
qed

definition has_station :: "wifi_monitor \<Rightarrow> nat \<times> int \<times> nat \<Rightarrow> bool" where
  "has_station m s = (case s of (d, i, k) \<Rightarrow> k < length (wifi_links m) \<and> wl_node1 (wifi_links m ! k) = Some i)"

lemma relinked_station: "relinked k ap m m' \<Longrightarrow> has_station m s \<Longrightarrow> has_station m' s"
  by (auto simp: relinked_def has_station_def)

lemma periodic_keeps:
  assumes "monitor_ok m" "\<forall>s \<in> set ss. has_station m s"
  shows "monitor_ok (snd (wifi_periodic_update pos report ss m)) \<and> fst (wifi_periodic_update pos report ss m) \<in> {Inr (), Inl KeyError}"
  using assms
proof (induction ss arbitrary: m)
  case (Cons s ss)
  obtain d i k where s: "s = (d, i, k)" by (cases s)
  have k: "k < length (wifi_links m)" "wl_node1 (wifi_links m ! k) \<noteq> None" using Cons.prems s by (auto simp: has_station_def)
  show ?case
  proof (cases "station_ap (access_points m) (report d)")
    case (Inl e)
    then have "e = KeyError" by (auto simp: station_ap_def split: if_splits option.splits)
    then show ?thesis using Cons.prems Inl s by simp
  next
    case (Inr ap)
    obtain m' where m': "set_ap pos ap k m = (Inr (), m')" "monitor_ok m'" "relinked k ap m m'"
      using set_ap_result [OF Cons.prems(1) k] by blast
    then have "\<forall>s \<in> set ss. has_station m' s" using relinked_station Cons.prems(2) by auto
    from Cons.IH [OF m'(2) this] show ?thesis using Inr s m'(1) by simp
  qed
qed simp

lemma periodic_links:
  assumes "monitor_ok m" "\<forall>s \<in> set ss. has_station m s" "distinct (map (\<lambda>(_, _, k). k) ss)"
    and "\<forall>(d, i, k) \<in> set ss. station_ap (access_points m) (report d) = Inr (ap_of d)"
  shows "\<exists>m'. wifi_periodic_update pos report ss m = (Inr (), m') \<and> stations m' = stations m
    \<and> length (wifi_links m') = length (wifi_links m)
    \<and> (\<forall>(d, i, k) \<in> set ss. wl_node2 (wifi_links m' ! k) = ap_of d)
    \<and> (\<forall>k < length (wifi_links m). k \<notin> (\<lambda>(_, _, k). k) ` set ss \<longrightarrow> wl_node2 (wifi_links m' ! k) = wl_node2 (wifi_links m ! k))"
  using assms
proof (induction ss arbitrary: m)
  case (Cons s ss)
  obtain d i k where s: "s = (d, i, k)" by (cases s)
  have k: "k < length (wifi_links m)" "wl_node1 (wifi_links m ! k) \<noteq> None" using Cons.prems(2) s by (auto simp: has_station_def)
  obtain m1 where m1: "set_ap pos (ap_of d) k m = (Inr (), m1)" "monitor_ok m1" "relinked k (ap_of d) m m1"
    using set_ap_result [OF Cons.prems(1) k] by blast
  have "\<forall>s \<in> set ss. has_station m1 s" using relinked_station [OF m1(3)] Cons.prems(2) by auto
  moreover have "distinct (map (\<lambda>(_, _, k). k) ss)" using Cons.prems(3) by simp
  moreover have "\<forall>(d, i, k) \<in> set ss. station_ap (access_points m1) (report d) = Inr (ap_of d)"
    using Cons.prems(4) m1(3) by (auto simp: relinked_def)
  ultimately obtain m' where m': "wifi_periodic_update pos report ss m1 = (Inr (), m')" "stations m' = stations m1"
    "length (wifi_links m') = length (wifi_links m1)" "\<forall>(d, i, k) \<in> set ss. wl_node2 (wifi_links m' ! k) = ap_of d"
    "\<forall>k < length (wifi_links m1). k \<notin> (\<lambda>(_, _, k). k) ` set ss \<longrightarrow> wl_node2 (wifi_links m' ! k) = wl_node2 (wifi_links m1 ! k)"
    using Cons.IH [OF m1(2)] by blast
  have "k \<notin> (\<lambda>(_, _, k). k) ` set ss" using Cons.prems(3) s by simp
  then have "wl_node2 (wifi_links m' ! k) = ap_of d" using m' m1(3) k by (auto simp: relinked_def)
  then show ?case using s m' m1 Cons.prems(4) by (auto simp: relinked_def)
qed auto

lemma destroyed_registered:
  assumes "links_registered m"
  shows "links_registered (destroy_link k m)"
  unfolding links_registered_def
proof (intro conjI allI ballI impI, goal_cases)
  case (1 a)
  then show ?case using registered_distinct [OF assms] by (simp add: destroy_link_def change_link_def)
next
  case (2 a j)
  then show ?case using registered_links [OF assms] by (simp add: destroy_link_def change_link_def)
next
  case (3 a j)
  then show ?case using registered_links [OF assms, of j a] by (auto simp: destroy_link_def change_link_def nth_updated)
next
  case (4 j a)
  then show ?case using linked_registered [OF assms, of j a] by (auto simp: destroy_link_def change_link_def nth_updated split: if_splits)
next
  case (5 j a)
  then show ?case using linked_registered [OF assms, of j a] by (auto simp: destroy_link_def change_link_def nth_updated split: if_splits)
qed

lemma new_link_registered:
  assumes "links_registered m"
  shows "links_registered (m\<lparr>wifi_links := wifi_links m @ [new_wifi_link i], stations := ss\<rparr>)"
  unfolding links_registered_def
proof (intro conjI allI ballI impI, goal_cases)
  case (4 j a)
  then show ?case using linked_registered [OF assms, of j a] by (auto simp: nth_append new_wifi_link_def less_Suc_eq split: if_splits)
next
  case (5 j a)
  then show ?case using linked_registered [OF assms, of j a] by (auto simp: nth_append new_wifi_link_def less_Suc_eq split: if_splits)
qed (use registered_distinct [OF assms] registered_links [OF assms] in \<open>auto simp: nth_append less_SucI\<close>)

lemma scan_device_monitor_ok:
  assumes "monitor_ok m"
  shows "monitor_ok (scan_wifi_device i d m)"
proof -
  have reg: "links_registered m" and st: "stations_linked m" using assms by (auto simp: monitor_ok_def)
  have "stations_linked (m\<lparr>wifi_links := wifi_links m @ [new_wifi_link i], stations := stations m @ [(wd_id d, i, length (wifi_links m))]\<rparr>)"
    using st unfolding stations_linked_def by (fastforce simp: nth_append new_wifi_link_def)
  moreover have "monitor_ok (m\<lparr>access_points := aps\<rparr>)" for aps
    using assms by (simp add: monitor_ok_def links_registered_def stations_linked_def)
  ultimately show ?thesis
    using assms new_link_registered [OF reg] by (auto simp: scan_wifi_device_def monitor_ok_def split: option.splits wifi_mac.splits)
qed

lemma scan_nodes_monitor_ok:
  assumes "monitor_ok m"
  shows "monitor_ok (scan_nodes devices nodes m)"
proof -
  have "links_registered (fold (\<lambda>(_, _, k). destroy_link k) ss m')" if "links_registered m'"
    for ss :: "(nat \<times> int \<times> nat) list" and m'
    using that by (induction ss arbitrary: m') (auto simp: destroyed_registered)
  then have "links_registered (fold (\<lambda>(_, _, k). destroy_link k) (stations m) m)" using assms by (simp add: monitor_ok_def)
  moreover have "links_registered m' \<Longrightarrow> monitor_ok (m'\<lparr>access_points := [], stations := []\<rparr>)" for m'
    by (simp add: monitor_ok_def links_registered_def stations_linked_def)
  ultimately have "monitor_ok ((fold (\<lambda>(_, _, k). destroy_link k) (stations m) m)\<lparr>access_points := [], stations := []\<rparr>)" by blast
  moreover have "monitor_ok (fold (scan_wifi_device i) ds m')" if "monitor_ok m'" for i ds m'
    using that by (induction ds arbitrary: m') (auto simp: scan_device_monitor_ok)
  then have "monitor_ok (fold (\<lambda>i. fold (scan_wifi_device i) (devices i)) ns m')" if "monitor_ok m'" for ns m'
    using that by (induction ns arbitrary: m') auto
  ultimately show ?thesis by (simp add: scan_nodes_def Let_def)
qed

lemma ok_has_station: "monitor_ok m \<Longrightarrow> \<forall>s \<in> set (stations m). has_station m s"
  by (auto simp: monitor_ok_def stations_linked_def has_station_def)

text \<open>What happens to the monitor while the visualizer runs: the three signals it listens to.\<close>

inductive wifi_step :: "wifi_monitor \<Rightarrow> wifi_monitor \<Rightarrow> bool" where
  scanned: "wifi_step m (scan_nodes devices nodes m)"
| periodic: "wifi_step m (snd (simulation_periodic_update pos report m))"
| viewed: "wifi_step m (wifi_update_view pos m)"

lemma wifi_step_ok: "wifi_step m m' \<Longrightarrow> monitor_ok m \<Longrightarrow> monitor_ok m'"
proof (induction rule: wifi_step.induct)
  case (periodic m pos report)
  then show ?case using periodic_keeps [OF periodic ok_has_station [OF periodic]] by (simp add: simulation_periodic_update_def)
next
  case (viewed m pos)
  then show ?case using same_ends_ok [OF update_view_same_ends] by (simp add: wifi_update_view_def)
qed (rule scan_nodes_monitor_ok)

lemma reachable_monitor_ok: "wifi_step\<^sup>*\<^sup>* new_monitor m \<Longrightarrow> monitor_ok m"
proof (induction rule: rtranclp_induct)
  case base
  then show ?case by (simp add: monitor_ok_def links_registered_def stations_linked_def new_monitor_def)
qed (rule wifi_step_ok)

lemma update_view_data:
  assumes "distinct (map (\<lambda>(_, _, k). k) ss)" "\<forall>s \<in> set ss. has_station m s" "(d, i, k) \<in> set ss" "wl_node2 (wifi_links m ! k) = Some b"
  shows "wl_data (wifi_links (fold (\<lambda>(_, _, k). wifi_update_points pos k) ss m) ! k) = Some (pos i, pos b)"
  using assms
proof (induction ss arbitrary: m)
  case (Cons s ss)
  obtain d' i' k' where s: "s = (d', i', k')" by (cases s)
  let ?m = "wifi_update_points pos k' m"
  have same: "same_ends m ?m" by (rule update_points_same_ends)
  have k: "k < length (wifi_links m)" "wl_node1 (wifi_links m ! k) = Some i" using Cons.prems(2,3) by (auto simp: has_station_def)
  show ?case
  proof (cases "k = k'")
    case False
    then have "(d, i, k) \<in> set ss" using Cons.prems(3) s by auto
    moreover have "\<forall>s \<in> set ss. has_station ?m s" using Cons.prems(2) same by (auto simp: has_station_def same_ends_def)
    ultimately show ?thesis using Cons.IH [of ?m] Cons.prems(1,4) s same k by (simp add: same_ends_def)
  next
    case True
    have other: "wifi_links (fold (\<lambda>(_, _, k). wifi_update_points pos k) ts n) ! k = wifi_links n ! k"
      if "k \<notin> (\<lambda>(_, _, k). k) ` set ts" for ts :: "(nat \<times> int \<times> nat) list" and n
      using that by (induction ts arbitrary: n) (auto simp: wifi_update_points_def change_link_def)
    have "k \<notin> (\<lambda>(_, _, k). k) ` set ss" using Cons.prems(1) s True by simp
    moreover have "wl_data (wifi_links ?m ! k) = Some (pos i, pos b)"
      using True k Cons.prems(4) by (simp add: wifi_update_points_def change_link_def)
    ultimately show ?thesis using s True other [of ss ?m] by simp
  qed
qed simp

text \<open>C9: Whatever has happened before, when every access point that a station reports is known, a periodic update followed by a redraw
  raises nothing and leaves every station joined to exactly the access point it belongs to, or to none: a joined link is registered
  there, and runs from the position of the station to the position of the access point.\<close>

theorem wifi_links_follow:
  assumes "wifi_step\<^sup>*\<^sup>* new_monitor m"
    and "\<forall>(d, i, k) \<in> set (stations m). station_ap (access_points m) (report d) = Inr (ap_of d)"
  shows "\<exists>m'. simulation_periodic_update pos report m = (Inr (), m') \<and> stations m' = stations m
    \<and> (\<forall>(d, i, k) \<in> set (stations m). let l = wifi_links (wifi_update_view pos m') ! k in
         wl_node1 l = Some i \<and> wl_node2 l = ap_of d
         \<and> (\<forall>a. ap_of d = Some a \<longrightarrow> wl_data l = Some (pos i, pos a) \<and> k \<in> set (node_links m' a)))"
proof -
  have ok: "monitor_ok m" using reachable_monitor_ok [OF assms(1)] .
  then have dist: "distinct (map (\<lambda>(_, _, k). k) (stations m))" by (simp add: monitor_ok_def stations_linked_def)
  obtain m' where m': "simulation_periodic_update pos report m = (Inr (), m')" "stations m' = stations m"
    "\<forall>(d, i, k) \<in> set (stations m). wl_node2 (wifi_links m' ! k) = ap_of d"
    using periodic_links [OF ok ok_has_station [OF ok] dist assms(2), of pos] unfolding simulation_periodic_update_def by blast
  have ok': "monitor_ok m'" using wifi_step.periodic [of m pos report] wifi_step_ok ok m'(1) by fastforce
  have view: "same_ends m' (wifi_update_view pos m')" by (simp add: wifi_update_view_def update_view_same_ends)
  have "let l = wifi_links (wifi_update_view pos m') ! k in wl_node1 l = Some i \<and> wl_node2 l = ap_of d
         \<and> (\<forall>a. ap_of d = Some a \<longrightarrow> wl_data l = Some (pos i, pos a) \<and> k \<in> set (node_links m' a))"
    if s: "(d, i, k) \<in> set (stations m)" for d i k
  proof -
    have k: "k < length (wifi_links m')" "wl_node1 (wifi_links m' ! k) = Some i" "wl_node2 (wifi_links m' ! k) = ap_of d"
      using ok_has_station [OF ok'] s m'(2,3) by (auto simp: has_station_def)
    moreover have "links_registered m'" using ok' by (simp add: monitor_ok_def)
    moreover have "wl_data (wifi_links (wifi_update_view pos m') ! k) = Some (pos i, pos a)" if "ap_of d = Some a" for a
      unfolding wifi_update_view_def m'(2)
      using update_view_data [of "stations m" m' d i k a pos] dist ok_has_station [OF ok'] s k(3) that m'(2) by simp
    ultimately show ?thesis using view linked_registered [of m' k] by (auto simp: same_ends_def Let_def)
  qed
  then show ?thesis using m'(1,2) by blast
qed

definition sample_devices :: "int \<Rightarrow> wifi_device list" where
  "sample_devices i =
     (if i = 0 then [\<lparr>wd_id = 7, wd_mac = Some StaWifiMac, wd_address = ''00:00:00:00:00:01''\<rparr>]
      else [\<lparr>wd_id = 8, wd_mac = Some ApWifiMac, wd_address = ''00:00:00:00:00:02''\<rparr>])"

theorem wifi_links_follow_witness:
  "\<exists>m'. simulation_periodic_update (\<lambda>i. (of_int i, 0)) (\<lambda>_. (True, ''00:00:00:00:00:02'')) (scan_nodes sample_devices [0, 1] new_monitor)
     = (Inr (), m') \<and> wl_data (wifi_links (wifi_update_view (\<lambda>i. (of_int i, 0)) m') ! 0) = Some ((0, 0), (1, 0))"
proof -
  let ?m = "scan_nodes sample_devices [0, 1] new_monitor"
  have m: "stations ?m = [(7, 0, 0)]" "access_points ?m = [(''00:00:00:00:00:02'', 1)]"
    by (simp_all add: scan_nodes_def sample_devices_def scan_wifi_device_def new_monitor_def Let_def)
  have "wifi_step\<^sup>*\<^sup>* new_monitor ?m" by (rule r_into_rtranclp, rule wifi_step.scanned)
  moreover have "\<forall>(d, i, k) \<in> set (stations ?m). station_ap (access_points ?m) ((\<lambda>_. (True, ''00:00:00:00:00:02'')) d) = Inr ((\<lambda>_. Some 1) d)"
    by (simp add: m station_ap_def no_bssid_def)
  ultimately show ?thesis
    using wifi_links_follow [of ?m "\<lambda>_. (True, ''00:00:00:00:00:02'')" "\<lambda>_. Some 1" "\<lambda>i. (of_int i, 0)"] by (auto simp: m Let_def)
qed

text \<open>An access point that is not known stops the update: the station and the ones after it keep what they had.\<close>

theorem unknown_access_point:
  assumes "fst (report d)" "snd (report d) \<noteq> no_bssid" "map_of (access_points m) (snd (report d)) = None"
  shows "wifi_periodic_update pos report ((d, i, k) # ss) m = (Inl KeyError, m)"
  using assms by (simp add: station_ap_def)

section \<open>Rates\<close>

text \<open>The samples of a node in the reports so far, in order.\<close>

definition samples_for :: "int \<Rightarrow> (int \<times> raw_stats list) list \<Rightarrow> raw_stats list list" where
  "samples_for i us = map snd (filter (\<lambda>u. fst u = i) us)"

definition last_ten :: "'a list \<Rightarrow> 'a list" where
  "last_ten xs = drop (length xs - 10) xs"

lemma last_ten_snoc: "drop (Suc (length (last_ten xs)) - 10) (last_ten xs @ [x]) = last_ten (xs @ [x])"
proof -
  have "n - (n - 10 + 9) + (n - 10) = n - 9" for n :: nat by arith
  then show ?thesis by (simp add: last_ten_def)
qed

lemma collect_statistics_result:
  "collect_statistics u d = Inr (AList.update (fst u) (drop (Suc (length raw) - 10) (raw @ [snd u])) d)"
  if "raw = (case map_of d (fst u) of None \<Rightarrow> [] | Some xs \<Rightarrow> xs)"
  using that by (simp add: collect_statistics_def push_window_def NODE_STATISTICS_MEMORY_def shrink_window_drop Let_def)

lemma statistics_window:
  "\<exists>d. statistics_periodic_update us [] = Inr d
     \<and> (\<forall>i. map_of d i = (if samples_for i us = [] then None else Some (last_ten (samples_for i us))))"
proof (induction us rule: rev_induct)
  case Nil
  then show ?case by (simp add: statistics_periodic_update_def samples_for_def)
next
  case (snoc u us)
  then obtain d where d: "res_fold collect_statistics us [] = Inr d"
    "\<forall>i. map_of d i = (if samples_for i us = [] then None else Some (last_ten (samples_for i us)))"
    by (auto simp: statistics_periodic_update_def)
  let ?raw = "last_ten (samples_for (fst u) us)"
  have "?raw = (case map_of d (fst u) of None \<Rightarrow> [] | Some xs \<Rightarrow> xs)" using d(2) by (auto simp: last_ten_def)
  from collect_statistics_result [OF this]
  have "statistics_periodic_update (us @ [u]) [] = Inr (AList.update (fst u) (last_ten (samples_for (fst u) us @ [snd u])) d)"
    using d(1) last_ten_snoc [of "samples_for (fst u) us" "snd u"]
    by (simp add: statistics_periodic_update_def res_fold_append)
  then show ?case using d(2) by (auto simp: samples_for_def)
qed

lemma out_stats_map:
  "length ss = length ss1 \<Longrightarrow> k \<noteq> 0 \<Longrightarrow> out_stats k ss ss1 = Inr (map (\<lambda>(s, s1). out_stat k s s1) (zip ss ss1))"
  by (induction k ss ss1 rule: out_stats.induct) auto

text \<open>C13: From any sequence of reports: with fewer than ten samples of a node there are no statistics; after that they give, for
  every interface, the counters of the last sample and rates over the last ten samples, that is nine sample periods.\<close>

theorem interface_rates:
  assumes "0 < period" and "\<forall>xs \<in> set (samples_for i us). length xs = n"
  shows "\<exists>d. statistics_periodic_update us [] = Inr d \<and>
    get_interface_statistics period d i =
      Inr (if length (samples_for i us) < 10 then []
           else map (\<lambda>(s, s1). out_stat (period * 9) s s1)
                  (zip (last (samples_for i us)) (samples_for i us ! (length (samples_for i us) - 10))))"
proof -
  let ?xs = "samples_for i us"
  obtain d where d: "statistics_periodic_update us [] = Inr d"
    "map_of d i = (if ?xs = [] then None else Some (last_ten ?xs))" using statistics_window by meson
  have len: "length (last_ten ?xs) = min 10 (length ?xs)" by (simp add: last_ten_def)
  have "get_interface_statistics period d i = Inr (if length ?xs < 10 then [] else map (\<lambda>(s, s1). out_stat (period * 9) s s1)
      (zip (last ?xs) (?xs ! (length ?xs - 10))))"
  proof (cases "length ?xs < 10")
    case True
    then show ?thesis using d(2) len by (simp add: get_interface_statistics_def NODE_STATISTICS_MEMORY_def)
  next
    case False
    then have ne: "?xs \<noteq> []" by auto
    have "last (last_ten ?xs) = last ?xs" "hd (last_ten ?xs) = ?xs ! (length ?xs - 10)"
      using False ne by (simp_all add: last_ten_def last_drop hd_drop_conv_nth)
    moreover have "length (last ?xs) = length (?xs ! (length ?xs - 10))" using assms(2) ne by simp
    ultimately show ?thesis
      using d(2) len False ne assms(1) by (simp add: get_interface_statistics_def NODE_STATISTICS_MEMORY_def out_stats_map)
  qed
  then show ?thesis using d(1) by blast
qed

definition sample_reports :: "(int \<times> raw_stats list) list" where
  "sample_reports = map (\<lambda>k. (5, [\<lparr>transmittedPackets = k, transmittedBytes = 100 * k, receivedPackets = 0, receivedBytes = 0\<rparr>])) [0..<12]"

theorem interface_rates_witness:
  "\<exists>d. statistics_periodic_update sample_reports [] = Inr d
     \<and> (\<exists>s. get_interface_statistics (1 / 10) d 5 = Inr [s] \<and> txPacketRate s = 10 \<and> txBitRate s = 8000)"
proof -
  have xs: "samples_for 5 sample_reports
      = map (\<lambda>k. [\<lparr>transmittedPackets = k, transmittedBytes = 100 * k, receivedPackets = 0, receivedBytes = 0\<rparr>]) [0..<12]"
    by (simp add: samples_for_def sample_reports_def)
  have "\<forall>ys \<in> set (samples_for 5 sample_reports). length ys = 1" by (simp add: xs)
  from interface_rates [OF _ this, of "1 / 10"] show ?thesis by (auto simp: xs out_stat_def difference_rate_def last_map nth_append)
qed

section \<open>The packet filter\<close>

text \<open>C40: When the parents of the registered types have no cycle, the filter list is built, and it holds exactly the registered types
  that descend from \<^verbatim>\<open>ns3::Header\<close> or \<^verbatim>\<open>ns3::Trailer\<close>, without these two themselves, all of them selected and in the order of
  registration.\<close>

theorem packet_filter_exact:
  assumes "wfP (\<lambda>p t. parent t = Some p)"
  shows "packet_filter_list header trailer parent name ts =
    Some (map (\<lambda>t. \<lparr>tc_selected = True, tc_name = name t, tc_typeid = t\<rparr>)
      (filter (\<lambda>t. t \<notin> {header, trailer} \<and> (\<exists>g \<in> {header, trailer}. (\<lambda>t p. parent t = Some p)\<^sup>*\<^sup>* t g)) ts))"
proof -
  have good: "type_is_good header trailer parent t = Some (\<exists>g \<in> {header, trailer}. (\<lambda>t p. parent t = Some p)\<^sup>*\<^sup>* t g)" for t
    using assms
  proof (induction t rule: wfp_induct_rule)
    case (less t)
    show ?case
    proof (cases "t = header \<or> t = trailer")
      case True
      then show ?thesis by (subst type_is_good.simps) auto
    next
      case no: False
      then have up: "(\<lambda>t p. parent t = Some p)\<^sup>*\<^sup>* t g \<longleftrightarrow> (\<exists>p. parent t = Some p \<and> (\<lambda>t p. parent t = Some p)\<^sup>*\<^sup>* p g)"
        if "g \<in> {header, trailer}" for g
        using that by (auto elim: converse_rtranclpE intro: converse_rtranclp_into_rtranclp)
      show ?thesis
        using no less up by (subst type_is_good.simps) (auto split: option.splits)
    qed
  qed
  show ?thesis by (induction ts) (auto simp: good)
qed

theorem packet_filter_exact_witness:
  "map_option (map tc_typeid) (packet_filter_list 1 2 (\<lambda>t. if t = 3 then Some 1 else if t = 4 then Some 0 else None) (\<lambda>_. ''T'') [1, 2, 3, 4])
   = Some [3]"
proof -
  let ?parent = "\<lambda>t :: nat. if t = 3 then Some 1 else if t = 4 then Some (0 :: nat) else None"
  have "wfP (\<lambda>p t. ?parent t = Some p)"
    by (rule wfp_if_convertible_to_nat [where f = id]) (auto split: if_splits)
  moreover have "(\<lambda>t p. ?parent t = Some p)\<^sup>*\<^sup>* 4 g \<Longrightarrow> g = 4 \<or> g = 0" for g
    by (induction rule: rtranclp_induct) (auto split: if_splits)
  then have "\<not> (\<lambda>t p. ?parent t = Some p)\<^sup>*\<^sup>* 4 1" "\<not> (\<lambda>t p. ?parent t = Some p)\<^sup>*\<^sup>* 4 2" by fastforce+
  moreover have "(\<lambda>t p. ?parent t = Some p)\<^sup>*\<^sup>* 3 1" by (rule r_into_rtranclp) simp
  ultimately show ?thesis
    using packet_filter_exact [of ?parent 1 2 "\<lambda>_. ''T''" "[1, 2, 3, 4]"] by simp
qed

section \<open>Windows that cannot be refreshed\<close>

lemma res_fold_unit:
  "res_fold (\<lambda>v _. f v) xs () = Inr () \<longleftrightarrow> (\<forall>x \<in> set xs. f x = Inr ())"
  by (induction xs) (auto simp: res_bind_eq_Inr)

text \<open>What the user does with windows: opening one, which is a new object, and closing one, which he can only do when it is on the screen.\<close>

datatype ('t, 'w) window_event = Open 't 'w | Close 'w

definition opened_windows :: "('t, 'w) window_event list \<Rightarrow> 'w set" where
  "opened_windows es = {w. \<exists>t. Open t w \<in> set es}"

definition closed_windows :: "('t, 'w) window_event list \<Rightarrow> 'w set" where
  "closed_windows es = {w. Close w \<in> set es}"

inductive window_session :: "('t \<Rightarrow> 'w \<Rightarrow> unit res) \<Rightarrow> ('t, 'w) window_event list \<Rightarrow> 'w windows \<Rightarrow> bool" for update where
  start: "window_session update [] no_windows"
| opens: "window_session update es s \<Longrightarrow> w \<notin> opened_windows es \<Longrightarrow> window_session update (es @ [Open t w]) (snd (open_window update t w s))"
| closes: "window_session update es s \<Longrightarrow> w \<in> set (on_screen s) \<Longrightarrow> window_session update (es @ [Close w]) (snd (response_cb w s))"

lemma events_snoc [simp]:
  "opened_windows (es @ [Open t w]) = insert w (opened_windows es)" "opened_windows (es @ [Close w]) = opened_windows es"
  "closed_windows (es @ [Open t w]) = closed_windows es" "closed_windows (es @ [Close w]) = insert w (closed_windows es)"
  by (auto simp: opened_windows_def closed_windows_def)

lemma open_window_state:
  "information_windows (snd (open_window update t w s)) = information_windows s @ [w]"
  "on_screen (snd (open_window update t w s)) = on_screen s @ (if update t w = Inr () then [w] else [])"
  by (auto simp: open_window_def add_information_window_def split: sum.splits)

definition failed_first :: "('t \<Rightarrow> 'w \<Rightarrow> unit res) \<Rightarrow> ('t, 'w) window_event list \<Rightarrow> 'w set" where
  "failed_first update es = {w. \<exists>t e. Open t w \<in> set es \<and> update t w = Inl e}"

lemma window_session_invariant:
  assumes "window_session update es s"
  shows "set (information_windows s) = opened_windows es - closed_windows es \<and> distinct (information_windows s) \<and> distinct (on_screen s)
    \<and> set (on_screen s) = set (information_windows s) - failed_first update es
    \<and> closed_windows es \<subseteq> opened_windows es - failed_first update es"
  using assms
proof (induction rule: window_session.induct)
  case start
  show ?case by (simp add: no_windows_def opened_windows_def closed_windows_def failed_first_def)
next
  case (opens es s w t)
  have failed: "failed_first update (es @ [Open t w]) = failed_first update es \<union> (if update t w = Inr () then {} else {w})"
    by (cases "update t w") (auto simp: failed_first_def)
  have "w \<notin> failed_first update es" "w \<notin> closed_windows es"
    using opens.hyps(2) opens.IH by (auto simp: failed_first_def opened_windows_def)
  then show ?case using opens by (auto simp: open_window_state failed)
next
  case (closes es s w)
  have failed: "failed_first update (es @ [Close w]) = failed_first update es" by (auto simp: failed_first_def)
  have "w \<in> set (information_windows s)" using closes by blast
  then show ?case using closes by (auto simp: response_cb_def remove_information_window_def failed)
qed

text \<open>C15: In every session the visualizer refreshes exactly the windows that were opened and not closed, and closing never raises. A window whose
  first refresh raised is among them for ever, because it never came to the screen and cannot be closed. A redraw at a moment \<open>t\<close> goes on
  to the traffic exactly when every one of these windows can be refreshed at \<open>t\<close>; otherwise it raises, the traffic stays as it was and the
  plugins are not told.\<close>

theorem failing_window_stays:
  assumes "window_session update es s"
  shows "set (information_windows s) = opened_windows es - closed_windows es
    \<and> (\<forall>w \<in> set (on_screen s). fst (response_cb w s) = Inr ())
    \<and> (\<forall>t w e. Open t w \<in> set es \<and> update t w = Inl e \<longrightarrow> w \<in> set (information_windows s) - set (on_screen s))
    \<and> (if \<forall>w \<in> opened_windows es - closed_windows es. update t w = Inr ()
       then fst (visualizer_update_view vp wd period edge_y clip update t s samples tr st)
              = res_bind (fst (update_transmissions_view period clip (fst samples) tr (update_node_positions vp wd st))) (\<lambda>_.
                  let (_, tr', st') = update_transmissions_view period clip (fst samples) tr (update_node_positions vp wd st)
                  in fst (update_drops_view period edge_y (snd samples) tr' st'))
       else \<exists>e. visualizer_update_view vp wd period edge_y clip update t s samples tr st = (Inl e, tr, update_node_positions vp wd st, False))"
proof -
  note inv = window_session_invariant [OF assms]
  have "w \<in> set (information_windows s) - set (on_screen s)" if "Open t w \<in> set es" "update t w = Inl e" for t w e
  proof -
    have "w \<in> failed_first update es" "w \<in> opened_windows es" using that by (auto simp: failed_first_def opened_windows_def)
    then show ?thesis using inv by blast
  qed
  moreover have "\<forall>w \<in> set (on_screen s). fst (response_cb w s) = Inr ()"
    using inv by (auto simp: response_cb_def remove_information_window_def)
  moreover have "res_fold (\<lambda>v _. update t v) (information_windows s) () = Inr () \<longleftrightarrow> (\<forall>w \<in> opened_windows es - closed_windows es. update t w = Inr ())"
    using inv by (simp add: res_fold_unit)
  moreover have "\<exists>e. r = Inl e" if "r \<noteq> Inr ()" for r :: "unit res" using that by (cases r) auto
  ultimately show ?thesis using inv
    by (cases "res_fold (\<lambda>v _. update t v) (information_windows s) ()")
      (auto simp: visualizer_update_view_def Let_def split: prod.splits sum.splits)
qed

definition empty_world :: ns3_world where
  "empty_world = \<lparr>w_count = 0, w_mobility = (\<lambda>_. None), w_devices = (\<lambda>_. [])\<rparr>"

text \<open>So it is with the table of IPv4 routes of a node that has no such stack, which the menu of every node offers.\<close>

theorem failing_window_stays_witness:
  "\<exists>e. visualizer_update_view \<lparr>to_pixels = id, page_size = (0, 0), clamp = id\<rparr> empty_world (1 / 10) 0 (\<lambda>p q. (p, q))
      (\<lambda>_ _. fst (ipv4_update None [])) (7 :: nat) (snd (open_window (\<lambda>_ _. fst (ipv4_update None [])) (3 :: nat) ''routes'' no_windows)) ([], [])
      \<lparr>t_arrows = [], t_drops = [], t_made = 0\<rparr> (new_viz 0)
    = (Inl e, \<lparr>t_arrows = [], t_drops = [], t_made = 0\<rparr>, update_node_positions \<lparr>to_pixels = id, page_size = (0, 0), clamp = id\<rparr> empty_world (new_viz 0), False)"
proof -
  let ?u = "\<lambda>(_ :: nat) (_ :: string). fst (ipv4_update None [])"
  have u: "?u t v = Inl AttributeError" for t v by (simp add: ipv4_update_def)
  have "window_session ?u ([] @ [Open 3 ''routes'']) (snd (open_window ?u 3 ''routes'' no_windows))"
    by (intro window_session.intros) (simp add: opened_windows_def)
  note t = failing_window_stays [OF this, where t = 7]
  have "\<not> (\<forall>w \<in> opened_windows ([] @ [Open (3 :: nat) ''routes'']) - closed_windows ([] @ [Open (3 :: nat) ''routes'']). ?u 7 w = Inr ())"
    unfolding u by (simp add: opened_windows_def closed_windows_def)
  then show ?thesis using t by (simp only: if_False simp_thms)
qed

end
