(* ===== verification/Scan_Hooks.thy ===== *)
theory Scan_Hooks
  imports Module_Scan
begin

text \<open>
  What the scanner of the Python bindings does with every C++ definition: \<^verbatim>\<open>pre_scan_hook\<close> of
  \<^verbatim>\<open>bindings/python/ns3modulescan.py\<close>, the class \<^verbatim>\<open>PreScanHook\<close> of \<^verbatim>\<open>ns3modulescan-modular.py\<close>, the table of annotations they share,
  and the path function of the second file, whose loop ends. Both files ask for Python 3; where the interpreter matters it is an argument. A definition
  is what they read of the objects of \<^verbatim>\<open>pygccxml\<close>: its kind, names, file, the default values of its arguments, its template arguments.
  The table is shared and changed in place, so it is part of the state.
\<close>

section \<open>Annotations\<close>

datatype scan_note = NoneNote | TrueNote | TextNote string | ParamNotes "(string \<times> (string \<times> string) list) list"

type_synonym scan_notes = "(string \<times> scan_note) list"

definition type_annotations :: "(string \<times> scan_notes) list" where
  "type_annotations =
     [
      (''::ns3::AttributeChecker'',
        [(''automatic_type_narrowing'', TextNote ''true''), (''allow_subclassing'', TextNote ''false'')]),
      (''::ns3::AttributeValue'',
        [(''automatic_type_narrowing'', TextNote ''true''), (''allow_subclassing'', TextNote ''false'')]),
      (''::ns3::CommandLine'',
        [(''allow_subclassing'', TextNote ''true'')]),
      (''::ns3::NscTcpL4Protocol'',
        [(''ignore'', TextNote ''true'')]),
      (''ns3::RandomVariable::RandomVariable(ns3::RandomVariableBase const & variable) [constructor]'',
        [(''ignore'', NoneNote)]),
      (''ns3::RandomVariableBase * ns3::RandomVariable::Peek() const [member function]'',
        [(''ignore'', NoneNote)]),
      (''void ns3::RandomVariable::GetSeed(uint32_t * seed) const [member function]'',
        [(''params'', ParamNotes [(''seed'', [(''direction'', ''out''), (''array_length'', ''6'')])])]),
      (''bool ns3::TypeId::LookupAttributeByName(std::string name, ns3::TypeId::AttributeInformation * info) const [member function]'',
        [(''params'', ParamNotes [(''info'', [(''transfer_ownership'', ''false'')])])]),
      (''static bool ns3::TypeId::LookupByNameFailSafe(std::string name, ns3::TypeId * tid) [member function]'',
        [(''ignore'', NoneNote)]),
      (''bool ns3::TraceSourceAccessor::ConnectWithoutContext(ns3::ObjectBase * obj, ns3::CallbackBase const & cb) const [member function]'',
        [(''params'', ParamNotes [(''obj'', [(''transfer_ownership'', ''false'')])])]),
      (''bool ns3::TraceSourceAccessor::Connect(ns3::ObjectBase * obj, std::string context, ns3::CallbackBase const & cb) const [member function]'',
        [(''params'', ParamNotes [(''obj'', [(''transfer_ownership'', ''false'')])])]),
      (''bool ns3::TraceSourceAccessor::DisconnectWithoutContext(ns3::ObjectBase * obj, ns3::CallbackBase const & cb) const [member function]'',
        [(''params'', ParamNotes [(''obj'', [(''transfer_ownership'', ''false'')])])]),
      (''bool ns3::TraceSourceAccessor::Disconnect(ns3::ObjectBase * obj, std::string context, ns3::CallbackBase const & cb) const [member function]'',
        [(''params'', ParamNotes [(''obj'', [(''transfer_ownership'', ''false'')])])]),
      (''bool ns3::AttributeAccessor::Set(ns3::ObjectBase * object, ns3::AttributeValue const & value) const [member function]'',
        [(''params'', ParamNotes [(''object'', [(''transfer_ownership'', ''false'')])])]),
      (''ns3::EmpiricalVariable::EmpiricalVariable(ns3::RandomVariableBase const & variable) [constructor]'',
        [(''ignore'', NoneNote)]),
      (''static ns3::AttributeList * ns3::AttributeList::GetGlobal() [member function]'',
        [(''caller_owns_return'', TextNote ''false'')]),
      (''void ns3::CommandLine::Parse(int argc, char * * argv) const [member function]'',
        [(''ignore'', NoneNote)]),
      (''extern void ns3::PythonCompleteConstruct(ns3::Ptr<ns3::Object> object, ns3::TypeId typeId, ns3::AttributeList const & attributes) [free function]'',
        [(''ignore'', NoneNote)]),
      (''ns3::Ptr<ns3::Ipv4RoutingProtocol> ns3::Ipv4ListRouting::GetRoutingProtocol(uint32_t index, int16_t & priority) const [member function]'',
        [(''params'', ParamNotes [(''priority'', [(''direction'', ''out'')])])]),
      (''ns3::Ipv4RoutingTableEntry * ns3::GlobalRouter::GetInjectedRoute(uint32_t i) [member function]'',
        [(''params'', ParamNotes [(''return'', [(''caller_owns_return'', ''false'')])])]),
      (''ns3::Ipv4RoutingTableEntry * ns3::Ipv4GlobalRouting::GetRoute(uint32_t i) const [member function]'',
        [(''params'', ParamNotes [(''return'', [(''caller_owns_return'', ''false'')])])]),
      (''::ns3::TestCase'',
        [(''ignore'', TextNote ''true'')]),
      (''::ns3::TestRunner'',
        [(''ignore'', TextNote ''true'')]),
      (''::ns3::TestSuite'',
        [(''ignore'', TextNote ''true'')])
     ]"

section \<open>Definitions and the state of a hook\<close>

datatype decl_kind =
    MemberFunction string | ConstructorDecl | FreeFunction | OtherCalldef | ClassDecl | EnumerationDecl | OtherDecl

text \<open>\<open>d_instance\<close>: for an instance of a template, the file of each argument that is a declaration.\<close>

record decl =
  d_kind :: decl_kind
  d_name :: string
  d_decl_string :: string
  d_text :: string
  d_file :: string
  d_template_args :: "string list"
  d_instance :: "string option list option"

record hook_state =
  h_table :: "(string \<times> scan_notes) list"
  h_global :: scan_notes
  h_params :: "(string \<times> (string \<times> string) list) list"
  h_args :: "string option list"

definition set_note :: "string \<Rightarrow> scan_note \<Rightarrow> hook_state \<Rightarrow> hook_state" where
  "set_note k v h = h\<lparr>h_global := AList.update k v (h_global h)\<rparr>"

definition update_notes :: "scan_notes \<Rightarrow> hook_state \<Rightarrow> hook_state" where
  "update_notes ns h = fold (\<lambda>(k, v). set_note k v) ns h"

definition update_params :: "(string \<times> (string \<times> string) list) list \<Rightarrow> hook_state \<Rightarrow> hook_state" where
  "update_params ps h = h\<lparr>h_params := fold (\<lambda>(k, v). AList.update k v) ps (h_params h)\<rparr>"

definition fix_default :: "string option \<Rightarrow> string option" where
  "fix_default v =
     (case v of
        None \<Rightarrow> None
      | Some t \<Rightarrow> Some (if t = ''ns3::MilliSeconds( )'' then ''ns3::MilliSeconds(0)''
                         else if t = ''ns3::Seconds( )'' then ''ns3::Seconds(0)'' else t))"

fun is_calldef :: "decl_kind \<Rightarrow> bool" where
  "is_calldef (MemberFunction _) = True" | "is_calldef ConstructorDecl = True" | "is_calldef FreeFunction = True"
| "is_calldef OtherCalldef = True" | "is_calldef _ = False"

fun is_table_driven :: "decl_kind \<Rightarrow> bool" where
  "is_table_driven (MemberFunction _) = True" | "is_table_driven ConstructorDecl = True" | "is_table_driven FreeFunction = True"
| "is_table_driven _ = False"

text \<open>The part that both hooks share: \<^verbatim>\<open>GetObject\<close>, the members of \<^verbatim>\<open>Simulator\<close> that are wrapped by hand, default values.\<close>

definition manual_notes :: "decl \<Rightarrow> hook_state \<Rightarrow> hook_state" where
  "manual_notes d h =
     (let h = (if d_kind d = MemberFunction ''Object'' \<and> d_name d = ''GetObject'' \<and> d_template_args d = [''ns3::Object'']
               then set_note ''template_instance_names'' (TextNote ''ns3::Object=>GetObject'') h else h);
          h = (if d_kind d = MemberFunction ''Simulator'' \<and> starts_with (d_name d) ''Schedule'' then set_note ''ignore'' NoneNote h else h);
          h = (if d_kind d = MemberFunction ''Simulator'' \<and> d_name d = ''Run'' then set_note ''ignore'' TrueNote h else h)
      in if is_calldef (d_kind d) then h\<lparr>h_args := map fix_default (h_args h)\<rparr> else h)"

text \<open>The annotations of a class, and whether the hook returns there.\<close>

definition class_notes :: "decl \<Rightarrow> hook_state \<Rightarrow> bool \<times> hook_state" where
  "class_notes d h =
     (if starts_with (d_decl_string d) ''::ns3::SimpleRefCount<''
      then (True, set_note ''automatic_type_narrowing'' (TextNote ''true'') (set_note ''peekref_method'' (TextNote ''GetReferenceCount'')
             (set_note ''decref_method'' (TextNote ''Unref'') (set_note ''incref_method'' (TextNote ''Ref'') h))))
      else if starts_with (d_decl_string d) ''::ns3::Callback<'' \<or> starts_with (d_decl_string d) ''::ns3::TracedCallback<''
              \<or> starts_with (d_decl_string d) ''::ns3::Ptr<''
      then (True, set_note ''ignore'' NoneNote h)
      else (False, case map_of (h_table h) (d_decl_string d) of None \<Rightarrow> h | Some ns \<Rightarrow> update_notes ns h))"

text \<open>\<^verbatim>\<open>dict.update\<close> of the notes on parameters with the value of an entry, which should be a dictionary: other values are not
  iterable, and the characters of a string are not pairs.\<close>

fun update_with :: "scan_note \<Rightarrow> hook_state \<Rightarrow> hook_state res" where
  "update_with (ParamNotes ps) h = Inr (update_params ps h)"
| "update_with (TextNote t) h = (if t = [] then Inr h else Inl ValueError)"
| "update_with NoneNote h = Inl TypeError"
| "update_with TrueNote h = Inl TypeError"

text \<open>The loop over the items of an entry \<open>ns\<close>, which deletes from the entry. When it runs over the dictionary itself, \<open>used\<close> is the size that
  the iterator has seen at the beginning and compares at every step, the last one included; for a copy it is \<open>None\<close>.\<close>

fun note_items :: "nat option \<Rightarrow> (string \<times> scan_note) list \<Rightarrow> scan_notes \<Rightarrow> hook_state \<Rightarrow> unit res \<times> scan_notes \<times> hook_state" where
  "note_items used items ns h =
     (if used \<noteq> None \<and> used \<noteq> Some (length ns) then (Inl RuntimeError, ns, h)
      else case items of
             [] \<Rightarrow> (Inr (), ns, h)
           | (key, val) # rest \<Rightarrow>
               if key = ''params''
               then (case update_with val h of
                       Inl e \<Rightarrow> (Inl e, ns, h)
                     | Inr h \<Rightarrow> note_items used rest (filter (\<lambda>(k, _). k \<noteq> ''params'') ns) h)
               else note_items used rest ns h)"

declare note_items.simps [simp del]

text \<open>The entry for a function: the notes on parameters are taken out of the table, the rest is added to the notes. \<open>checked\<close>: the loop
  runs over the dictionary itself, as \<^verbatim>\<open>items()\<close> does under Python 3; under Python 2 it is a list.\<close>

definition table_notes :: "bool \<Rightarrow> decl \<Rightarrow> hook_state \<Rightarrow> unit res \<times> hook_state" where
  "table_notes checked d h =
     (case map_of (h_table h) (d_text d) of
        None \<Rightarrow> (Inr (), h)
      | Some ns \<Rightarrow>
          (case note_items (if checked then Some (length ns) else None) ns ns h of
             (r, ns, h) \<Rightarrow>
               let h = h\<lparr>h_table := AList.update (d_text d) ns (h_table h)\<rparr>
               in (case r of Inl e \<Rightarrow> (Inl e, h) | Inr _ \<Rightarrow> (Inr (), update_notes ns h))))"

section \<open>The hook for the whole library\<close>

definition pre_scan_hook :: "python \<Rightarrow> decl \<Rightarrow> hook_state \<Rightarrow> (unit res \<times> hook_state) option" where
  "pre_scan_hook py d h =
     map_option (\<lambda>r. case r of
         Inl e \<Rightarrow> (Inl e, h)
       | Inr ns3_header \<Rightarrow>
           let h = manual_notes d (set_note ''pygen_comment'' (TextNote (ns3_header @ '': '' @ d_text d)) h);
               (stop, h) = (if d_kind d = ClassDecl then class_notes d h else (False, h))
           in if stop then (Inr (), h)
              else if d_kind d = FreeFunction \<and> d_name d = ''PeekPointer'' then (Inr (), set_note ''ignore'' NoneNote h)
              else if is_table_driven (d_kind d) then table_notes (py = Python3) d h
              else (Inr (), h))
       (get_ns3_relative_path (d_file d))"

section \<open>The hook for one module\<close>

lemma path_dirname_prefix: "prefix (path_dirname p) p"
proof -
  have "\<exists>ys. xs = ys @ dropWhile P xs" for P and xs :: string using takeWhile_dropWhile_id [of P xs] by metis
  then have "suffix (dropWhile P xs) xs" for P and xs :: string by (simp add: suffix_def)
  then have "suffix (rev (path_dirname p)) (rev p)"
    unfolding path_dirname_def Let_def by (auto intro: suffix_order.trans)
  then show ?thesis by (simp add: suffix_to_prefix)
qed

lemma path_dirname_shorter: "path_dirname p \<noteq> p \<Longrightarrow> length (path_dirname p) < length p"
  using path_dirname_prefix [of p] by (intro prefix_length_less strict_prefixI) auto

function modular_path_loop :: "string \<Rightarrow> string list \<Rightarrow> string res" where
  "modular_path_loop head l =
     (if head = [] then Inl AssertionError
      else if path_dirname head = head then Inl ValueError
      else if path_basename head = ''ns3'' then path_join_all l
      else modular_path_loop (path_dirname head) (path_basename head # l))"
  by pat_completeness auto
termination
  by (relation "measure (\<lambda>(head, l). length head)") (auto simp: path_dirname_shorter)

declare modular_path_loop.simps [simp del]

definition modular_relative_path :: "string \<Rightarrow> string option res" where
  "modular_relative_path path = (if path = [] then Inr None else map_sum id Some (modular_path_loop path []))"

text \<open>The modules of the template arguments that have a place in the library.\<close>

fun template_modules :: "(string \<times> string) list \<Rightarrow> string option list \<Rightarrow> string list res" where
  "template_modules headers [] = Inr []"
| "template_modules headers (None # fs) = template_modules headers fs"
| "template_modules headers (Some f # fs) =
     (case modular_relative_path f of
        Inl e \<Rightarrow> if e = ValueError then template_modules headers fs else Inl e
      | Inr None \<Rightarrow> Inl KeyError
      | Inr (Some h) \<Rightarrow> (case map_of headers h of
                           None \<Rightarrow> Inl KeyError
                         | Some m \<Rightarrow> res_bind (template_modules headers fs) (\<lambda>ms. Inr (m # ms))))"

definition dash_to_underscore :: "string \<Rightarrow> string" where
  "dash_to_underscore s = map (\<lambda>c. if c = CHR ''-'' then CHR ''_'' else c) s"

text \<open>Which module a definition belongs to: an instance of a template belongs to the module that is scanned if one of its
  arguments does.\<close>

definition definition_module :: "(string \<times> string) list \<Rightarrow> string \<Rightarrow> decl \<Rightarrow> string \<Rightarrow> string res" where
  "definition_module headers this d header_module =
     (if d_kind d = ClassDecl
      then case d_instance d of
             None \<Rightarrow> Inr header_module
           | Some fs \<Rightarrow> res_bind (template_modules headers fs) (\<lambda>ms. Inr (if this \<in> set ms then this else header_module))
      else Inr header_module)"

definition modular_notes :: "string \<Rightarrow> decl \<Rightarrow> string \<Rightarrow> hook_state \<Rightarrow> unit res \<times> hook_state" where
  "modular_notes this d owner h =
     (let h = (if d_kind d = ClassDecl \<and> owner \<noteq> this then set_note ''import_from_module'' (TextNote (''ns.'' @ dash_to_underscore owner)) h else h);
          (stop, h) = (if d_kind d = ClassDecl then class_notes d h else (False, h))
      in if stop then (Inr (), h)
         else let h = (if d_kind d = EnumerationDecl \<and> owner \<noteq> this then set_note ''import_from_module'' (TextNote (''ns.'' @ owner)) h else h)
         in if d_kind d = FreeFunction \<and> (owner \<noteq> this \<or> d_name d = ''PeekPointer'') then (Inr (), set_note ''ignore'' NoneNote h)
            else if is_table_driven (d_kind d) then table_notes False d h
            else (Inr (), h))"

text \<open>\<^verbatim>\<open>PreScanHook.__call__\<close>. The name of a module has no character that \<^verbatim>\<open>%r\<close> would escape.\<close>

definition PreScanHook :: "(string \<times> string) list \<Rightarrow> string \<Rightarrow> decl \<Rightarrow> hook_state \<Rightarrow> unit res \<times> hook_state" where
  "PreScanHook headers this d h =
     (case modular_relative_path (d_file d) of
        Inl e \<Rightarrow> (if e = ValueError then Inr () else Inl e, h)
      | Inr None \<Rightarrow> (Inr (), h)
      | Inr (Some ns3_header) \<Rightarrow>
          if ns3_header = [] then (Inr (), h)
          else (case map_of headers ns3_header of
                  None \<Rightarrow> (Inl KeyError, h)
                | Some header_module \<Rightarrow>
                    let h = manual_notes d (set_note ''pygen_comment''
                              (TextNote (ns3_header @ '' (module '' @ [CHR 0x27] @ header_module @ [CHR 0x27] @ ''): '' @ d_text d)) h)
                    in (case definition_module headers this d header_module of
                          Inl e \<Rightarrow> (Inl e, h)
                        | Inr owner \<Rightarrow> modular_notes this d owner h)))"

section \<open>Callback classes and the header to scan\<close>

text \<open>\<^verbatim>\<open>%r\<close> of a list of names that need no escapes.\<close>

definition repr_names :: "string list \<Rightarrow> string" where
  "repr_names ns = ''['' @ str_join '', '' (map (\<lambda>n. [CHR 0x27] @ n @ [CHR 0x27]) ns) @ '']''"

text \<open>The classes of the library with, for an instance of a template, its arguments; the result is what the file holds in the end.\<close>

fun callback_lines :: "(string \<times> string list option) list \<Rightarrow> string \<Rightarrow> unit res \<times> string" where
  "callback_lines [] out = (Inr (), out @ '']'' @ newline)"
| "callback_lines ((name, inst) # cs) out =
     (if \<not> starts_with name ''Callback<'' then callback_lines cs out
      else case inst of
             None \<Rightarrow> (Inl AssertionError, out)
           | Some ps \<Rightarrow> callback_lines cs (out @ ''    '' @ repr_names ps @ '','' @ newline))"

definition scan_callback_classes :: "(string \<times> string list option) list \<Rightarrow> unit res \<times> string" where
  "scan_callback_classes cs = callback_lines cs (''callback_classes = ['' @ newline)"

definition choose_scan_header :: "(string \<Rightarrow> bool) \<Rightarrow> string \<Rightarrow> string \<Rightarrow> string \<Rightarrow> string" where
  "choose_scan_header file_exists top_builddir module_name output_file_name =
     (let h1 = path_join (path_dirname output_file_name) ''scan-header.h'';
          h2 = (if file_exists h1 then h1 else path_join (path_join top_builddir ''ns3'') (module_name @ ''-module.h''))
      in if file_exists h2 then h2
         else path_join (path_join (path_join top_builddir ''include'') ''ns3'') (module_name @ ''-module.h''))"

section \<open>The two path functions\<close>

lemma relative_path_loop_stuck:
  assumes "relative_path_loop head l = Some r"
  shows "\<not> (head \<noteq> [] \<and> path_dirname head = head \<and> path_basename head \<noteq> ''ns3'')"
proof (rule relative_path_loop.raw_induct
    [where P = "\<lambda>head l r. \<not> (head \<noteq> [] \<and> path_dirname head = head \<and> path_basename head \<noteq> ''ns3'')", OF _ assms])
  fix loop :: "string \<Rightarrow> string list \<Rightarrow> string res option" and head l r
  assume 1: "\<And>h l r. loop h l = Some r \<Longrightarrow> \<not> (h \<noteq> [] \<and> path_dirname h = h \<and> path_basename h \<noteq> ''ns3'')"
    "(if head = [] then Some (Inl AssertionError)
      else if path_basename head = ''ns3'' then Some (path_join_all l)
      else loop (path_dirname head) (path_basename head # l)) = Some r"
  show "\<not> (head \<noteq> [] \<and> path_dirname head = head \<and> path_basename head \<noteq> ''ns3'')"
  proof
    assume h: "head \<noteq> [] \<and> path_dirname head = head \<and> path_basename head \<noteq> ''ns3''"
    then have "loop head (path_basename head # l) = Some r" using 1(2) by simp
    then show False using 1(1) h by blast
  qed
qed

lemma dirname_fix_basename: "path_dirname head = head \<Longrightarrow> path_basename head = []"
proof -
  assume eq: "path_dirname head = head"
  let ?h = "rev (dropWhile (\<lambda>c. c \<noteq> os_sep) (rev head))"
  have "length (path_dirname head) \<le> length ?h"
    unfolding path_dirname_def Let_def by (simp add: length_dropWhile_le)
  then have "length (dropWhile (\<lambda>c. c \<noteq> os_sep) (rev head)) = length (rev head)"
    using eq length_dropWhile_le [of "\<lambda>c. c \<noteq> os_sep" "rev head"] by simp
  then have "takeWhile (\<lambda>c. c \<noteq> os_sep) (rev head) = []"
    by (metis append_Nil append_same_eq length_append add_0 add_right_cancel length_0_conv takeWhile_dropWhile_id)
  then show ?thesis by (simp add: path_basename_def)
qed

lemma modular_loop_agrees:
  "modular_path_loop head l = (case relative_path_loop head l of None \<Rightarrow> Inl ValueError | Some r \<Rightarrow> r)"
proof (induction head l rule: modular_path_loop.induct)
  case (1 head l)
  show ?case
  proof (cases "head = [] \<or> path_dirname head \<noteq> head")
    case True
    then show ?thesis
      using 1 by (subst modular_path_loop.simps, subst relative_path_loop.simps) auto
  next
    case False
    then have "relative_path_loop head l = None"
      using relative_path_loop_stuck [of head l] dirname_fix_basename [of head] by (cases "relative_path_loop head l") auto
    then show ?thesis using False by (subst modular_path_loop.simps) simp
  qed
qed

text \<open>C16: The path function of the modular scanner returns on every path, and what it returns is what the other scanner's function
  returns, exceptions included, except where that one runs forever: there it raises \<^verbatim>\<open>ValueError\<close>, which means that the header
  is not one of the library; and an empty path gives nothing.\<close>

theorem modular_path_agrees:
  "modular_relative_path path =
     (if path = [] then Inr None
      else case get_ns3_relative_path path of None \<Rightarrow> Inl ValueError | Some (Inl e) \<Rightarrow> Inl e | Some (Inr h) \<Rightarrow> Inr (Some h))"
  by (auto simp: modular_relative_path_def get_ns3_relative_path_def modular_loop_agrees split: option.splits sum.splits)

section \<open>What depends on the definitions scanned before\<close>

definition without_params :: "scan_notes \<Rightarrow> scan_notes" where
  "without_params ns = filter (\<lambda>(k, _). k \<noteq> ''params'') ns"

definition table_ok :: "(string \<times> scan_notes) list \<Rightarrow> bool" where
  "table_ok T \<longleftrightarrow> (\<forall>(k, ns) \<in> set T.
     (starts_with k ''::'' \<longrightarrow> map_of ns ''params'' = None) \<and> (\<forall>v. (''params'', v) \<in> set ns \<longrightarrow> (\<exists>ps. v = ParamNotes ps)))"

lemma type_annotations_ok: "table_ok type_annotations"
  by (simp add: table_ok_def type_annotations_def starts_with_def)

text \<open>A table from which entries for parameters have been taken.\<close>

definition table_used :: "(string \<times> scan_notes) list \<Rightarrow> (string \<times> scan_notes) list \<Rightarrow> bool" where
  "table_used T T' \<longleftrightarrow> (\<forall>k. case map_of T k of
     None \<Rightarrow> map_of T' k = None | Some ns \<Rightarrow> map_of T' k = Some ns \<or> map_of T' k = Some (without_params ns))"

lemma table_usedD:
  assumes "table_used T T'"
  shows "map_of T k = None \<Longrightarrow> map_of T' k = None"
    and "map_of T k = Some ns \<Longrightarrow> map_of T' k = Some ns \<or> map_of T' k = Some (without_params ns)"
  using assms [unfolded table_used_def, rule_format, of k] by simp_all

lemma table_used_refl: "table_used T T"
  by (simp add: table_used_def split: option.splits)

lemma without_params_none: "map_of ns ''params'' = None \<Longrightarrow> without_params ns = ns"
  by (induction ns) (auto simp: without_params_def split: if_splits)

lemma without_params_lookup: "map_of (without_params ns) ''params'' = None"
  by (induction ns) (auto simp: without_params_def)

text \<open>Two states of a hook that differ only in how much of the table has been used.\<close>

definition alike :: "(string \<times> scan_notes) list \<Rightarrow> hook_state \<Rightarrow> hook_state \<Rightarrow> bool" where
  "alike T h h' \<longleftrightarrow> h_table h = T \<and> table_used T (h_table h')
     \<and> h_global h' = h_global h \<and> h_params h' = h_params h \<and> h_args h' = h_args h"

lemma set_note_simps [simp]:
  "h_table (set_note k v h) = h_table h" "h_params (set_note k v h) = h_params h" "h_args (set_note k v h) = h_args h"
  "h_global (set_note k v h) = AList.update k v (h_global h)"
  by (simp_all add: set_note_def)

lemma update_notes_simps [simp]:
  "h_table (update_notes ns h) = h_table h" "h_params (update_notes ns h) = h_params h" "h_args (update_notes ns h) = h_args h"
  by (induction ns arbitrary: h) (auto simp: update_notes_def)

lemma update_notes_global: "h_global h' = h_global h \<Longrightarrow> h_global (update_notes ns h') = h_global (update_notes ns h)"
proof (induction ns arbitrary: h h')
  case (Cons n ns)
  obtain k v where n: "n = (k, v)" by (cases n)
  have "h_global (set_note k v h') = h_global (set_note k v h)" using Cons.prems by simp
  from Cons.IH [OF this] show ?case by (simp add: n update_notes_def)
qed (simp add: update_notes_def)

lemma alike_set_note: "alike T h h' \<Longrightarrow> alike T (set_note k v h) (set_note k v h')"
  by (simp add: alike_def)

lemma alike_If: "alike T a a' \<Longrightarrow> alike T b b' \<Longrightarrow> alike T (if c then a else b) (if c then a' else b')"
  by simp

lemma alike_args: "alike T h h' \<Longrightarrow> alike T (h\<lparr>h_args := map f (h_args h)\<rparr>) (h'\<lparr>h_args := map f (h_args h')\<rparr>)"
  by (simp add: alike_def)

lemma alike_manual_notes: "alike T h h' \<Longrightarrow> alike T (manual_notes d h) (manual_notes d h')"
  unfolding manual_notes_def Let_def by (intro alike_If alike_args alike_set_note)

lemma alike_class_notes:
  assumes "alike T h h'" "table_ok T" "starts_with (d_decl_string d) ''::''"
  shows "fst (class_notes d h') = fst (class_notes d h) \<and> alike T (snd (class_notes d h)) (snd (class_notes d h'))"
proof -
  have "map_of (h_table h') (d_decl_string d) = map_of (h_table h) (d_decl_string d)"
  proof (cases "map_of T (d_decl_string d)")
    case None
    then show ?thesis using assms(1) table_usedD(1) by (auto simp: alike_def)
  next
    case (Some ns)
    then have "map_of ns ''params'' = None" using assms(2,3) map_of_SomeD [OF Some] by (fastforce simp: table_ok_def)
    then have "without_params ns = ns" by (rule without_params_none)
    then show ?thesis using assms(1) Some table_usedD(2) [of T "h_table h'", OF _ Some] by (auto simp: alike_def)
  qed
  then show ?thesis
    using assms(1) update_notes_global [of h' h] by (auto simp: class_notes_def alike_def split: option.splits)
qed

text \<open>What the outcomes have in common: everything but the notes on parameters, which are there or not.\<close>

definition same_but_params :: "(string \<times> scan_notes) list \<Rightarrow> unit res \<times> hook_state \<Rightarrow> unit res \<times> hook_state \<Rightarrow> bool" where
  "same_but_params T r r' \<longleftrightarrow> fst r' = fst r \<and> table_used T (h_table (snd r'))
     \<and> h_global (snd r') = h_global (snd r) \<and> h_args (snd r') = h_args (snd r)
     \<and> (h_params (snd r') = h_params (snd r) \<or> h_params (snd r') = [])"

lemma alike_same: "alike T h h' \<Longrightarrow> same_but_params T (r, h) (r, h')"
  by (simp add: alike_def same_but_params_def)

lemma table_used_update:
  assumes "table_used T T'" "map_of T k = Some ns"
  shows "table_used T (AList.update k (without_params ns) T')"
proof -
  have "case map_of T j of None \<Rightarrow> map_of (AList.update k (without_params ns) T') j = None
      | Some ms \<Rightarrow> map_of (AList.update k (without_params ns) T') j = Some ms
          \<or> map_of (AList.update k (without_params ns) T') j = Some (without_params ms)" for j
    using table_usedD [OF assms(1), of j] assms(2) by (cases "j = k") (auto split: option.splits)
  then show ?thesis unfolding table_used_def by blast
qed

text \<open>The notes on parameters that the loop over a copy collects.\<close>

definition collect_params :: "scan_notes \<Rightarrow> hook_state \<Rightarrow> hook_state" where
  "collect_params items h = fold (\<lambda>(k, v) h. case v of ParamNotes ps \<Rightarrow> if k = ''params'' then update_params ps h else h | _ \<Rightarrow> h) items h"

lemma collect_params_simps:
  "h_table (collect_params items h) = h_table h" "h_global (collect_params items h) = h_global h" "h_args (collect_params items h) = h_args h"
  by (induction items arbitrary: h) (auto simp: collect_params_def update_params_def split: scan_note.splits)

lemma collect_params_params: "h_params h' = h_params h \<Longrightarrow> h_params (collect_params items h') = h_params (collect_params items h)"
proof (induction items arbitrary: h h')
  case (Cons it items)
  obtain k v where it: "it = (k, v)" by (cases it)
  define g where "g h = (case v of ParamNotes ps \<Rightarrow> if k = ''params'' then update_params ps h else h | _ \<Rightarrow> h)" for h
  have "h_params (g h') = h_params (g h)" using Cons.prems by (simp add: g_def update_params_def split: scan_note.split)
  from Cons.IH [OF this] show ?case by (simp add: collect_params_def it g_def)
qed (simp add: collect_params_def)

lemma collect_params_none: "map_of items ''params'' = None \<Longrightarrow> collect_params items h = h"
  by (induction items) (auto simp: collect_params_def split: scan_note.splits if_splits)

lemma note_items_copy:
  assumes "\<forall>v. (''params'', v) \<in> set items \<longrightarrow> (\<exists>ps. v = ParamNotes ps)"
  shows "note_items None items ns h =
    (Inr (), if map_of items ''params'' = None then ns else without_params ns, collect_params items h)"
  using assms
proof (induction items arbitrary: ns h)
  case Nil
  show ?case by (simp add: note_items.simps collect_params_def)
next
  case (Cons it items)
  obtain k v where it: "it = (k, v)" by (cases it)
  have IH: "note_items None items ns h = (Inr (), if map_of items ''params'' = None then ns else without_params ns, collect_params items h)" for ns h
    using Cons by (meson list.set_intros(2))
  show ?case
  proof (cases "k = ''params''")
    case True
    then obtain ps where "v = ParamNotes ps" using Cons.prems it by auto
    then show ?thesis using True it
      by (subst note_items.simps) (auto simp: IH collect_params_def without_params_def [symmetric] without_params_none [OF without_params_lookup])
  next
    case False
    then show ?thesis using it by (subst note_items.simps) (simp add: IH collect_params_def split: scan_note.splits)
  qed
qed

lemma table_notes_copy:
  assumes "map_of (h_table h) (d_text d) = Some ns" "\<forall>v. (''params'', v) \<in> set ns \<longrightarrow> (\<exists>ps. v = ParamNotes ps)"
  shows "table_notes False d h =
    (Inr (), update_notes (without_params ns) ((collect_params ns h)\<lparr>h_table := AList.update (d_text d) (without_params ns) (h_table h)\<rparr>))"
  using assms without_params_none [of ns] note_items_copy [OF assms(2)] by (auto simp: table_notes_def collect_params_simps Let_def)

lemma table_notes_same:
  assumes "alike T h h'" "table_ok T" "h_params h = []"
  shows "same_but_params T (table_notes False d h) (table_notes False d h')"
proof (cases "map_of T (d_text d)")
  case None
  then have "map_of (h_table h') (d_text d) = None" using assms(1) table_usedD(1) by (auto simp: alike_def)
  then show ?thesis using None assms(1) by (simp add: table_notes_def alike_def same_but_params_def)
next
  case (Some ns)
  have used: "map_of (h_table h') (d_text d) = Some ns \<or> map_of (h_table h') (d_text d) = Some (without_params ns)"
    using assms(1) table_usedD(2) [OF _ Some] by (auto simp: alike_def)
  have h: "h_table h = T" "table_used T (h_table h')" "h_global h' = h_global h" "h_params h' = []" "h_args h' = h_args h"
    using assms(1,3) by (auto simp: alike_def)
  have ok: "\<forall>v. (''params'', v) \<in> set ns \<longrightarrow> (\<exists>ps. v = ParamNotes ps)"
    using assms(2) map_of_SomeD [OF Some] by (fastforce simp: table_ok_def)
  then have ok': "\<forall>v. (''params'', v) \<in> set (without_params ns) \<longrightarrow> (\<exists>ps. v = ParamNotes ps)" by (simp add: without_params_def)
  have twice: "without_params (without_params ns) = without_params ns" by (simp add: without_params_def)
  have run: "table_notes False d h = (Inr (), update_notes (without_params ns)
      ((collect_params ns h)\<lparr>h_table := AList.update (d_text d) (without_params ns) (h_table h)\<rparr>))"
    using table_notes_copy [OF _ ok] Some h(1) by simp
  have run': "table_notes False d h' = (Inr (), update_notes (without_params ns)
      ((collect_params ms h')\<lparr>h_table := AList.update (d_text d) (without_params ns) (h_table h')\<rparr>))"
    if "map_of (h_table h') (d_text d) = Some ms" "ms = ns \<or> ms = without_params ns" for ms
    using table_notes_copy [of h' d ms] that ok ok' twice by auto
  have table: "table_used T (AList.update (d_text d) (without_params ns) (h_table h'))" using table_used_update [OF h(2) Some] .
  from used show ?thesis
  proof
    assume "map_of (h_table h') (d_text d) = Some ns"
    then show ?thesis using run' [of ns] table h assms(3) collect_params_params [of h' h ns]
      by (auto simp: run same_but_params_def collect_params_simps intro!: update_notes_global)
  next
    assume "map_of (h_table h') (d_text d) = Some (without_params ns)"
    then show ?thesis using run' [of "without_params ns"] table h collect_params_none [OF without_params_lookup]
      by (auto simp: run same_but_params_def collect_params_simps intro!: update_notes_global)
  qed
qed

lemma modular_notes_same:
  assumes "alike T h h'" "table_ok T" "h_params h = []" "d_kind d = ClassDecl \<longrightarrow> starts_with (d_decl_string d) ''::''"
  shows "same_but_params T (modular_notes this d owner h) (modular_notes this d owner h')"
proof -
  define f where "f g = (if d_kind d = ClassDecl \<and> owner \<noteq> this
     then set_note ''import_from_module'' (TextNote (''ns.'' @ dash_to_underscore owner)) g else g)" for g
  define s where "s g = (if d_kind d = ClassDecl then class_notes d g else (False, g))" for g
  have f: "alike T (f h) (f h')" "h_params (f h) = []" using assms(1,3) alike_set_note by (simp_all add: f_def)
  have params: "h_params (snd (s (f h))) = []"
    using f(2) by (auto simp: s_def class_notes_def split: option.splits)
  have s: "fst (s (f h')) = fst (s (f h))" "alike T (snd (s (f h))) (snd (s (f h')))"
    using alike_class_notes [OF f(1) assms(2)] f(1) assms(4) by (auto simp: s_def)
  define t where "t g = (if d_kind d = EnumerationDecl \<and> owner \<noteq> this then set_note ''import_from_module'' (TextNote (''ns.'' @ owner)) g else g)" for g
  have t: "alike T (t (snd (s (f h)))) (t (snd (s (f h'))))" "h_params (t (snd (s (f h)))) = []"
    using s(2) params alike_set_note by (simp_all add: t_def)
  have eq: "modular_notes this d owner g =
      (if fst (s (f g)) then (Inr (), snd (s (f g)))
       else if d_kind d = FreeFunction \<and> (owner \<noteq> this \<or> d_name d = ''PeekPointer'') then (Inr (), set_note ''ignore'' NoneNote (t (snd (s (f g)))))
       else if is_table_driven (d_kind d) then table_notes False d (t (snd (s (f g)))) else (Inr (), t (snd (s (f g)))))" for g
    by (simp add: modular_notes_def f_def [symmetric] s_def [symmetric] t_def [symmetric] Let_def split_beta)
  show ?thesis
    using s t table_notes_same [OF t(1) assms(2) t(2)] by (auto simp: eq intro: alike_same alike_set_note)
qed

lemma PreScanHook_same:
  assumes "alike T h h'" "table_ok T" "h_params h = []" "d_kind d = ClassDecl \<longrightarrow> starts_with (d_decl_string d) ''::''"
  shows "same_but_params T (PreScanHook headers this d h) (PreScanHook headers this d h')"
proof -
  have params: "h_params (manual_notes d (set_note k v h)) = []" for k v
    using assms(3) by (simp add: manual_notes_def Let_def)
  have "alike T (manual_notes d (set_note k v h)) (manual_notes d (set_note k v h'))" for k v
    using assms(1) by (intro alike_manual_notes alike_set_note)
  then show ?thesis
    using modular_notes_same [OF _ assms(2) params assms(4)] alike_same [OF assms(1)] alike_same
    by (auto simp: PreScanHook_def Let_def split: sum.splits option.splits)
qed

text \<open>Every definition comes with fresh dictionaries for its annotations; the table is what is left of it.\<close>

definition scan_one :: "(string \<times> string) list \<Rightarrow> string \<Rightarrow> decl \<times> string option list \<Rightarrow> (string \<times> scan_notes) list \<Rightarrow> unit res \<times> hook_state" where
  "scan_one headers this da T = PreScanHook headers this (fst da) \<lparr>h_table = T, h_global = [], h_params = [], h_args = snd da\<rparr>"

definition scan_all :: "(string \<times> string) list \<Rightarrow> string \<Rightarrow> (decl \<times> string option list) list \<Rightarrow> (string \<times> scan_notes) list" where
  "scan_all headers this das = fold (\<lambda>da T. h_table (snd (scan_one headers this da T))) das type_annotations"

lemma scan_one_same:
  assumes "table_used type_annotations T" "d_kind (fst da) = ClassDecl \<longrightarrow> starts_with (d_decl_string (fst da)) ''::''"
  shows "same_but_params type_annotations (scan_one headers this da type_annotations) (scan_one headers this da T)"
  unfolding scan_one_def
  by (rule PreScanHook_same) (use assms in \<open>simp_all add: alike_def type_annotations_ok\<close>)

text \<open>C3: Scanning is independent of order but for one thing. Whatever definitions have been scanned before, a definition gets the same
  annotations, the same repaired default values and raises or not as if it were scanned first; only the notes on its parameters may be
  missing, because the entry for them is deleted from the shared table when it is first used.\<close>

theorem scan_order_independent:
  assumes "\<forall>(d, args) \<in> set (da # das). d_kind d = ClassDecl \<longrightarrow> starts_with (d_decl_string d) ''::''"
  shows "same_but_params type_annotations (scan_one headers this da type_annotations)
           (scan_one headers this da (scan_all headers this das))"
proof -
  have "table_used type_annotations (fold (\<lambda>da T. h_table (snd (scan_one headers this da T))) xs T)"
    if "table_used type_annotations T" "\<forall>(d, args) \<in> set xs. d_kind d = ClassDecl \<longrightarrow> starts_with (d_decl_string d) ''::''" for xs T
    using that
  proof (induction xs arbitrary: T)
    case (Cons x xs)
    have "table_used type_annotations (h_table (snd (scan_one headers this x T)))"
      using scan_one_same [OF Cons.prems(1), of x] Cons.prems(2) by (auto simp: same_but_params_def)
    then show ?case using Cons by simp
  qed simp
  then have "table_used type_annotations (scan_all headers this das)"
    unfolding scan_all_def using table_used_refl assms by simp
  then show ?thesis using scan_one_same [of _ da] assms by auto
qed

definition get_seed :: decl where
  "get_seed = \<lparr>d_kind = MemberFunction ''RandomVariable'', d_name = ''GetSeed'', d_decl_string = '''',
     d_text = ''void ns3::RandomVariable::GetSeed(uint32_t * seed) const [member function]'', d_file = ''build/ns3/random-variable.h'',
     d_template_args = [], d_instance = None\<rparr>"

definition core_headers :: "(string \<times> string) list" where
  "core_headers = [(''random-variable.h'', ''core'')]"

theorem scan_order_independent_witness:
  "fst (scan_one core_headers ''core'' (get_seed, []) (scan_all core_headers ''core'' [(get_seed, [])]))
   = fst (scan_one core_headers ''core'' (get_seed, []) type_annotations)"
proof -
  have "\<forall>(d, args) \<in> set ((get_seed, []) # [(get_seed, [])]). d_kind d = ClassDecl \<longrightarrow> starts_with (d_decl_string d) ''::''"
    by (simp add: get_seed_def)
  from scan_order_independent [OF this, of core_headers "''core''"] show ?thesis by (simp add: same_but_params_def)
qed

text \<open>The exception is real: the second time, the direction of the argument is lost.\<close>

lemma get_seed_path: "modular_relative_path (d_file get_seed) = Inr (Some ''random-variable.h'')"
  by (simp add: modular_relative_path_def get_seed_def modular_path_loop.simps path_dirname_def path_basename_def os_sep_def path_join_all_def)

lemma scan_get_seed:
  "scan_one core_headers ''core'' (get_seed, []) T =
     table_notes False get_seed (manual_notes get_seed (set_note ''pygen_comment''
       (TextNote (''random-variable.h'' @ '' (module '' @ [CHR 0x27] @ ''core'' @ [CHR 0x27] @ ''): '' @ d_text get_seed))
       \<lparr>h_table = T, h_global = [], h_params = [], h_args = []\<rparr>))"
  by (simp add: scan_one_def PreScanHook_def get_seed_path core_headers_def definition_module_def modular_notes_def Let_def)
    (simp add: get_seed_def)

theorem parameter_notes_used_up:
  "h_params (snd (scan_one core_headers ''core'' (get_seed, []) type_annotations)) = [(''seed'', [(''direction'', ''out''), (''array_length'', ''6'')])]
   \<and> h_params (snd (scan_one core_headers ''core'' (get_seed, []) (scan_all core_headers ''core'' [(get_seed, [])]))) = []"
proof -
  have entry: "map_of type_annotations (d_text get_seed) = Some [(''params'', ParamNotes [(''seed'', [(''direction'', ''out''), (''array_length'', ''6'')])])]"
    by (simp add: type_annotations_def get_seed_def)
  have table: "h_table (manual_notes get_seed g) = h_table g" "h_params (manual_notes get_seed g) = h_params g" for g
    by (simp_all add: manual_notes_def Let_def)
  have entry_ok: "\<forall>v. (''params'', v) \<in> set [(''params'', ParamNotes [(''seed'', [(''direction'', ''out''), (''array_length'', ''6'')])])] \<longrightarrow> (\<exists>ps. v = ParamNotes ps)"
    by simp
  have "map_of (scan_all core_headers ''core'' [(get_seed, [])]) (d_text get_seed) = Some []"
    using table_notes_copy [OF _ entry_ok, of _ get_seed]
    by (simp add: scan_all_def scan_get_seed table entry collect_params_simps without_params_def)
  then show ?thesis
    using table_notes_copy [OF _ entry_ok, of _ get_seed] table_notes_copy [of _ get_seed "[]"]
    by (simp add: scan_get_seed table entry collect_params_def update_params_def)
qed

section \<open>Where the hook for the whole library raises\<close>

lemma note_items_checked:
  assumes "\<forall>v. (''params'', v) \<in> set items \<longrightarrow> (\<exists>ps. v = ParamNotes ps)" "set items \<subseteq> set ns"
  shows "case map_of items ''params'' of
      None \<Rightarrow> note_items (Some (length ns)) items ns h = (Inr (), ns, h)
    | Some v \<Rightarrow> \<exists>ps. v = ParamNotes ps \<and> note_items (Some (length ns)) items ns h = (Inl RuntimeError, without_params ns, update_params ps h)"
  using assms
proof (induction items)
  case Nil
  show ?case by (simp add: note_items.simps)
next
  case (Cons it items)
  obtain k v where it: "it = (k, v)" by (cases it)
  show ?case
  proof (cases "k = ''params''")
    case True
    then obtain ps where ps: "v = ParamNotes ps" using Cons.prems(1) it by auto
    have "length (without_params ns) < length ns"
      unfolding without_params_def using Cons.prems(2) True it by (intro length_filter_less [of "(k, v)"]) auto
    then have "note_items (Some (length ns)) items (without_params ns) g = (Inl RuntimeError, without_params ns, g)" for g
      by (subst note_items.simps) simp
    then show ?thesis using True it ps by (subst note_items.simps) (simp add: without_params_def)
  next
    case False
    have "note_items (Some (length ns)) (it # items) ns h = note_items (Some (length ns)) items ns h"
      using False it by (subst note_items.simps) simp
    then show ?thesis using Cons False unfolding it by (cases "map_of items ''params''") auto
  qed
qed

text \<open>C17: Let the file of a definition lie in the library, and let the table hold dictionaries as notes on parameters, as the table of the
  repository does. Under Python 3 the hook for the whole library raises \<^verbatim>\<open>RuntimeError\<close> exactly for the functions, methods and constructors
  other than \<^verbatim>\<open>PeekPointer\<close> that have notes on their parameters in the table, and raises nothing else: it deletes from the
  dictionary over which it iterates. The notes on the parameters have been recorded by then, and the entry is gone, so that
  scanning the same definition once more succeeds. Under Python 2 it raises nothing.\<close>

theorem pre_scan_hook_raises_once:
  assumes "get_ns3_relative_path (d_file d) = Some (Inr ns3_header)" "table_ok (h_table h)"
  shows "\<exists>r h'. pre_scan_hook Python3 d h = Some (r, h')
    \<and> (if is_table_driven (d_kind d) \<and> \<not> (d_kind d = FreeFunction \<and> d_name d = ''PeekPointer'')
          \<and> (\<exists>ns ps. map_of (h_table h) (d_text d) = Some ns \<and> map_of ns ''params'' = Some ps)
       then r = Inl RuntimeError
         \<and> (\<exists>ns ps. map_of (h_table h) (d_text d) = Some ns \<and> map_of ns ''params'' = Some (ParamNotes ps)
              \<and> h_params h' = h_params (update_params ps h) \<and> map_of (h_table h') (d_text d) = Some (without_params ns))
         \<and> (\<exists>h''. pre_scan_hook Python3 d h' = Some (Inr (), h''))
       else r = Inr ())
    \<and> (\<exists>h'. pre_scan_hook Python2 d h = Some (Inr (), h'))"
proof -
  have table: "h_table (manual_notes d g) = h_table g" "h_params (manual_notes d g) = h_params g" for g by (simp_all add: manual_notes_def Let_def)
  let ?h = "manual_notes d (set_note ''pygen_comment'' (TextNote (ns3_header @ '': '' @ d_text d)) h)"
  have two: "\<exists>h'. pre_scan_hook Python2 d h = Some (Inr (), h')"
  proof -
    have "\<exists>h'. table_notes False d g = (Inr (), h')" if g: "h_table g = h_table h" for g
    proof (cases "map_of (h_table h) (d_text d)")
      case None
      then show ?thesis using g by (simp add: table_notes_def)
    next
      case (Some ns)
      then have "\<forall>v. (''params'', v) \<in> set ns \<longrightarrow> (\<exists>ps. v = ParamNotes ps)"
        using assms(2) map_of_SomeD [OF Some] by (fastforce simp: table_ok_def)
      then show ?thesis using table_notes_copy [of g d ns] Some g by auto
    qed
    then have "\<exists>h'. table_notes False d ?h = (Inr (), h')" by (simp add: table)
    moreover have "d_kind d = ClassDecl \<Longrightarrow> \<not> is_table_driven (d_kind d)" by simp
    ultimately show ?thesis using assms(1) by (auto simp: pre_scan_hook_def Let_def split: prod.splits if_splits)
  qed
  show ?thesis
  proof (cases "is_table_driven (d_kind d) \<and> \<not> (d_kind d = FreeFunction \<and> d_name d = ''PeekPointer'')")
    case False
    then show ?thesis using assms(1) two by (auto simp: pre_scan_hook_def Let_def split: prod.splits)
  next
    case driven: True
    then have hook: "pre_scan_hook Python3 d g = Some (table_notes True d (manual_notes d (set_note ''pygen_comment'' (TextNote (ns3_header @ '': '' @ d_text d)) g)))" for g
      using assms(1) by (auto simp: pre_scan_hook_def Let_def)
    have plain: "\<exists>h''. table_notes True d g = (Inr (), h'')"
      if "map_of (h_table g) (d_text d) = Some ms" "map_of ms ''params'' = None" for g ms
      using note_items_checked [of ms ms g] that map_of_eq_None_iff [of ms "''params''"]
      by (force simp: table_notes_def Let_def)
    show ?thesis
    proof (cases "map_of (h_table h) (d_text d)")
      case None
      then show ?thesis using hook table two by (simp add: table_notes_def)
    next
      case (Some ns)
      have ok: "\<forall>v. (''params'', v) \<in> set ns \<longrightarrow> (\<exists>ps. v = ParamNotes ps)"
        using assms(2) map_of_SomeD [OF Some] by (fastforce simp: table_ok_def)
      show ?thesis
      proof (cases "map_of ns ''params''")
        case None
        then show ?thesis using plain [of ?h ns] hook [of h] Some table two by auto
      next
        case (Some v)
        then obtain ps where ps: "v = ParamNotes ps"
          "note_items (Some (length ns)) ns ns ?h = (Inl RuntimeError, without_params ns, update_params ps ?h)"
          using note_items_checked [OF ok subset_refl, of ?h] by auto
        let ?h' = "(update_params ps ?h)\<lparr>h_table := AList.update (d_text d) (without_params ns) (h_table (update_params ps ?h))\<rparr>"
        have run: "pre_scan_hook Python3 d h = Some (Inl RuntimeError, ?h')"
          using ps(2) \<open>map_of (h_table h) (d_text d) = Some ns\<close> by (simp add: hook table_notes_def table Let_def)
        have "\<exists>h''. pre_scan_hook Python3 d ?h' = Some (Inr (), h'')"
          unfolding hook using plain [OF _ without_params_lookup [of ns]] by (simp add: table)
        moreover have "h_params ?h' = h_params (update_params ps h)" by (simp add: update_params_def table)
        ultimately show ?thesis
          using run driven two Some ps(1) \<open>map_of (h_table h) (d_text d) = Some ns\<close> by (intro exI [of _ "Inl RuntimeError"] exI [of _ ?h']) simp
      qed
    qed
  qed
qed

theorem pre_scan_hook_raises_once_witness:
  "\<exists>h'. pre_scan_hook Python3 get_seed \<lparr>h_table = type_annotations, h_global = [], h_params = [], h_args = []\<rparr> = Some (Inl RuntimeError, h')
    \<and> (\<exists>h''. pre_scan_hook Python3 get_seed h' = Some (Inr (), h''))"
proof -
  let ?h = "\<lparr>h_table = type_annotations, h_global = [], h_params = [], h_args = []\<rparr>"
  have "get_ns3_relative_path (d_file get_seed) = Some (Inr ''random-variable.h'')"
    using modular_loop_agrees [of "d_file get_seed" "[]"] get_seed_path
    by (simp add: modular_relative_path_def get_ns3_relative_path_def get_seed_def split: option.splits)
      (auto simp: map_sum_def split: sum.splits)
  note hook = pre_scan_hook_raises_once [OF this, of ?h]
  have "is_table_driven (d_kind get_seed) \<and> \<not> (d_kind get_seed = FreeFunction \<and> d_name get_seed = ''PeekPointer'')
      \<and> (\<exists>ns ps. map_of (h_table ?h) (d_text get_seed) = Some ns \<and> map_of ns ''params'' = Some ps)"
    by (simp add: get_seed_def type_annotations_def)
  then show ?thesis using hook by (simp only: if_True hook_state.select_convs type_annotations_ok simp_thms) blast
qed

section \<open>The list of callback classes\<close>

lemma callback_lines_result:
  assumes "\<forall>(name, inst) \<in> set cs. starts_with name ''Callback<'' \<longrightarrow> inst \<noteq> None"
  shows "callback_lines cs out = (Inr (), out
     @ concat (map (\<lambda>(name, inst). if starts_with name ''Callback<'' then ''    '' @ repr_names (the inst) @ '','' @ newline else []) cs)
     @ '']'' @ newline)"
  using assms by (induction cs out rule: callback_lines.induct) auto

text \<open>When every class whose name begins with \<^verbatim>\<open>Callback<\<close> is an instance of a template, the file lists their arguments in order.\<close>

theorem callback_file:
  assumes "\<forall>(name, inst) \<in> set cs. starts_with name ''Callback<'' \<longrightarrow> inst \<noteq> None"
  shows "scan_callback_classes cs = (Inr (), ''callback_classes = ['' @ newline
     @ concat (map (\<lambda>(name, inst). if starts_with name ''Callback<'' then ''    '' @ repr_names (the inst) @ '','' @ newline else []) cs)
     @ '']'' @ newline)"
  by (simp add: scan_callback_classes_def callback_lines_result [OF assms])

end
