(* ===== verification/Flow_Results.thy ===== *)
theory Flow_Results
  imports Py_Numbers
begin

text \<open>
  The reader of flow monitor results, \<^verbatim>\<open>src/flow-monitor/examples/flowmon-parse-results.py\<close>. An XML document is a tree of elements; the
  parser delivers its events (\<^verbatim>\<open>ElementTree.iterparse\<close>). Flows are objects that a list and a dictionary share, so the dictionary holds
  their places in the list. Numbers are exact; times in the document are in nanoseconds.
\<close>

section \<open>Elements\<close>

datatype xml = Element (x_tag: string) (x_attrs: "(string \<times> string) list") (x_children: "xml list")

definition el_get :: "xml \<Rightarrow> string \<Rightarrow> string option" where
  "el_get el k = map_of (x_attrs el) k"

fun findall :: "string list \<Rightarrow> xml \<Rightarrow> xml list" where
  "findall [] el = [el]"
| "findall (t # ts) el = concat (map (findall ts) (filter (\<lambda>c. x_tag c = t) (x_children el)))"

definition find_child :: "string \<Rightarrow> xml \<Rightarrow> xml option" where
  "find_child t el = List.find (\<lambda>c. x_tag c = t) (x_children el)"

text \<open>\<^verbatim>\<open>int(el.get(k))\<close> and \<^verbatim>\<open>float(el.get(k))\<close>: a missing attribute is \<^verbatim>\<open>None\<close>, which they refuse.\<close>

definition int_attr :: "xml \<Rightarrow> string \<Rightarrow> int res" where
  "int_attr el k = (case el_get el k of None \<Rightarrow> Inl TypeError | Some s \<Rightarrow> py_int s)"

definition float_attr :: "xml \<Rightarrow> string \<Rightarrow> rat res" where
  "float_attr el k = (case el_get el k of None \<Rightarrow> Inl TypeError | Some s \<Rightarrow> py_float s)"

definition parse_time_ns :: "string option \<Rightarrow> rat res" where
  "parse_time_ns tm =
     (case tm of
        None \<Rightarrow> Inl AttributeError
      | Some s \<Rightarrow> if ends_with s ''ns'' then py_float (py_slice s 0 (- 2)) else Inl ValueError)"

section \<open>Flows\<close>

record five_tuple =
  sourceAddress :: "string option"
  destinationAddress :: "string option"
  sourcePort :: int
  destinationPort :: int
  protocol :: int

definition read_five_tuple :: "xml \<Rightarrow> five_tuple res" where
  "read_five_tuple el =
     res_bind (int_attr el ''sourcePort'') (\<lambda>sp. res_bind (int_attr el ''destinationPort'') (\<lambda>dp. res_bind (int_attr el ''protocol'') (\<lambda>pr.
       Inr \<lparr>sourceAddress = el_get el ''sourceAddress'', destinationAddress = el_get el ''destinationAddress'',
            sourcePort = sp, destinationPort = dp, protocol = pr\<rparr>)))"

fun read_bins :: "xml list \<Rightarrow> (rat \<times> rat \<times> int) list res" where
  "read_bins [] = Inr []"
| "read_bins (b # bs) =
     res_bind (float_attr b ''start'') (\<lambda>st. res_bind (float_attr b ''width'') (\<lambda>wd. res_bind (int_attr b ''count'') (\<lambda>ct.
       res_bind (read_bins bs) (\<lambda>rest. Inr ((st, wd, ct) # rest)))))"

record probe_flow_stats =
  probeId :: int
  ps_packets :: int
  ps_bytes :: rat
  delayFromFirstProbe :: rat

record flow =
  flowId :: int
  delayMean :: "rat option"
  packetLossRatio :: "rat option"
  rxBitrate :: "rat option"
  txBitrate :: "rat option"
  fiveTuple :: "five_tuple option"
  packetSizeMean :: "rat option"
  probe_stats_unsorted :: "probe_flow_stats list"
  hopCount :: rat
  flowInterruptionsHistogram :: "(rat \<times> rat \<times> int) list option"
  rx_duration :: rat

definition duration :: "xml \<Rightarrow> string \<Rightarrow> string \<Rightarrow> rat res" where
  "duration el last_key first_key =
     res_bind (parse_time_ns (el_get el last_key)) (\<lambda>b. res_bind (parse_time_ns (el_get el first_key)) (\<lambda>a. Inr ((b - a) / 10 ^ 9)))"

text \<open>The delay of all packets: the attribute without its last two characters.\<close>

definition delay_sum :: "xml \<Rightarrow> rat res" where
  "delay_sum el = (case el_get el ''delaySum'' of None \<Rightarrow> Inl TypeError | Some s \<Rightarrow> py_float (py_slice s 0 (- 2)))"

definition bitrate :: "xml \<Rightarrow> string \<Rightarrow> rat \<Rightarrow> rat option res" where
  "bitrate el key d = (if 0 < d then res_bind (float_attr el key) (\<lambda>b. Inr (Some (b * 8 / d))) else Inr None)"

definition read_flow :: "xml \<Rightarrow> flow res" where
  "read_flow el =
     res_bind (int_attr el ''flowId'') (\<lambda>fid. res_bind (float_attr el ''rxPackets'') (\<lambda>rx. res_bind (float_attr el ''txPackets'') (\<lambda>_.
     res_bind (duration el ''timeLastTxPacket'' ''timeFirstTxPacket'') (\<lambda>txd.
     res_bind (duration el ''timeLastRxPacket'' ''timeFirstRxPacket'') (\<lambda>rxd.
     res_bind (if rx \<noteq> 0 then res_bind (float_attr el ''timesForwarded'') (\<lambda>f. Inr (f / rx + 1)) else Inr (- 1000)) (\<lambda>hops.
     res_bind (if rx \<noteq> 0 then res_bind (delay_sum el) (\<lambda>d. res_bind (float_attr el ''rxBytes'') (\<lambda>b. Inr (Some (d / rx / 10 ^ 9), Some (b / rx))))
               else Inr (None, None)) (\<lambda>(delay, psize).
     res_bind (bitrate el ''rxBytes'' rxd) (\<lambda>rxb. res_bind (bitrate el ''txBytes'' txd) (\<lambda>txb.
     res_bind (float_attr el ''lostPackets'') (\<lambda>lost.
     res_bind (if rx = 0 then Inr None else res_bind (py_div lost (rx + lost)) (\<lambda>q. Inr (Some q))) (\<lambda>loss.
     res_bind (case find_child ''flowInterruptionsHistogram'' el of
                 None \<Rightarrow> Inr None | Some h \<Rightarrow> res_bind (read_bins (findall [''bin''] h)) (\<lambda>bs. Inr (Some bs))) (\<lambda>hist.
       Inr \<lparr>flowId = fid, delayMean = delay, packetLossRatio = loss, rxBitrate = rxb, txBitrate = txb, fiveTuple = None,
            packetSizeMean = psize, probe_stats_unsorted = [], hopCount = hops, flowInterruptionsHistogram = hist,
            rx_duration = rxd\<rparr>))))))))))))"

section \<open>A simulation\<close>

record flow_table =
  flows :: "flow list"
  flow_map :: "(int \<times> nat) list"

definition add_flow :: "xml \<Rightarrow> flow_table \<Rightarrow> flow_table res" where
  "add_flow el t = res_bind (read_flow el) (\<lambda>f.
     Inr \<lparr>flows = flows t @ [f], flow_map = AList.update (flowId f) (length (flows t)) (flow_map t)\<rparr>)"

text \<open>\<^verbatim>\<open>flow_map[flowId]\<close>, changed in place.\<close>

definition change_flow :: "int \<Rightarrow> (flow \<Rightarrow> flow) \<Rightarrow> flow_table \<Rightarrow> flow_table res" where
  "change_flow fid g t =
     (case map_of (flow_map t) fid of
        None \<Rightarrow> Inl KeyError
      | Some i \<Rightarrow> Inr (t\<lparr>flows := (flows t)[i := g (flows t ! i)]\<rparr>))"

definition add_five_tuple :: "xml \<Rightarrow> flow_table \<Rightarrow> flow_table res" where
  "add_five_tuple el t =
     res_bind (int_attr el ''flowId'') (\<lambda>fid. res_bind (read_five_tuple el) (\<lambda>ft. change_flow fid (\<lambda>f. f\<lparr>fiveTuple := Some ft\<rparr>) t))"

definition read_probe_stats :: "int \<Rightarrow> xml \<Rightarrow> (int \<times> probe_flow_stats) res" where
  "read_probe_stats pid el =
     res_bind (int_attr el ''flowId'') (\<lambda>fid. res_bind (int_attr el ''packets'') (\<lambda>n. res_bind (float_attr el ''bytes'') (\<lambda>b.
     res_bind (if 0 < n then res_bind (parse_time_ns (el_get el ''delayFromFirstProbeSum'')) (\<lambda>d. Inr (d / of_int n)) else Inr 0) (\<lambda>d.
       Inr (fid, \<lparr>probeId = pid, ps_packets = n, ps_bytes = b, delayFromFirstProbe = d\<rparr>)))))"

definition add_probe_stats :: "int \<Rightarrow> xml \<Rightarrow> flow_table \<Rightarrow> flow_table res" where
  "add_probe_stats pid el t =
     res_bind (read_probe_stats pid el) (\<lambda>(fid, s). change_flow fid (\<lambda>f. f\<lparr>probe_stats_unsorted := probe_stats_unsorted f @ [s]\<rparr>) t)"

definition add_probe :: "xml \<Rightarrow> flow_table \<Rightarrow> flow_table res" where
  "add_probe el t = res_bind (int_attr el ''index'') (\<lambda>pid. res_fold (add_probe_stats pid) (findall [''FlowStats''] el) t)"

definition read_simulation :: "xml \<Rightarrow> flow list res" where
  "read_simulation el =
     (case findall [''Ipv4FlowClassifier''] el of
        [classifier] \<Rightarrow>
          res_bind (res_fold add_flow (findall [''FlowStats'', ''Flow''] el) \<lparr>flows = [], flow_map = []\<rparr>) (\<lambda>t.
          res_bind (res_fold add_five_tuple (findall [''Flow''] classifier) t) (\<lambda>t.
          res_bind (res_fold add_probe (findall [''FlowProbes'', ''FlowProbe''] el) t) (\<lambda>t. Inr (flows t))))
      | _ \<Rightarrow> Inl ValueError)"

section \<open>The main program\<close>

text \<open>The events of the parser: the start of an element, and its end, when it is complete.\<close>

datatype xml_event = StartEvent | EndEvent xml

fun xml_events :: "xml \<Rightarrow> xml_event list" where
  "xml_events (Element t as cs) = StartEvent # concat (map xml_events cs) @ [EndEvent (Element t as cs)]"

fun read_events :: "xml_event list \<Rightarrow> int \<Rightarrow> flow list list \<Rightarrow> flow list list res" where
  "read_events [] level sims = Inr sims"
| "read_events (StartEvent # es) level sims = read_events es (level + 1) sims"
| "read_events (EndEvent el # es) level sims =
     (if level - 1 = 0 \<and> x_tag el = ''FlowMonitor''
      then res_bind (read_simulation el) (\<lambda>s. read_events es (level - 1) (sims @ [s]))
      else read_events es (level - 1) sims)"

definition str_or_none :: "string option \<Rightarrow> string" where
  "str_or_none s = (case s of None \<Rightarrow> ''None'' | Some t \<Rightarrow> t)"

definition optional_line :: "string \<Rightarrow> rat \<Rightarrow> string \<Rightarrow> rat option \<Rightarrow> string" where
  "optional_line title factor unit v =
     [CHR 0x09] @ title @ '': '' @ (case v of None \<Rightarrow> ''None'' | Some x \<Rightarrow> fmt_fixed 2 (x * factor) @ '' '' @ unit) @ newline"

definition protocol_name :: "int \<Rightarrow> string res" where
  "protocol_name p = (if p = 6 then Inr ''TCP'' else if p = 17 then Inr ''UDP'' else Inl KeyError)"

definition flow_text :: "flow \<Rightarrow> string res" where
  "flow_text f =
     (case fiveTuple f of
        None \<Rightarrow> Inl AttributeError
      | Some t \<Rightarrow> res_bind (protocol_name (protocol t)) (\<lambda>proto.
          Inr (''FlowID: '' @ int_str (flowId f) @ '' ('' @ proto @ '' '' @ str_or_none (sourceAddress t) @ ''/'' @ int_str (sourcePort t)
               @ '' --> '' @ str_or_none (destinationAddress t) @ ''/'' @ int_str (destinationPort t) @ '')'' @ newline
               @ optional_line ''TX bitrate'' (1 / 1000) ''kbit/s'' (txBitrate f)
               @ optional_line ''RX bitrate'' (1 / 1000) ''kbit/s'' (rxBitrate f)
               @ optional_line ''Mean Delay'' 1000 ''ms'' (delayMean f)
               @ optional_line ''Packet Loss Ratio'' 100 ''%'' (packetLossRatio f))))"

fun print_flows :: "flow list \<Rightarrow> string \<Rightarrow> unit res \<times> string" where
  "print_flows [] out = (Inr (), out)"
| "print_flows (f # fs) out = (case flow_text f of Inl e \<Rightarrow> (Inl e, out) | Inr t \<Rightarrow> print_flows fs (out @ t))"

definition main_flows :: "xml \<Rightarrow> unit res \<times> string" where
  "main_flows doc =
     (case read_events (xml_events doc) 0 [] of
        Inl e \<Rightarrow> (Inl e, ''Reading XML file  '')
      | Inr sims \<Rightarrow> print_flows (concat sims) (''Reading XML file  '' @ replicate (length sims) (CHR ''.'') @ '' done.'' @ newline))"

section \<open>Which element is read\<close>

lemma read_inner_events:
  "1 \<le> level \<Longrightarrow> read_events (xml_events el @ es) level sims = read_events es level sims"
proof (induction el arbitrary: es level sims)
  case (Element t as cs)
  have "read_events (concat (map xml_events ds) @ es') level' sims = read_events es' level' sims"
    if "set ds \<subseteq> set cs" "1 \<le> level'" for ds es' level'
    using that Element.IH by (induction ds) auto
  from this [of cs "level + 1"] show ?case using Element.prems by simp
qed

text \<open>C21: Whatever is nested inside it, the document gives one simulation when its root is a \<^verbatim>\<open>FlowMonitor\<close> element, namely the one read from
  the root, and none otherwise; an exception from reading the root is the only one.\<close>

theorem only_root_is_read:
  "read_events (xml_events doc) 0 [] =
     (if x_tag doc = ''FlowMonitor'' then res_bind (read_simulation doc) (\<lambda>s. Inr [s]) else Inr [])"
proof (cases doc)
  case (Element t as cs)
  have "read_events (concat (map xml_events ds) @ es) 1 [] = read_events es 1 []" for ds es
    by (induction ds) (auto simp: read_inner_events)
  from this [of cs "[EndEvent doc]"] show ?thesis using Element by simp
qed

section \<open>Values of a flow\<close>

text \<open>When the counters of a flow are not negative, the values computed from them make sense: the loss ratio is at least zero
  and below one, bit rates are not negative, and a flow that received packets has at least one hop.\<close>

theorem flow_values:
  assumes "read_flow el = Inr f" "\<forall>k x. float_attr el k = Inr x \<longrightarrow> 0 \<le> x"
  shows "(\<forall>q. packetLossRatio f = Some q \<longrightarrow> 0 \<le> q \<and> q < 1) \<and> (\<forall>b. rxBitrate f = Some b \<or> txBitrate f = Some b \<longrightarrow> 0 \<le> b)
    \<and> (packetLossRatio f = None \<longleftrightarrow> float_attr el ''rxPackets'' = Inr 0) \<and> (packetLossRatio f \<noteq> None \<longrightarrow> 1 \<le> hopCount f)"
proof -
  have rate: "0 \<le> b" if "bitrate el key d = Inr (Some b)" for key d b
    using that assms(2) by (auto simp: bitrate_def res_simps split: if_splits intro!: divide_nonneg_pos)
  obtain rx hops rxd txd lost where r: "float_attr el ''rxPackets'' = Inr rx" "float_attr el ''lostPackets'' = Inr lost"
    and b: "bitrate el ''rxBytes'' rxd = Inr (rxBitrate f)" "bitrate el ''txBytes'' txd = Inr (txBitrate f)"
    and hops: "(if rx \<noteq> 0 then res_bind (float_attr el ''timesForwarded'') (\<lambda>f. Inr (f / rx + 1)) else Inr (- 1000)) = Inr (hopCount f)"
    and loss: "(if rx = 0 then Inr None else res_bind (py_div lost (rx + lost)) (\<lambda>q. Inr (Some q))) = Inr (packetLossRatio f)"
    using assms(1) unfolding read_flow_def res_bind_eq_Inr by (clarsimp simp: res_simps)
  have pos: "0 \<le> rx" "0 \<le> lost" using r assms(2) by auto
  have "0 \<le> q \<and> q < 1" if "packetLossRatio f = Some q" for q
  proof -
    have "rx \<noteq> 0" "q = lost / (rx + lost)" using loss that pos by (auto simp: py_div_def split: if_splits)
    then show ?thesis using pos by (simp add: divide_less_eq)
  qed
  moreover have "packetLossRatio f = None \<longleftrightarrow> rx = 0"
    using loss by (cases "packetLossRatio f") (auto simp: py_div_def split: if_splits)
  moreover have "1 \<le> hopCount f" if "rx \<noteq> 0"
  proof -
    obtain x where "float_attr el ''timesForwarded'' = Inr x" "hopCount f = x / rx + 1" using hops \<open>rx \<noteq> 0\<close> by (auto simp: res_simps)
    moreover from this have "0 \<le> x" using assms(2) by blast
    ultimately show ?thesis using pos(1) by simp
  qed
  ultimately show ?thesis using r rate b by auto
qed

definition sample_flow :: xml where
  "sample_flow = Element ''Flow'' [(''flowId'', ''1''), (''rxPackets'', ''8''), (''txPackets'', ''10''), (''lostPackets'', ''2''),
     (''timeFirstTxPacket'', ''0ns''), (''timeLastTxPacket'', ''2e9ns''), (''timeFirstRxPacket'', ''0ns''), (''timeLastRxPacket'', ''2e9ns''),
     (''timesForwarded'', ''8''), (''delaySum'', ''80ns''), (''rxBytes'', ''800''), (''txBytes'', ''1000'')] []"

lemmas number_defs = py_float_def split_sign_def str_strip_def str_strip_chars_def py_spaces_def read_decimal_def read_exponent_def
  is_digit_def digit_val_def nat_of_digits_def py_int_def

lemma sample_flow_read: "\<exists>f. read_flow sample_flow = Inr f \<and> packetLossRatio f = Some (2 / 10)"
proof -
  have attr: "int_attr sample_flow ''flowId'' = Inr 1" "float_attr sample_flow ''rxPackets'' = Inr 8" "float_attr sample_flow ''txPackets'' = Inr 10"
    "float_attr sample_flow ''lostPackets'' = Inr 2" "float_attr sample_flow ''timesForwarded'' = Inr 8"
    "float_attr sample_flow ''rxBytes'' = Inr 800" "float_attr sample_flow ''txBytes'' = Inr 1000"
    by (simp_all add: int_attr_def float_attr_def el_get_def sample_flow_def number_defs Let_def)
  have times: "duration sample_flow ''timeLastTxPacket'' ''timeFirstTxPacket'' = Inr 2"
    "duration sample_flow ''timeLastRxPacket'' ''timeFirstRxPacket'' = Inr 2" "delay_sum sample_flow = Inr 80"
    by (simp_all add: duration_def delay_sum_def parse_time_ns_def el_get_def sample_flow_def ends_with_def suffix_to_prefix py_slice_def slice_bound_def number_defs Let_def)
  have "find_child ''flowInterruptionsHistogram'' sample_flow = None" by (simp add: find_child_def sample_flow_def)
  then show ?thesis by (simp add: read_flow_def attr times bitrate_def py_div_def)
qed

lemma py_float_nonneg: "py_float s = Inr x \<Longrightarrow> \<not> fst (split_sign (str_strip s)) \<Longrightarrow> 0 \<le> x"
  by (auto simp: py_float_def read_decimal_def Let_def split: prod.splits option.splits if_splits)

theorem flow_values_witness: "\<exists>f. read_flow sample_flow = Inr f \<and> 1 \<le> hopCount f"
proof -
  obtain f where f: "read_flow sample_flow = Inr f" "packetLossRatio f = Some (2 / 10)" using sample_flow_read by blast
  have "0 \<le> x" if v: "float_attr sample_flow k = Inr x" for k x
  proof -
    obtain s where "map_of (x_attrs sample_flow) k = Some s" "py_float s = Inr x"
      using v by (cases "map_of (x_attrs sample_flow) k") (simp_all add: float_attr_def el_get_def)
    then have "(k, s) \<in> set (x_attrs sample_flow)" "py_float s = Inr x" by (auto dest: map_of_SomeD)
    moreover have "\<forall>(k, s) \<in> set (x_attrs sample_flow). \<not> fst (split_sign (str_strip s))"
      by (simp add: sample_flow_def split_sign_def str_strip_def str_strip_chars_def py_spaces_def)
    ultimately show ?thesis using py_float_nonneg by blast
  qed
  then have "packetLossRatio f \<noteq> None \<longrightarrow> 1 \<le> hopCount f" using flow_values [OF f(1)] by blast
  then show ?thesis using f by (metis option.distinct(1))
qed

section \<open>Statistics of the probes\<close>

text \<open>The places in the dictionary exist, and the identifiers of the flows do not change.\<close>

definition flows_ok :: "flow_table \<Rightarrow> bool" where
  "flows_ok t \<longleftrightarrow> (\<forall>fid i. map_of (flow_map t) fid = Some i \<longrightarrow> i < length (flows t) \<and> flowId (flows t ! i) = fid)
     \<and> (\<forall>f \<in> set (flows t). map_of (flow_map t) (flowId f) \<noteq> None)"

lemma read_flow_fresh: "read_flow el = Inr f \<Longrightarrow> probe_stats_unsorted f = []"
  by (auto simp: read_flow_def res_simps split: prod.splits)

lemma add_flow_ok:
  assumes "flows_ok t" "add_flow el t = Inr t'" "\<forall>f \<in> set (flows t). probe_stats_unsorted f = []"
  shows "flows_ok t' \<and> (\<forall>f \<in> set (flows t'). probe_stats_unsorted f = [])"
proof -
  obtain f where f: "read_flow el = Inr f" "t' = \<lparr>flows = flows t @ [f], flow_map = AList.update (flowId f) (length (flows t)) (flow_map t)\<rparr>"
    using assms(2) by (auto simp: add_flow_def res_simps)
  show ?thesis
    using assms(1,3) f read_flow_fresh [OF f(1)] by (auto simp: flows_ok_def nth_append less_Suc_eq split: if_splits)
qed

lemma change_flow_ok:
  assumes "flows_ok t" "change_flow fid g t = Inr t'" "\<And>f. flowId (g f) = flowId f"
  shows "flows_ok t' \<and> flow_map t' = flow_map t \<and> map flowId (flows t') = map flowId (flows t)
    \<and> (\<exists>i < length (flows t). map_of (flow_map t) fid = Some i \<and> flowId (flows t ! i) = fid \<and> flows t' = (flows t)[i := g (flows t ! i)])"
proof -
  obtain i where i: "map_of (flow_map t) fid = Some i" "t' = t\<lparr>flows := (flows t)[i := g (flows t ! i)]\<rparr>"
    using assms(2) by (auto simp: change_flow_def split: option.splits)
  then have l: "i < length (flows t)" "flowId (flows t ! i) = fid" using assms(1) by (auto simp: flows_ok_def)
  have same: "map flowId (flows t') = map flowId (flows t)" using i l assms(3) by (simp add: map_update list_update_same_conv)
  have "flows_ok t'"
    unfolding flows_ok_def
  proof (intro conjI allI impI ballI)
    fix f j assume "map_of (flow_map t') f = Some j"
    then show "j < length (flows t')" "flowId (flows t' ! j) = f"
      using assms(1,3) i l by (auto simp: flows_ok_def nth_list_update)
  next
    fix f assume "f \<in> set (flows t')"
    then have "flowId f \<in> set (map flowId (flows t))" using same by (metis image_eqI list.set_map)
    then show "map_of (flow_map t') (flowId f) \<noteq> None" using assms(1) i by (auto simp: flows_ok_def)
  qed
  then show ?thesis using i l same by auto
qed

text \<open>The statistics of flow \<open>i\<close> in a list of pairs of a flow identifier and statistics.\<close>

definition stats_for :: "int \<Rightarrow> (int \<times> probe_flow_stats) list \<Rightarrow> probe_flow_stats list" where
  "stats_for fid rs = map snd (filter (\<lambda>r. fst r = fid) rs)"

definition stats_at :: "(int \<times> nat) list \<Rightarrow> nat \<Rightarrow> (int \<times> probe_flow_stats) list \<Rightarrow> probe_flow_stats list" where
  "stats_at fm i rs = map snd (filter (\<lambda>r. map_of fm (fst r) = Some i) rs)"

text \<open>From one table to another by appending statistics to their flows.\<close>

definition received :: "flow_table \<Rightarrow> (int \<times> probe_flow_stats) list \<Rightarrow> flow_table \<Rightarrow> bool" where
  "received t rs t' \<longleftrightarrow> flows_ok t' \<and> flow_map t' = flow_map t \<and> map flowId (flows t') = map flowId (flows t)
     \<and> (\<forall>r \<in> set rs. fst r \<in> set (map flowId (flows t)))
     \<and> (\<forall>i < length (flows t). probe_stats_unsorted (flows t' ! i) = probe_stats_unsorted (flows t ! i) @ stats_at (flow_map t) i rs)"

lemma received_trans: "received t rs t' \<Longrightarrow> received t' rs' t'' \<Longrightarrow> received t (rs @ rs') t''"
proof -
  assume a: "received t rs t'" "received t' rs' t''"
  then have "length (flows t') = length (flows t)" by (metis received_def length_map)
  then show "received t (rs @ rs') t''" using a by (auto simp: received_def stats_at_def)
qed

lemma received_none: "flows_ok t \<Longrightarrow> received t [] t"
  by (simp add: received_def stats_at_def)

lemma add_probe_stats_received:
  assumes "flows_ok t" "add_probe_stats pid el t = Inr t'"
  shows "\<exists>r. read_probe_stats pid el = Inr r \<and> received t [r] t'"
proof -
  obtain fid s where r: "read_probe_stats pid el = Inr (fid, s)"
    and c: "change_flow fid (\<lambda>f. f\<lparr>probe_stats_unsorted := probe_stats_unsorted f @ [s]\<rparr>) t = Inr t'"
    using assms(2) by (auto simp: add_probe_stats_def res_simps)
  obtain i where i: "i < length (flows t)" "map_of (flow_map t) fid = Some i" "flowId (flows t ! i) = fid"
    "flows t' = (flows t)[i := (flows t ! i)\<lparr>probe_stats_unsorted := probe_stats_unsorted (flows t ! i) @ [s]\<rparr>]"
    "flows_ok t'" "flow_map t' = flow_map t" "map flowId (flows t') = map flowId (flows t)"
    using change_flow_ok [OF assms(1) c] by auto
  have "fid \<in> set (map flowId (flows t))" using i(1,3) by (metis length_map nth_map nth_mem)
  then have "received t [(fid, s)] t'" using i by (auto simp: received_def stats_at_def nth_list_update)
  then show ?thesis using r by blast
qed

lemma probe_stats_received:
  assumes "flows_ok t" "res_fold (add_probe_stats pid) els t = Inr t'"
  shows "\<exists>rs. list_all2 (\<lambda>e r. \<exists>pid. read_probe_stats pid e = Inr r) els rs \<and> received t rs t'"
  using assms
proof (induction els arbitrary: t)
  case Nil
  then show ?case using received_none by auto
next
  case (Cons e els)
  obtain t1 where t1: "add_probe_stats pid e t = Inr t1" "res_fold (add_probe_stats pid) els t1 = Inr t'"
    using Cons.prems(2) by (auto simp: res_simps)
  obtain r where r: "read_probe_stats pid e = Inr r" "received t [r] t1" using add_probe_stats_received [OF Cons.prems(1) t1(1)] by blast
  then have "flows_ok t1" by (simp add: received_def)
  then obtain rs where "list_all2 (\<lambda>e r. \<exists>pid. read_probe_stats pid e = Inr r) els rs" "received t1 rs t'"
    using Cons.IH [OF _ t1(2)] by blast
  then show ?case using r received_trans [OF r(2)] by (intro exI [of _ "r # rs"]) auto
qed

lemma probes_received:
  assumes "flows_ok t" "res_fold add_probe els t = Inr t'"
  shows "\<exists>rs. list_all2 (\<lambda>e r. \<exists>pid. read_probe_stats pid e = Inr r) (concat (map (findall [''FlowStats'']) els)) rs \<and> received t rs t'"
  using assms
proof (induction els arbitrary: t)
  case Nil
  then show ?case using received_none by auto
next
  case (Cons e els)
  obtain t1 where a: "add_probe e t = Inr t1" and t2: "res_fold add_probe els t1 = Inr t'"
    using Cons.prems(2) by (auto simp: res_simps)
  obtain pid where "res_fold (add_probe_stats pid) (findall [''FlowStats''] e) t = Inr t1"
    using a unfolding add_probe_def res_bind_eq_Inr by blast
  note t1 = this t2
  obtain rs1 where rs1: "list_all2 (\<lambda>e r. \<exists>pid. read_probe_stats pid e = Inr r) (findall [''FlowStats''] e) rs1" "received t rs1 t1"
    using probe_stats_received [OF Cons.prems(1) t1(1)] by blast
  then have "flows_ok t1" by (simp add: received_def)
  then obtain rs2 where "list_all2 (\<lambda>e r. \<exists>pid. read_probe_stats pid e = Inr r) (concat (map (findall [''FlowStats'']) els)) rs2" "received t1 rs2 t'"
    using Cons.IH [OF _ t1(2)] by blast
  then show ?case using received_trans [OF rs1(2)] list_all2_appendI [OF rs1(1)]
    by (intro exI [of _ "rs1 @ rs2"]) (simp del: findall.simps)
qed

lemma findall_append: "findall (xs @ ys) el = concat (map (findall ys) (findall xs el))"
proof (induction xs arbitrary: el)
  case (Cons x xs)
  have "concat (map (findall (xs @ ys)) cs) = concat (map (findall ys) (concat (map (findall xs) cs)))" for cs
    by (induction cs) (simp_all add: Cons)
  then show ?case by simp
qed simp

lemma flows_then_tuples:
  assumes "res_fold add_flow els \<lparr>flows = [], flow_map = []\<rparr> = Inr t" "res_fold add_five_tuple cs t = Inr t'"
  shows "flows_ok t' \<and> (\<forall>f \<in> set (flows t'). probe_stats_unsorted f = [])"
proof -
  let ?P = "\<lambda>t. flows_ok t \<and> (\<forall>f \<in> set (flows t). probe_stats_unsorted f = [])"
  have "?P \<lparr>flows = [], flow_map = []\<rparr>" by (simp add: flows_ok_def)
  moreover have "?P s'" if "?P s" "add_flow e s = Inr s'" for s s' e using add_flow_ok that by blast
  ultimately have t: "?P t" using res_fold_invariant [OF assms(1), where P = ?P] by blast
  have "?P s'" if p: "?P s" "add_five_tuple e s = Inr s'" for s s' e
  proof -
    obtain fid ft where "change_flow fid (\<lambda>f. f\<lparr>fiveTuple := Some ft\<rparr>) s = Inr s'" using p(2) by (auto simp: add_five_tuple_def res_simps)
    from change_flow_ok [OF _ this] p(1) obtain i where "i < length (flows s)" "flows_ok s'"
      "flows s' = (flows s)[i := (flows s ! i)\<lparr>fiveTuple := Some ft\<rparr>]" by auto
    moreover from this have "set (flows s') \<subseteq> insert ((flows s ! i)\<lparr>fiveTuple := Some ft\<rparr>) (set (flows s))" by (simp add: set_update_subset_insert)
    ultimately show ?thesis using p(1) by (auto simp: subset_iff)
  qed
  then show ?thesis using res_fold_invariant [OF assms(2), where P = ?P] t by blast
qed

text \<open>C18: When a simulation is read and its flow identifiers are different, the statistics of the probes are neither lost nor mixed up: every
  \<^verbatim>\<open>FlowStats\<close> element of a probe gives one record, every record belongs to a flow, and every flow has exactly the records with its
  identifier, in the order of the document.\<close>

theorem probe_stats_distributed:
  assumes "read_simulation el = Inr fs" "distinct (map flowId fs)"
  shows "\<exists>rs. list_all2 (\<lambda>e r. \<exists>pid. read_probe_stats pid e = Inr r) (findall [''FlowProbes'', ''FlowProbe'', ''FlowStats''] el) rs
    \<and> (\<forall>r \<in> set rs. fst r \<in> flowId ` set fs) \<and> (\<forall>f \<in> set fs. probe_stats_unsorted f = stats_for (flowId f) rs)"
proof -
  obtain c t1 t2 t3 where t: "res_fold add_flow (findall [''FlowStats'', ''Flow''] el) \<lparr>flows = [], flow_map = []\<rparr> = Inr t1"
    "res_fold add_five_tuple (findall [''Flow''] c) t1 = Inr t2"
    "res_fold add_probe (findall [''FlowProbes'', ''FlowProbe''] el) t2 = Inr t3" "fs = flows t3"
    using assms(1) by (auto simp: read_simulation_def res_simps split: list.splits)
  have ok: "flows_ok t2" "\<forall>f \<in> set (flows t2). probe_stats_unsorted f = []" using flows_then_tuples [OF t(1,2)] by auto
  obtain rs where rs: "list_all2 (\<lambda>e r. \<exists>pid. read_probe_stats pid e = Inr r)
      (concat (map (findall [''FlowStats'']) (findall [''FlowProbes'', ''FlowProbe''] el))) rs" "received t2 rs t3"
    using probes_received [OF ok(1) t(3)] by blast
  have ids: "map flowId (flows t3) = map flowId (flows t2)" "flow_map t3 = flow_map t2" "flows_ok t3" using rs(2) by (auto simp: received_def)
  then have len: "length (flows t3) = length (flows t2)" by (metis length_map)
  have "probe_stats_unsorted f = stats_for (flowId f) rs" if f: "f \<in> set fs" for f
  proof -
    obtain i where i: "i < length (flows t3)" "f = flows t3 ! i" using f t(4) by (auto simp: in_set_conv_nth)
    have "map_of (flow_map t2) g = Some i \<longleftrightarrow> g = flowId f" for g
    proof
      assume "map_of (flow_map t2) g = Some i"
      then show "g = flowId f" using ids(2,3) i by (auto simp: flows_ok_def)
    next
      assume g: "g = flowId f"
      then obtain j where j: "map_of (flow_map t3) g = Some j" using ids(3) f t(4) by (auto simp: flows_ok_def)
      then have "j < length (flows t3)" "flowId (flows t3 ! j) = flowId (flows t3 ! i)" using ids(3) g i by (auto simp: flows_ok_def)
      then have "j = i" using assms(2) t(4) i(1) by (auto simp: distinct_conv_nth)
      then show "map_of (flow_map t2) g = Some i" using j ids(2) by simp
    qed
    then have "stats_at (flow_map t2) i rs = stats_for (flowId f) rs" by (simp add: stats_at_def stats_for_def)
    then show ?thesis using rs(2) ok(2) i len by (simp add: received_def)
  qed
  moreover have "\<forall>r \<in> set rs. fst r \<in> flowId ` set fs" using rs(2) ids(1) t(4) by (metis received_def list.set_map)
  moreover have "findall [''FlowProbes'', ''FlowProbe'', ''FlowStats''] el
      = concat (map (findall [''FlowStats'']) (findall [''FlowProbes'', ''FlowProbe''] el))"
    using findall_append [of "[''FlowProbes'', ''FlowProbe'']" "[''FlowStats'']" el] by simp
  ultimately show ?thesis using rs(1) by auto
qed

definition sample_stats :: xml where
  "sample_stats = Element ''FlowStats'' [(''flowId'', ''1''), (''packets'', ''0''), (''bytes'', ''0'')] []"

definition sample_document :: xml where
  "sample_document = Element ''FlowMonitor'' []
     [Element ''FlowStats'' [] [sample_flow], Element ''Ipv4FlowClassifier'' [] [],
      Element ''FlowProbes'' [] [Element ''FlowProbe'' [(''index'', ''0'')] [sample_stats]]]"

lemma sample_document_read:
  "\<exists>f. read_simulation sample_document = Inr [f] \<and> flowId f = 1"
proof -
  obtain f where f: "read_flow sample_flow = Inr f" using sample_flow_read by blast
  have "int_attr sample_flow ''flowId'' = Inr 1" by (simp add: int_attr_def el_get_def sample_flow_def number_defs Let_def)
  then have i: "flowId f = 1" using f by (auto simp: read_flow_def res_simps)
  have attr: "int_attr sample_stats ''flowId'' = Inr 1" "int_attr sample_stats ''packets'' = Inr 0" "float_attr sample_stats ''bytes'' = Inr 0"
    "int_attr (Element ''FlowProbe'' [(''index'', ''0'')] [sample_stats]) ''index'' = Inr 0"
    by (simp_all add: int_attr_def float_attr_def el_get_def sample_stats_def number_defs Let_def)
  have tags: "x_tag sample_flow = ''Flow''" "x_tag sample_stats = ''FlowStats''" by (simp_all add: sample_flow_def sample_stats_def)
  show ?thesis
    by (simp add: read_simulation_def sample_document_def tags add_flow_def f add_probe_def attr add_probe_stats_def read_probe_stats_def
        change_flow_def i)
qed

theorem probe_stats_distributed_witness:
  "\<exists>f. read_simulation sample_document = Inr [f] \<and> length (probe_stats_unsorted f) = 1"
proof -
  obtain f where f: "read_simulation sample_document = Inr [f]" "flowId f = 1" using sample_document_read by blast
  obtain rs where rs: "list_all2 (\<lambda>e r. \<exists>pid. read_probe_stats pid e = Inr r)
      (findall [''FlowProbes'', ''FlowProbe'', ''FlowStats''] sample_document) rs"
    "\<forall>r \<in> set rs. fst r \<in> flowId ` set [f]" "probe_stats_unsorted f = stats_for (flowId f) rs"
    using probe_stats_distributed [OF f(1)] by auto
  have "findall [''FlowProbes'', ''FlowProbe'', ''FlowStats''] sample_document = [sample_stats]"
    by (simp add: sample_document_def sample_stats_def)
  then obtain r where "rs = [r]" using rs(1) by (auto simp: list_all2_Cons1)
  then show ?thesis using f(1) rs(2,3) by (simp add: stats_for_def)
qed

section \<open>What can be printed\<close>

text \<open>A flow is printed when the classifier describes it and its protocol is TCP or UDP.\<close>

definition printable_flow :: "flow \<Rightarrow> bool" where
  "printable_flow f \<longleftrightarrow> (\<exists>t. fiveTuple f = Some t \<and> protocol t \<in> {6, 17})"

lemma flow_text_printable: "(\<exists>s. flow_text f = Inr s) \<longleftrightarrow> printable_flow f"
  by (cases "fiveTuple f") (auto simp: flow_text_def protocol_name_def printable_flow_def)

lemma flow_text_error: "flow_text f = Inl e \<Longrightarrow> \<not> printable_flow f \<and> e \<in> {AttributeError, KeyError}"
  by (cases "fiveTuple f") (auto simp: flow_text_def protocol_name_def printable_flow_def split: if_splits)

text \<open>C23: The flows are printed in order up to the first one that the classifier does not describe or whose protocol is neither TCP nor UDP;
  the output of those before it is kept and the program ends with an exception there.\<close>

theorem printing_stops_at_unprintable:
  "(case fst (print_flows fs out) of
      Inr u \<Rightarrow> list_all printable_flow fs
    | Inl e \<Rightarrow> \<not> list_all printable_flow fs \<and> e \<in> {AttributeError, KeyError})
   \<and> (\<exists>texts. map Inr texts = map flow_text (takeWhile printable_flow fs) \<and> snd (print_flows fs out) = out @ concat texts)"
proof (induction fs arbitrary: out)
  case (Cons f fs)
  show ?case
  proof (cases "flow_text f")
    case (Inl e)
    then show ?thesis using flow_text_error [OF Inl] by simp
  next
    case (Inr s)
    then have p: "printable_flow f" using flow_text_printable by blast
    obtain texts where t: "map Inr texts = map flow_text (takeWhile printable_flow fs)"
      "snd (print_flows fs (out @ s)) = (out @ s) @ concat texts" using Cons.IH [of "out @ s"] by blast
    have "map Inr (s # texts) = map flow_text (takeWhile printable_flow (f # fs))
        \<and> snd (print_flows (f # fs) out) = out @ concat (s # texts)"
      using t Inr p by simp
    moreover have "case fst (print_flows (f # fs) out) of Inr u \<Rightarrow> list_all printable_flow (f # fs)
        | Inl e \<Rightarrow> \<not> list_all printable_flow (f # fs) \<and> e \<in> {AttributeError, KeyError}"
      using Cons.IH [of "out @ s", THEN conjunct1] Inr p by (simp split: sum.splits)
    ultimately show ?thesis by blast
  qed
qed simp

end
