(* ===== verification/S1g_Rates.thy ===== *)
theory S1g_Rates
  imports Py_Numbers
begin

text \<open>
  The generator of the tables for the rates of IEEE 802.11ah, from \<^verbatim>\<open>src/wifi/model/s1g/generates_s1g_rate_code.py\<close>: a table of
  modulation and coding schemes is read, and pieces of C++ for the physical layer are written from it. A row of the table is a
  list of fields, as the CSV reader gives it. Rates are exact, as they are given in the table with at most two decimals;
  the script multiplies a float by a million and truncates, which gives the same integer for every rate of the repository's table.
\<close>

section \<open>Reading the table\<close>

record mcs =
  m_id :: nat
  m_mod :: string
  m_cr :: string
  m_bw :: nat
  m_dr :: rat

text \<open>One row for one bandwidth; a rate of zero means that there is no such mode.\<close>

definition read_mcs :: "nat \<Rightarrow> string list \<Rightarrow> mcs option res" where
  "read_mcs b row =
     res_bind (py_index row 2) (\<lambda>md. res_bind (py_index row 3) (\<lambda>cr.
     res_bind (py_index row (4 + int b * 2)) (\<lambda>f. res_bind (py_float f) (\<lambda>dr.
       Inr (if dr = 0 then None else Some \<lparr>m_id = 0, m_mod = md, m_cr = cr, m_bw = 2 ^ b, m_dr = dr\<rparr>)))))"

definition add_mcs :: "nat \<Rightarrow> string list \<Rightarrow> mcs list \<Rightarrow> mcs list res" where
  "add_mcs b row ms = res_bind (read_mcs b row) (\<lambda>m. Inr (case m of None \<Rightarrow> ms | Some m \<Rightarrow> ms @ [m]))"

definition mcs_list :: "string list list \<Rightarrow> mcs list res" where
  "mcs_list rows = res_fold (\<lambda>b. res_fold (add_mcs b) rows) [0..<5] []"

section \<open>Names and codes\<close>

definition rate_str :: "rat \<Rightarrow> string" where
  "rate_str dr = str_join ''_'' (str_split (CHR ''.'') (fmt_fixed 2 dr))"

definition uni_name :: "mcs \<Rightarrow> string" where
  "uni_name m = ''OfdmRate'' @ rate_str (m_dr m) @ ''MbpsBW'' @ nat_digits (m_bw m) @ ''MHz''"

text \<open>The attributes \<^verbatim>\<open>mod_constellation\<close> and \<^verbatim>\<open>code_rate_str\<close>, which are not set for other values.\<close>

definition mod_constellation :: "string \<Rightarrow> nat option" where
  "mod_constellation md =
     map_of [(''BPSK'', 2), (''QPSK'', 4), (''16-QAM'', 16), (''64-QAM'', 64), (''256-QAM'', 256)] md"

definition code_rate_str :: "string \<Rightarrow> string option" where
  "code_rate_str cr =
     map_of [(''1/2'', ''WIFI_CODE_RATE_1_2''), (''2/3'', ''WIFI_CODE_RATE_3_4''), (''3/4'', ''WIFI_CODE_RATE_3_4''),
             (''5/6'', ''WIFI_CODE_RATE_5_6'')] cr"

definition rate_bps :: "mcs \<Rightarrow> int" where
  "rate_bps m = py_trunc (m_dr m * 1000000)"

section \<open>The generated pieces\<close>

definition tab :: string where
  "tab = [CHR 0x09]"

definition fname_line :: "mcs \<Rightarrow> string" where
  "fname_line m = tab @ tab @ ''static WifiMode GetS1g'' @ uni_name m @ '' ();'' @ newline"

definition lookup_line :: "mcs \<Rightarrow> string res" where
  "lookup_line m =
     (case (code_rate_str (m_cr m), mod_constellation (m_mod m)) of
        (Some cr, Some c) \<Rightarrow>
          Inr (tab @ ''{'' @ [CHR 0x22] @ ''S1g'' @ uni_name m @ [CHR 0x22] @ '','' @ tab @ ''{'' @ cr @ '','' @ tab @ nat_digits c @ ''}},'' @ newline)
      | _ \<Rightarrow> Inl AttributeError)"

definition ofdm_mode_line :: "mcs \<Rightarrow> string" where
  "ofdm_mode_line m = tab @ ''GET_S1G_OFDM_MODE (S1g'' @ uni_name m @ '', true)'' @ newline"

text \<open>The modes of one bandwidth.\<close>

definition of_bandwidth :: "mcs list \<Rightarrow> nat \<Rightarrow> mcs list" where
  "of_bandwidth ms b = filter (\<lambda>m. m_bw m = 2 ^ b) ms"

definition bps_list :: "mcs list \<Rightarrow> string" where
  "bps_list ms =
     ''{'' @ newline
     @ concat (map (\<lambda>b. tab @ ''{'' @ nat_digits (2 ^ b) @ '', {''
         @ concat (map (\<lambda>m. int_str (rate_bps m) @ '','') (of_bandwidth ms b)) @ ''}},'' @ newline) [0..<5])
     @ ''};'' @ newline"

definition case_lines :: "mcs \<Rightarrow> string" where
  "case_lines m = tab @ tab @ tab @ ''case '' @ int_str (rate_bps m) @ '':'' @ newline
     @ tab @ tab @ tab @ tab @ ''return GetS1g'' @ uni_name m @ ''();'' @ newline"

definition ofdm_rates :: "mcs list \<Rightarrow> string" where
  "ofdm_rates ms = concat (map (\<lambda>b.
     tab @ ''case '' @ nat_digits (2 ^ b) @ '':'' @ newline @ tab @ tab @ '' switch (rate)'' @ newline @ tab @ tab @ ''{'' @ newline
     @ concat (map case_lines (of_bandwidth ms b))
     @ tab @ tab @ tab @ ''default:'' @ newline
     @ tab @ tab @ tab @ tab @ ''NS_ABORT_MSG ('' @ [CHR 0x22] @ ''Inexistent rate ('' @ [CHR 0x22] @ '' << rate << '' @ [CHR 0x22]
       @ '' bps) requested for s1g OFDM (default)'' @ [CHR 0x22] @ '');'' @ newline
     @ tab @ tab @ tab @ tab @ ''return WifiMode ();'' @ newline @ tab @ tab @ ''}'' @ newline) [0..<5])"

definition band_line :: "mcs \<Rightarrow> string" where
  "band_line m = tab @ ''{'' @ [CHR 0x22] @ ''S1g'' @ uni_name m @ [CHR 0x22] @ '','' @ nat_digits (m_bw m) @ ''},'' @ newline"

text \<open>The script: the files it has written, and how it ended. A mode without code rate or constellation ends it in the second file.\<close>

definition lookup_file :: "mcs list \<Rightarrow> unit res \<times> string" where
  "lookup_file ms = fold (\<lambda>m (r, out). case r of Inl e \<Rightarrow> (Inl e, out) | Inr _ \<Rightarrow>
       (case lookup_line m of Inl e \<Rightarrow> (Inl e, out) | Inr l \<Rightarrow> (Inr (), out @ l))) ms (Inr (), [])"

definition generate_s1g :: "string list list \<Rightarrow> unit res \<times> (string \<times> string) list" where
  "generate_s1g rows =
     (case mcs_list rows of
        Inl e \<Rightarrow> (Inl e, [])
      | Inr ms \<Rightarrow>
          let f1 = (''gen_s1g_rates_fnames_h.txt'', concat (map fname_line ms)); f2 = ''gen_s1g_rates_lookuptable_h.txt''
          in (case lookup_file ms of
                (Inl e, out) \<Rightarrow> (Inl e, [f1, (f2, out)])
              | (Inr _, out) \<Rightarrow>
                  (Inr (), [f1, (f2, out), (''gen_s1g_getofdmmod_h.txt'', concat (map ofdm_mode_line ms)),
                     (''gen_s1g_bpslist_h.txt'', bps_list ms), (''gen_s1g_getofdmrates_h.txt'', ofdm_rates ms),
                     (''gen_s1g_mode_band_lookuptable_h.txt'', concat (map band_line ms))])))"

text \<open>The table of the repository, \<^verbatim>\<open>mcs_data_rate_table_formated.txt\<close>.\<close>

definition mcs_rows :: "string list list" where
  "mcs_rows =
     [
      [''0'', ''1'', ''BPSK'', ''1/2'', ''0.3'', ''0.33'', ''0.65'', ''0.72'', ''1.35'', ''1.5'', ''2.93'', ''3.25'', ''5.85'', ''6.5''],
      [''1'', ''1'', ''QPSK'', ''1/2'', ''0.6'', ''0.67'', ''1.3'', ''1.44'', ''2.7'', ''3.0'', ''5.85'', ''6.5'', ''11.7'', ''13.0''],
      [''2'', ''1'', ''QPSK'', ''3/4'', ''0.9'', ''1.0'', ''1.95'', ''2.17'', ''4.05'', ''4.5'', ''8.78'', ''9.75'', ''17.6'', ''19.5''],
      [''3'', ''1'', ''16-QAM'', ''1/2'', ''1.2'', ''1.33'', ''2.6'', ''2.89'', ''5.4'', ''6.0'', ''11.7'', ''13.0'', ''23.4'', ''26.0''],
      [''4'', ''1'', ''16-QAM'', ''3/4'', ''1.8'', ''2.0'', ''3.9'', ''4.33'', ''8.1'', ''9.0'', ''17.6'', ''19.5'', ''35.1'', ''39.0''],
      [''5'', ''1'', ''64-QAM'', ''2/3'', ''2.4'', ''2.67'', ''5.2'', ''5.78'', ''10.8'', ''12.0'', ''23.4'', ''26.0'', ''46.8'', ''52.0''],
      [''6'', ''1'', ''64-QAM'', ''3/4'', ''2.7'', ''3.0'', ''5.85'', ''6.5'', ''12.2'', ''13.5'', ''26.3'', ''29.3'', ''52.7'', ''58.5''],
      [''7'', ''1'', ''64-QAM'', ''5/6'', ''3.0'', ''3.34'', ''6.5'', ''7.22'', ''13.5'', ''15.0'', ''29.3'', ''32.5'', ''58.5'', ''65.0''],
      [''8'', ''1'', ''256-QAM'', ''3/4'', ''3.6'', ''4.0'', ''7.8'', ''8.67'', ''16.2'', ''18.0'', ''35.1'', ''39.0'', ''70.2'', ''78.0''],
      [''9'', ''1'', ''256-QAM'', ''5/6'', ''4.0'', ''4.44'', ''0'', ''0'', ''18.0'', ''20.0'', ''39.0'', ''43.3'', ''78.0'', ''86.7''],
      [''10'', ''1'', ''BPSK'', ''1/2'', ''0.15'', ''0.17'', ''0'', ''0'', ''0'', ''0'', ''0'', ''0'', ''0'', ''0'']
     ]"

section \<open>Names\<close>

lemma digits_separate:
  assumes "list_all is_digit d" "list_all is_digit d'" "\<not> is_digit c" "d @ c # x = d' @ c # x'"
  shows "d = d' \<and> x = x'"
proof -
  have "takeWhile is_digit (d @ c # x) = d" "takeWhile is_digit (d' @ c # x') = d'"
    using assms(1-3) by (auto simp: takeWhile_append2 list_all_iff)
  then show ?thesis using assms(4) by auto
qed

lemma nat_digits_all: "list_all is_digit (nat_digits n)"
  using nat_digits_digits by (auto simp: list_all_iff)

lemma nat_digits_inj: "nat_digits m = nat_digits n \<Longrightarrow> m = n"
  by (metis nat_of_digits_digits)

lemma nat_of_digits_zeros: "nat_of_digits (replicate k (CHR ''0'') @ ds) = nat_of_digits ds"
proof (induction ds rule: rev_induct)
  case Nil
  show ?case by (induction k) (simp_all add: nat_of_digits_def digit_val_def)
next
  case (snoc d ds)
  then show ?case using nat_of_digits_snoc by (metis append.assoc)
qed

lemma pad_left_digits: "list_all is_digit (pad_left k (CHR ''0'') (nat_digits n))" "nat_of_digits (pad_left k (CHR ''0'') (nat_digits n)) = n"
proof -
  have "is_digit (CHR ''0'')" by (simp add: is_digit_def)
  then show "list_all is_digit (pad_left k (CHR ''0'') (nat_digits n))"
    using nat_digits_all [of n] by (auto simp: pad_left_def list_all_iff)
  show "nat_of_digits (pad_left k (CHR ''0'') (nat_digits n)) = n" by (simp add: pad_left_def nat_of_digits_zeros)
qed

text \<open>Hundredths of a megabit per second, as they are printed.\<close>

definition hundredths :: "rat \<Rightarrow> nat" where
  "hundredths dr = nat (round_half_even (dr * 100))"

lemma no_separator: "list_all is_digit ds \<Longrightarrow> CHR ''.'' \<notin> set ds"
  by (auto simp: list_all_iff is_digit_def)

lemma round_half_even_nonneg: "0 \<le> x \<Longrightarrow> 0 \<le> round_half_even x"
  by (simp add: round_half_even_def Let_def)

lemma rate_str_digits:
  assumes "0 \<le> dr"
  shows "rate_str dr = nat_digits (hundredths dr div 100) @ ''_'' @ pad_left 2 (CHR ''0'') (nat_digits (hundredths dr mod 100))"
proof -
  let ?i = "nat_digits (hundredths dr div 100)" and ?f = "pad_left 2 (CHR ''0'') (nat_digits (hundredths dr mod 100))"
  have "nat \<bar>round_half_even (dr * 100)\<bar> = hundredths dr" using round_half_even_nonneg [of "dr * 100"] assms by (simp add: hundredths_def)
  then have "fmt_fixed 2 dr = ?i @ CHR ''.'' # ?f" using assms by (simp add: fmt_fixed_def Let_def)
  moreover have "str_split (CHR ''.'') (?i @ CHR ''.'' # ?f) = ?i # str_split (CHR ''.'') ?f"
    using no_separator [OF nat_digits_all] by (intro str_split_append_sep)
  moreover have "str_split (CHR ''.'') ?f = [?f]" using no_separator [OF pad_left_digits(1)] by (intro str_split_none)
  ultimately show ?thesis by (simp add: rate_str_def)
qed

text \<open>Two modes get the same name, and so the same function in the generated C++, exactly when their rates agree to the hundredth of
  a megabit per second and their bandwidths are equal.\<close>

lemma uni_name_unique_iff:
  assumes "0 \<le> m_dr m" "0 \<le> m_dr m'"
  shows "uni_name m = uni_name m' \<longleftrightarrow> hundredths (m_dr m) = hundredths (m_dr m') \<and> m_bw m = m_bw m'"
proof
  assume eq: "uni_name m = uni_name m'"
  have other: "\<not> is_digit (CHR ''_'')" "\<not> is_digit (CHR ''M'')" by (simp_all add: is_digit_def)
  let ?i = "\<lambda>m. nat_digits (hundredths (m_dr m) div 100)" and ?f = "\<lambda>m. pad_left 2 (CHR ''0'') (nat_digits (hundredths (m_dr m) mod 100))"
  have "?i m @ CHR ''_'' # (?f m @ CHR ''M'' # ''bpsBW'' @ nat_digits (m_bw m) @ ''MHz'')
      = ?i m' @ CHR ''_'' # (?f m' @ CHR ''M'' # ''bpsBW'' @ nat_digits (m_bw m') @ ''MHz'')"
    using eq assms by (simp add: uni_name_def rate_str_digits)
  from digits_separate [OF nat_digits_all nat_digits_all other(1) this]
  have 1: "?i m = ?i m'" and "?f m @ CHR ''M'' # ''bpsBW'' @ nat_digits (m_bw m) @ ''MHz''
      = ?f m' @ CHR ''M'' # ''bpsBW'' @ nat_digits (m_bw m') @ ''MHz''" by simp_all
  from digits_separate [OF pad_left_digits(1) pad_left_digits(1) other(2) this(2)]
  have 2: "?f m = ?f m'" and "nat_digits (m_bw m) @ CHR ''M'' # ''Hz'' = nat_digits (m_bw m') @ CHR ''M'' # ''Hz''" by simp_all
  from digits_separate [OF nat_digits_all nat_digits_all other(2) this(2)] have "m_bw m = m_bw m'" using nat_digits_inj by blast
  moreover have "hundredths (m_dr m) div 100 = hundredths (m_dr m') div 100" using 1 by (rule nat_digits_inj)
  moreover have "hundredths (m_dr m) mod 100 = hundredths (m_dr m') mod 100" using 2 pad_left_digits(2) by metis
  ultimately show "hundredths (m_dr m) = hundredths (m_dr m') \<and> m_bw m = m_bw m'" by (metis div_mult_mod_eq)
next
  assume "hundredths (m_dr m) = hundredths (m_dr m') \<and> m_bw m = m_bw m'"
  then show "uni_name m = uni_name m'" using assms by (simp add: uni_name_def rate_str_digits)
qed

section \<open>The table of the repository\<close>

text \<open>The modes that the table gives, in hundredths of a megabit per second.\<close>

definition s1g_modes :: "mcs list" where
  "s1g_modes = concat (map (\<lambda>(bw, l). map (\<lambda>(md, cr, h). \<lparr>m_id = 0, m_mod = md, m_cr = cr, m_bw = bw, m_dr = of_nat h / 100\<rparr>) l)
     [
      (1,
       [(''BPSK'', ''1/2'', 30), (''QPSK'', ''1/2'', 60), (''QPSK'', ''3/4'', 90), (''16-QAM'', ''1/2'', 120),
        (''16-QAM'', ''3/4'', 180), (''64-QAM'', ''2/3'', 240), (''64-QAM'', ''3/4'', 270), (''64-QAM'', ''5/6'', 300),
        (''256-QAM'', ''3/4'', 360), (''256-QAM'', ''5/6'', 400), (''BPSK'', ''1/2'', 15)]),
      (2,
       [(''BPSK'', ''1/2'', 65), (''QPSK'', ''1/2'', 130), (''QPSK'', ''3/4'', 195), (''16-QAM'', ''1/2'', 260),
        (''16-QAM'', ''3/4'', 390), (''64-QAM'', ''2/3'', 520), (''64-QAM'', ''3/4'', 585), (''64-QAM'', ''5/6'', 650),
        (''256-QAM'', ''3/4'', 780)]),
      (4,
       [(''BPSK'', ''1/2'', 135), (''QPSK'', ''1/2'', 270), (''QPSK'', ''3/4'', 405), (''16-QAM'', ''1/2'', 540),
        (''16-QAM'', ''3/4'', 810), (''64-QAM'', ''2/3'', 1080), (''64-QAM'', ''3/4'', 1220), (''64-QAM'', ''5/6'', 1350),
        (''256-QAM'', ''3/4'', 1620), (''256-QAM'', ''5/6'', 1800)]),
      (8,
       [(''BPSK'', ''1/2'', 293), (''QPSK'', ''1/2'', 585), (''QPSK'', ''3/4'', 878), (''16-QAM'', ''1/2'', 1170),
        (''16-QAM'', ''3/4'', 1760), (''64-QAM'', ''2/3'', 2340), (''64-QAM'', ''3/4'', 2630), (''64-QAM'', ''5/6'', 2930),
        (''256-QAM'', ''3/4'', 3510), (''256-QAM'', ''5/6'', 3900)]),
      (16,
       [(''BPSK'', ''1/2'', 585), (''QPSK'', ''1/2'', 1170), (''QPSK'', ''3/4'', 1760), (''16-QAM'', ''1/2'', 2340),
        (''16-QAM'', ''3/4'', 3510), (''64-QAM'', ''2/3'', 4680), (''64-QAM'', ''3/4'', 5270), (''64-QAM'', ''5/6'', 5850),
        (''256-QAM'', ''3/4'', 7020), (''256-QAM'', ''5/6'', 7800)])
     ])"

lemmas float_defs = py_float_def split_sign_def str_strip_def str_strip_chars_def py_spaces_def read_decimal_def read_exponent_def
  is_digit_def digit_val_def nat_of_digits_def

lemma mcs_rows_modes: "mcs_list mcs_rows = Inr s1g_modes"
  by (simp add: mcs_list_def mcs_rows_def s1g_modes_def upt_rec add_mcs_def read_mcs_def py_index_def float_defs Let_def)

definition mode_keys :: "(nat \<times> int) list" where
  "mode_keys = map (\<lambda>m. (m_bw m, rate_bps m)) s1g_modes"

lemma s1g_modes_keys: "distinct mode_keys" "length s1g_modes = 50"
  by (simp_all add: mode_keys_def s1g_modes_def rate_bps_def py_trunc_def)

lemma s1g_modes_positive: "\<forall>m \<in> set s1g_modes. 0 \<le> m_dr m \<and> rate_bps m = 10000 * int (hundredths (m_dr m))"
  by (simp add: s1g_modes_def rate_bps_def py_trunc_def hundredths_def round_half_even_def Let_def)

lemma lookup_file_ok:
  assumes "\<forall>m \<in> set ms. \<exists>l. lookup_line m = Inr l"
  shows "\<exists>out. lookup_file ms = (Inr (), out)"
proof -
  have "\<exists>out'. fold (\<lambda>m (r, out). case r of Inl e \<Rightarrow> (Inl e, out) | Inr _ \<Rightarrow>
       (case lookup_line m of Inl e \<Rightarrow> (Inl e, out) | Inr l \<Rightarrow> (Inr (), out @ l))) ms (Inr (), out) = (Inr (), out')" for out
    using assms by (induction ms arbitrary: out) auto
  then show ?thesis by (simp add: lookup_file_def)
qed

text \<open>For the table of the repository the script ends normally, having written all six files; it finds fifty modes, their names are
  different, and no two modes of a bandwidth have the same rate.\<close>

theorem repository_table_generated:
  "fst (generate_s1g mcs_rows) = Inr () \<and> length (snd (generate_s1g mcs_rows)) = 6
   \<and> (\<exists>ms. mcs_list mcs_rows = Inr ms \<and> length ms = 50 \<and> distinct (map uni_name ms)
        \<and> distinct (map (\<lambda>m. (m_bw m, rate_bps m)) ms))"
proof -
  have dist: "distinct (map (\<lambda>m. (m_bw m, rate_bps m)) s1g_modes)" using s1g_modes_keys(1) by (simp add: mode_keys_def)
  have "inj_on uni_name (set s1g_modes)"
  proof (rule inj_onI)
    fix m m' assume m: "m \<in> set s1g_modes" "m' \<in> set s1g_modes" "uni_name m = uni_name m'"
    then have "(m_bw m, rate_bps m) = (m_bw m', rate_bps m')"
      using uni_name_unique_iff [of m m'] s1g_modes_positive by auto
    then show "m = m'" using dist m(1,2) by (auto simp: distinct_map inj_on_def)
  qed
  then have "distinct (map uni_name s1g_modes)" using dist by (simp add: distinct_map)
  moreover have "\<forall>m \<in> set s1g_modes. \<exists>l. lookup_line m = Inr l"
    by (simp add: s1g_modes_def lookup_line_def code_rate_str_def mod_constellation_def)
  then obtain out where "lookup_file s1g_modes = (Inr (), out)" using lookup_file_ok by blast
  ultimately show ?thesis using dist s1g_modes_keys(2) by (simp add: generate_s1g_def mcs_rows_modes Let_def)
qed

text \<open>The code rates cannot be right: two modes of the same bandwidth have the same code rate and constellation in the generated table,
  and different data rates. The scheme with code rate two thirds is written with three quarters.\<close>

theorem code_rates_inconsistent:
  "\<exists>m \<in> set s1g_modes. \<exists>m' \<in> set s1g_modes. m_bw m = m_bw m' \<and> code_rate_str (m_cr m) = code_rate_str (m_cr m')
     \<and> m_mod m = m_mod m' \<and> m_cr m \<noteq> m_cr m' \<and> m_dr m < m_dr m'"
proof (rule bexI, rule bexI)
  let ?m = "\<lparr>m_id = 0, m_mod = ''64-QAM'', m_cr = ''2/3'', m_bw = 1, m_dr = of_nat 240 / 100\<rparr> :: mcs"
  let ?m' = "\<lparr>m_id = 0, m_mod = ''64-QAM'', m_cr = ''3/4'', m_bw = 1, m_dr = of_nat 270 / 100\<rparr> :: mcs"
  show "m_bw ?m = m_bw ?m' \<and> code_rate_str (m_cr ?m) = code_rate_str (m_cr ?m') \<and> m_mod ?m = m_mod ?m' \<and> m_cr ?m \<noteq> m_cr ?m' \<and> m_dr ?m < m_dr ?m'"
    by (simp add: code_rate_str_def)
qed (simp_all add: s1g_modes_def)

section \<open>Reading the generated switch back\<close>

text \<open>A reader of the generated C++: it follows the lines, keeps the bandwidth of the outer \<^verbatim>\<open>case\<close>, and lists for every inner \<^verbatim>\<open>case\<close> the bandwidth,
  the rate and the mode whose function is returned in the next line.\<close>

definition number_after :: "string \<Rightarrow> string \<Rightarrow> nat" where
  "number_after p l = nat_of_digits (takeWhile is_digit (drop (length p) l))"

definition returned_mode :: "string \<Rightarrow> string" where
  "returned_mode l = takeWhile (\<lambda>c. c \<noteq> CHR ''('') (drop (length (tab @ tab @ tab @ tab @ ''return GetS1g'')) l)"

fun read_lines :: "nat \<Rightarrow> string list \<Rightarrow> ((nat \<times> nat) \<times> string) list" where
  "read_lines bw (l # r # ls) =
     (if starts_with l (tab @ tab @ tab @ ''case '')
      then ((bw, number_after (tab @ tab @ tab @ ''case '') l), returned_mode r) # read_lines bw ls
      else if starts_with l (tab @ ''case '') then read_lines (number_after (tab @ ''case '') l) (r # ls)
      else read_lines bw (r # ls))"
| "read_lines bw _ = []"

definition read_switch :: "string \<Rightarrow> ((nat \<times> nat) \<times> string) list" where
  "read_switch text = read_lines 0 (str_split (CHR 0x0A) text)"

text \<open>The lines of the text.\<close>

definition mode_lines :: "mcs \<Rightarrow> string list" where
  "mode_lines m = [tab @ tab @ tab @ ''case '' @ int_str (rate_bps m) @ '':'', tab @ tab @ tab @ tab @ ''return GetS1g'' @ uni_name m @ ''();'']"

definition head_lines :: "nat \<Rightarrow> string list" where
  "head_lines b = [tab @ ''case '' @ nat_digits (2 ^ b) @ '':'', tab @ tab @ '' switch (rate)'', tab @ tab @ ''{'']"

definition tail_lines :: "string list" where
  "tail_lines = [tab @ tab @ tab @ ''default:'',
     tab @ tab @ tab @ tab @ ''NS_ABORT_MSG ('' @ [CHR 0x22] @ ''Inexistent rate ('' @ [CHR 0x22] @ '' << rate << '' @ [CHR 0x22]
       @ '' bps) requested for s1g OFDM (default)'' @ [CHR 0x22] @ '');'',
     tab @ tab @ tab @ tab @ ''return WifiMode ();'', tab @ tab @ ''}'']"

definition switch_lines :: "mcs list \<Rightarrow> nat \<Rightarrow> string list" where
  "switch_lines ms b = head_lines b @ concat (map mode_lines (of_bandwidth ms b)) @ tail_lines"

definition text_of_lines :: "string list \<Rightarrow> string" where
  "text_of_lines ls = concat (map (\<lambda>l. l @ newline) ls)"

lemma text_of_lines_simps [simp]:
  "text_of_lines [] = []" "text_of_lines (l # ls) = l @ newline @ text_of_lines ls" "text_of_lines (ks @ ls) = text_of_lines ks @ text_of_lines ls"
  by (simp_all add: text_of_lines_def)

lemma text_of_lines_concat: "text_of_lines (concat (map f xs)) = concat (map (\<lambda>x. text_of_lines (f x)) xs)"
  by (induction xs) simp_all

lemma ofdm_rates_lines: "ofdm_rates ms = text_of_lines (concat (map (switch_lines ms) [0..<5]))"
proof -
  have "case_lines = (\<lambda>m. text_of_lines (mode_lines m))" by (simp add: fun_eq_iff case_lines_def mode_lines_def)
  then show ?thesis
    unfolding ofdm_rates_def text_of_lines_concat switch_lines_def
    by (simp add: head_lines_def tail_lines_def text_of_lines_concat del: upt_Suc)
qed

lemma split_lines: "\<forall>l \<in> set ls. CHR 0x0A \<notin> set l \<Longrightarrow> str_split (CHR 0x0A) (text_of_lines ls) = ls @ [[]]"
proof (induction ls)
  case (Cons l ls)
  then show ?case using str_split_append_sep [of "CHR 0x0A" l "text_of_lines ls"] by (simp add: newline_def)
qed (simp add: text_of_lines_def)

lemma digits_plain: "list_all is_digit ds \<Longrightarrow> c \<in> set ds \<Longrightarrow> is_digit c"
  by (simp add: list_all_iff)

lemma uni_name_plain:
  assumes "0 \<le> m_dr m" "c \<in> set (uni_name m)"
  shows "c \<noteq> CHR 0x0A \<and> c \<noteq> CHR ''(''"
proof -
  have "is_digit c \<or> c \<in> set ''OfdmRate_MbpsBWMHz''"
    using assms(2) digits_plain [OF nat_digits_all] digits_plain [OF pad_left_digits(1)]
    by (auto simp: uni_name_def rate_str_digits [OF assms(1)])
  then show ?thesis by (auto simp: is_digit_def)
qed

lemma rate_bps_nonneg: "0 \<le> m_dr m \<Longrightarrow> 0 \<le> rate_bps m \<and> int_str (rate_bps m) = nat_digits (nat (rate_bps m))"
  by (simp add: rate_bps_def py_trunc_def int_str_def)

lemma switch_lines_plain:
  assumes "\<forall>m \<in> set ms. 0 \<le> m_dr m" "l \<in> set (switch_lines ms b)"
  shows "CHR 0x0A \<notin> set l"
proof -
  have nd: "CHR 0x0A \<notin> set (nat_digits n)" for n using digits_plain [OF nat_digits_all, of "CHR 0x0A" n] by (auto simp: is_digit_def)
  have "CHR 0x0A \<notin> set l" if "l \<in> set (mode_lines m)" "m \<in> set ms" for m
    using that assms(1) nd uni_name_plain [of m "CHR 0x0A"] rate_bps_nonneg [of m] by (auto simp: mode_lines_def tab_def)
  then show ?thesis using assms(2) nd by (auto simp: switch_lines_def head_lines_def tail_lines_def tab_def of_bandwidth_def)
qed

lemma number_after_digits: "number_after p (p @ nat_digits n @ '':'') = n"
proof -
  have "takeWhile is_digit (nat_digits n @ '':'') = nat_digits n"
    using nat_digits_all [of n] by (subst takeWhile_append2) (auto simp: list_all_iff is_digit_def)
  then show ?thesis by (simp add: number_after_def)
qed

lemma returned_mode_line: "0 \<le> m_dr m \<Longrightarrow> returned_mode (tab @ tab @ tab @ tab @ ''return GetS1g'' @ uni_name m @ ''();'') = uni_name m"
  using uni_name_plain [of m] by (simp add: returned_mode_def tab_def)

lemma read_mode_lines:
  assumes "\<forall>m \<in> set ms. 0 \<le> m_dr m"
  shows "read_lines bw (concat (map mode_lines ms) @ rest) = map (\<lambda>m. ((bw, nat (rate_bps m)), uni_name m)) ms @ read_lines bw rest"
  using assms
proof (induction ms)
  case (Cons m ms)
  let ?p = "tab @ tab @ tab @ ''case ''"
  have "starts_with (?p @ x) ?p" for x by (simp add: starts_with_def)
  then have "starts_with (tab @ tab @ tab @ ''case '' @ x) ?p" for x by simp
  moreover have "number_after ?p (tab @ tab @ tab @ ''case '' @ nat_digits n @ '':'') = n" for n
    using number_after_digits [of ?p n] by simp
  ultimately show ?case
    using Cons rate_bps_nonneg [of m] returned_mode_line [of m] by (simp add: mode_lines_def)
qed simp

lemma read_block:
  assumes "\<forall>m \<in> set ms. 0 \<le> m_dr m" "rest \<noteq> []"
  shows "read_lines bw (switch_lines ms b @ rest)
    = map (\<lambda>m. ((2 ^ b, nat (rate_bps m)), uni_name m)) (of_bandwidth ms b) @ read_lines (2 ^ b) rest"
proof -
  have "number_after (tab @ ''case '') (tab @ ''case '' @ nat_digits n @ '':'') = n" for n
    using number_after_digits [of "tab @ ''case ''" n] by simp
  then have head: "read_lines bw (head_lines b @ l # ls) = read_lines (2 ^ b) (l # ls)" for l ls
    by (simp add: head_lines_def starts_with_def tab_def)
  obtain r rs where "rest = r # rs" using assms(2) by (cases rest) auto
  then have tail: "read_lines (2 ^ b) (tail_lines @ rest) = read_lines (2 ^ b) rest"
    by (simp add: tail_lines_def starts_with_def tab_def)
  have "\<exists>l ls. concat (map mode_lines (of_bandwidth ms b)) @ tail_lines @ rest = l # ls"
    by (meson append_is_Nil_conv assms(2) list.exhaust)
  then have "read_lines bw (switch_lines ms b @ rest) = read_lines (2 ^ b) (concat (map mode_lines (of_bandwidth ms b)) @ tail_lines @ rest)"
    using head by (auto simp: switch_lines_def)
  then show ?thesis using read_mode_lines [of "of_bandwidth ms b"] assms(1) tail by (simp add: of_bandwidth_def)
qed

lemma read_blocks:
  assumes "\<forall>m \<in> set ms. 0 \<le> m_dr m"
  shows "read_lines bw (concat (map (switch_lines ms) bs) @ [[]])
    = concat (map (\<lambda>b. map (\<lambda>m. ((2 ^ b, nat (rate_bps m)), uni_name m)) (of_bandwidth ms b)) bs)"
proof (induction bs arbitrary: bw)
  case (Cons b bs)
  then show ?case using read_block [OF assms, of "concat (map (switch_lines ms) bs) @ [[]]" bw b] by simp
qed simp

lemma read_generated_switch:
  assumes "\<forall>m \<in> set ms. 0 \<le> m_dr m"
  shows "read_switch (ofdm_rates ms) = concat (map (\<lambda>b. map (\<lambda>m. ((2 ^ b, nat (rate_bps m)), uni_name m)) (of_bandwidth ms b)) [0..<5])"
proof -
  have "\<forall>l \<in> set (concat (map (switch_lines ms) [0..<5])). CHR 0x0A \<notin> set l" using switch_lines_plain [OF assms] by auto
  then show ?thesis using read_blocks [OF assms, of 0 "[0..<5]"] by (simp add: read_switch_def ofdm_rates_lines split_lines del: upt_Suc)
qed

lemma mcs_list_bandwidths:
  assumes "mcs_list rows = Inr ms" "m \<in> set ms"
  shows "\<exists>b < 5. m_bw m = 2 ^ b"
proof -
  let ?P = "\<lambda>ms :: mcs list. \<forall>m \<in> set ms. \<exists>b < 5. m_bw m = 2 ^ b"
  have row: "?P v" if "?P u" "add_mcs b row u = Inr v" "b < 5" for b row u v
    using that by (auto simp: add_mcs_def read_mcs_def res_simps split: option.splits if_splits)
  have "?P v" if "b \<in> set [0..<5]" "?P u" "res_fold (add_mcs b) rows u = Inr v" for b u v
    using res_fold_invariant [OF that(3), where P = ?P] that(1,2) row by fastforce
  then have "?P ms" using res_fold_invariant [OF assms(1) [unfolded mcs_list_def], where P = ?P] by fastforce
  then show ?thesis using assms(2) by blast
qed

lemma switch_keys_distinct:
  assumes "distinct (map (\<lambda>m. (m_bw m, rate_bps m)) ms)" "\<forall>m \<in> set ms. 0 \<le> m_dr m" "distinct bs"
  shows "distinct (map fst (concat (map (\<lambda>b. map (\<lambda>m. ((2 ^ b :: nat, nat (rate_bps m)), uni_name m)) (of_bandwidth ms b)) bs)))"
  using assms(3)
proof (induction bs)
  case (Cons b bs)
  have "inj_on (\<lambda>m. (m_bw m, rate_bps m)) (set ms)" "distinct ms" using assms(1) by (simp_all add: distinct_map)
  then have "inj_on (\<lambda>m. (2 ^ b, nat (rate_bps m))) (set (of_bandwidth ms b))"
    using assms(2) rate_bps_nonneg unfolding inj_on_def of_bandwidth_def by (simp add: eq_nat_nat_iff)
  then have "distinct (map (\<lambda>m. (2 ^ b :: nat, nat (rate_bps m))) (of_bandwidth ms b))"
    using \<open>distinct ms\<close> by (simp add: distinct_map of_bandwidth_def)
  moreover have "(2 ^ b :: nat) \<noteq> 2 ^ b'" if "b' \<in> set bs" for b' using that Cons.prems by auto
  ultimately show ?case using Cons by (auto simp: comp_def map_concat)
qed simp

text \<open>C20: For every table that can be read, with rates that are not negative and with no rate twice for a bandwidth, the text of the
  switch in the generated C++, read back, has no case twice; it returns for the bandwidth and the rate of every mode of the table the function of
  this very mode, and it has no other cases.\<close>

theorem generated_switch_selects:
  assumes "mcs_list rows = Inr ms" "\<forall>m \<in> set ms. 0 \<le> m_dr m" "distinct (map (\<lambda>m. (m_bw m, rate_bps m)) ms)"
  shows "distinct (map fst (read_switch (ofdm_rates ms)))
    \<and> (\<forall>m \<in> set ms. map_of (read_switch (ofdm_rates ms)) (m_bw m, nat (rate_bps m)) = Some (uni_name m))
    \<and> (\<forall>bw rate name. map_of (read_switch (ofdm_rates ms)) (bw, rate) = Some name
         \<longrightarrow> (\<exists>m \<in> set ms. m_bw m = bw \<and> rate_bps m = int rate \<and> name = uni_name m))"
proof -
  note switch_text = read_generated_switch [OF assms(2)]
  have dist: "distinct (map fst (read_switch (ofdm_rates ms)))"
    unfolding switch_text by (rule switch_keys_distinct [OF assms(3,2)]) simp
  have entries: "((bw, rate), name) \<in> set (read_switch (ofdm_rates ms))
      \<longleftrightarrow> (\<exists>m \<in> set ms. m_bw m = bw \<and> rate_bps m = int rate \<and> name = uni_name m)" for bw rate name
  proof -
    have "((bw, rate), name) \<in> set (read_switch (ofdm_rates ms))
        \<longleftrightarrow> (\<exists>b < 5. \<exists>m \<in> set ms. m_bw m = 2 ^ b \<and> bw = 2 ^ b \<and> rate = nat (rate_bps m) \<and> name = uni_name m)"
      unfolding switch_text by (auto simp: of_bandwidth_def)
    then show ?thesis using mcs_list_bandwidths [OF assms(1)] assms(2) rate_bps_nonneg by fastforce
  qed
  then have "map_of (read_switch (ofdm_rates ms)) (m_bw m, nat (rate_bps m)) = Some (uni_name m)" if "m \<in> set ms" for m
    using that assms(2) rate_bps_nonneg [of m] dist by (intro map_of_is_SomeI) auto
  then show ?thesis using dist entries by (meson map_of_SomeD)
qed

theorem generated_switch_selects_witness:
  "mcs_list mcs_rows = Inr s1g_modes \<and> map_of (read_switch (ofdm_rates s1g_modes)) (1, 300000) = Some (uni_name (hd s1g_modes))"
proof -
  have "distinct (map (\<lambda>m. (m_bw m, rate_bps m)) s1g_modes)" using s1g_modes_keys(1) by (simp add: mode_keys_def)
  then have all: "\<forall>m \<in> set s1g_modes. map_of (read_switch (ofdm_rates s1g_modes)) (m_bw m, nat (rate_bps m)) = Some (uni_name m)"
    using generated_switch_selects [OF mcs_rows_modes] s1g_modes_positive by blast
  have "hd s1g_modes \<in> set s1g_modes" "(m_bw (hd s1g_modes), nat (rate_bps (hd s1g_modes))) = (1, 300000)"
    by (simp_all add: s1g_modes_def rate_bps_def py_trunc_def)
  then show ?thesis using all mcs_rows_modes by metis
qed

end
