(* ===== verification/Tcp_Agents.thy ===== *)
theory Tcp_Agents
  imports Py_Numbers Gym_Bridge
begin

text \<open>
  The agents that steer TCP through the gym environment, from \<^verbatim>\<open>scratch/ns3-gym/rl-tcp\<close>: \<^verbatim>\<open>tcp_base.py\<close> (the two agents with fixed windows),
  \<^verbatim>\<open>tcp_newreno.py\<close>, and the table of agents and the beginning of \<^verbatim>\<open>test_tcp.py\<close>, which is all of it that runs. An observation is a list of integers; an action is the pair
  of the new slow start threshold and the new congestion window.
\<close>

section \<open>The agents\<close>

text \<open>The fields that an agent reads; reading past the end raises.\<close>

fun read_fields :: "int list \<Rightarrow> nat list \<Rightarrow> int list res" where
  "read_fields obs [] = Inr []"
| "read_fields obs (i # is) = res_bind (py_index obs (int i)) (\<lambda>v. res_bind (read_fields obs is) (\<lambda>vs. Inr (v # vs)))"

definition event_based_action :: "int list \<Rightarrow> (int \<times> int) res" where
  "event_based_action obs =
     res_bind (read_fields obs [0..<15]) (\<lambda>f. let segmentSize = f ! 6 in Inr (5 * segmentSize, 10 * segmentSize))"

definition time_based_action :: "int list \<Rightarrow> (int \<times> int) res" where
  "time_based_action obs =
     res_bind (read_fields obs [0..<16]) (\<lambda>f. let segmentSize = f ! 6 in Inr (5 * segmentSize, 10 * segmentSize))"

text \<open>\<^verbatim>\<open>IncreaseWindow\<close> of the New Reno agent: slow start below the threshold, congestion avoidance from it on.\<close>

definition congestion_adder :: "int \<Rightarrow> int \<Rightarrow> int" where
  "congestion_adder segmentSize cWnd = py_trunc (max 1 (of_int (segmentSize * segmentSize) / of_int cWnd))"

definition increase_window :: "int \<Rightarrow> int \<Rightarrow> int \<Rightarrow> int \<Rightarrow> int res" where
  "increase_window ssThresh cWnd segmentSize segmentsAcked =
     (let new_cWnd = 1;
          new_cWnd = (if cWnd < ssThresh \<and> 1 \<le> segmentsAcked then cWnd + segmentSize else new_cWnd)
      in if ssThresh \<le> cWnd \<and> 0 < segmentsAcked
         then if cWnd = 0 then Inl ZeroDivisionError else Inr (cWnd + congestion_adder segmentSize cWnd)
         else Inr new_cWnd)"

definition get_ss_thresh :: "int \<Rightarrow> int \<Rightarrow> int" where
  "get_ss_thresh segmentSize bytesInFlight = py_trunc (max (of_int (2 * segmentSize)) (of_int bytesInFlight / 2))"

definition newreno_action :: "int list \<Rightarrow> (int \<times> int) res" where
  "newreno_action obs =
     res_bind (read_fields obs [0..<9]) (\<lambda>f.
       res_bind (increase_window (f ! 4) (f ! 5) (f ! 6) (f ! 7)) (\<lambda>new_cWnd. Inr (get_ss_thresh (f ! 6) (f ! 8), new_cWnd)))"

section \<open>The table of agents\<close>

datatype tcp_agent = TcpNewReno | TcpTimeBased

definition get_agent :: "int list \<Rightarrow> (int \<times> tcp_agent) list \<Rightarrow> tcp_agent res \<times> (int \<times> tcp_agent) list" where
  "get_agent obs agents =
     (case read_fields obs [0, 1] of
        Inl e \<Rightarrow> (Inl e, agents)
      | Inr f \<Rightarrow> (case map_of agents (f ! 0) of
                   Some a \<Rightarrow> (Inr a, agents)
                 | None \<Rightarrow> let a = (if f ! 1 = 0 then TcpNewReno else TcpTimeBased) in (Inr a, AList.update (f ! 0) a agents)))"

definition get_action :: "tcp_agent \<Rightarrow> int list \<Rightarrow> (int \<times> int) res" where
  "get_action a = (case a of TcpNewReno \<Rightarrow> newreno_action | TcpTimeBased \<Rightarrow> time_based_action)"

section \<open>The script\<close>

text \<open>\<^verbatim>\<open>test_tcp.py\<close> makes the environment and resets it; \<open>rest\<close> is what follows: printing the spaces and the loop over the episodes, the only
  part inside the \<^verbatim>\<open>try\<close> whose \<^verbatim>\<open>finally\<close> closes the environment.\<close>

definition test_tcp ::
    "(int \<Rightarrow> int option) \<Rightarrow> codec \<Rightarrow> (space \<Rightarrow> bool) \<Rightarrow> bool \<Rightarrow> (nat \<times> string list) list \<Rightarrow> (ns3_env \<Rightarrow> ns3_env \<times> unit outcome) \<Rightarrow> ns3_env \<times> unit outcome" where
  "test_tcp bind cod check startSim rs rest =
     env_bind (new_env bind 5555 startSim 12 rs) (\<lambda>env _.
     env_bind (env_reset bind cod check env) (\<lambda>env _. rest env))"

section \<open>Growth of the window\<close>

lemma read_fields_result:
  "read_fields obs is = (if \<forall>i \<in> set is. i < length obs then Inr (map ((!) obs) is) else Inl IndexError)"
  by (induction "is") (auto simp: py_index_def)

lemma read_prefix: "n \<le> length obs \<Longrightarrow> read_fields obs [0..<n] = Inr (take n obs)"
  by (auto simp: read_fields_result intro!: nth_equalityI)

lemma congestion_adder_bounds:
  assumes "0 < cWnd"
  shows "1 \<le> congestion_adder seg cWnd \<and> rat_of_int (congestion_adder seg cWnd) \<le> max 1 (of_int (seg * seg) / of_int cWnd)"
  by (simp add: congestion_adder_def py_trunc_def le_floor_iff of_int_floor_le)

lemma floor_max_of_int: "\<lfloor>max (of_int k) (y :: rat)\<rfloor> = max k \<lfloor>y\<rfloor>"
proof (cases "rat_of_int k \<le> y")
  case True
  then show ?thesis by (simp add: max_def le_floor_iff)
next
  case False
  then have "\<lfloor>y\<rfloor> < k" by (simp add: floor_less_iff)
  then show ?thesis using False by (simp add: max_def)
qed

lemma increase_window_acked:
  assumes "0 < cWnd" "0 < acked"
  shows "increase_window ssThresh cWnd seg acked = Inr (cWnd + (if cWnd < ssThresh then seg else congestion_adder seg cWnd))"
  using assms by (auto simp: increase_window_def Let_def)

lemma congestion_adder_int: "congestion_adder seg w = max 1 (seg * seg div w)"
proof -
  have "\<lfloor>rat_of_int (seg * seg) / of_int w\<rfloor> = seg * seg div w" by (rule floor_divide_of_int_eq)
  then have "\<lfloor>max (of_int 1) (rat_of_int (seg * seg) / of_int w)\<rfloor> = max 1 (seg * seg div w)" by (simp only: floor_max_of_int)
  moreover have "0 \<le> max 1 (rat_of_int (seg * seg) / of_int w)" by (simp add: max_def)
  ultimately show ?thesis by (simp only: congestion_adder_def py_trunc_def if_True of_int_1)
qed

lemma get_ss_thresh_int: "0 < seg \<Longrightarrow> get_ss_thresh seg flight = max (2 * seg) (flight div 2)"
proof -
  assume "0 < seg"
  then have "0 \<le> max (rat_of_int (2 * seg)) (of_int flight / 2)" by (simp add: max_def)
  moreover have "\<lfloor>rat_of_int flight / 2\<rfloor> = flight div 2" using floor_divide_of_int_eq [of flight 2] by simp
  ultimately show ?thesis by (simp only: get_ss_thresh_def py_trunc_def if_True floor_max_of_int)
qed

text \<open>C19: For an observation of at least nine fields with a positive window, a positive segment size and at least one acknowledged segment, New
  Reno grows the window by exactly one segment below the threshold, and from the threshold on by the square of the segment size divided by the
  window, rounded down, but at least by one byte. So it grows by at most one segment when the window holds at least one segment; a smaller window may grow by
  more. The threshold it sets is the larger of two segments and half of the bytes in flight, rounded down.\<close>

theorem newreno_grows:
  assumes "9 \<le> length obs" "0 < obs ! 5" "0 < obs ! 6" "0 < obs ! 7"
  shows "\<exists>w. newreno_action obs = Inr (max (2 * obs ! 6) (obs ! 8 div 2), w)
    \<and> w = obs ! 5 + (if obs ! 5 < obs ! 4 then obs ! 6 else max 1 (obs ! 6 * obs ! 6 div obs ! 5))
    \<and> obs ! 5 < w \<and> (obs ! 6 \<le> obs ! 5 \<longrightarrow> w \<le> obs ! 5 + obs ! 6)"
proof -
  let ?w = "obs ! 5" and ?s = "obs ! 6"
  have run: "newreno_action obs = Inr (max (2 * ?s) (obs ! 8 div 2), ?w + (if ?w < obs ! 4 then ?s else max 1 (?s * ?s div ?w)))"
    using assms increase_window_acked [of ?w "obs ! 7" "obs ! 4" ?s]
    by (simp add: newreno_action_def read_prefix congestion_adder_int get_ss_thresh_int)
  have "?s * ?s div ?w \<le> ?s" if "?s \<le> ?w"
  proof -
    have "?s * ?s \<le> ?s * ?w" using that assms(3) by simp
    then have "?s * ?s div ?w \<le> ?s * ?w div ?w" using assms(2) by (intro zdiv_mono1) auto
    then show ?thesis using assms(2) by simp
  qed
  then show ?thesis using run assms(3) by auto
qed

theorem newreno_grows_witness:
  "\<exists>w. newreno_action [7, 0, 0, 1, 0, 1000, 500, 1, 3000] = Inr (1500, w) \<and> w = 1250"
  using newreno_grows [of "[7, 0, 0, 1, 0, 1000, 500, 1, 3000]"] by auto

text \<open>The window during congestion avoidance, one acknowledged segment after the other.\<close>

fun avoidance :: "nat \<Rightarrow> int \<Rightarrow> int \<Rightarrow> int" where
  "avoidance 0 seg w = w"
| "avoidance (Suc n) seg w = avoidance n seg (w + congestion_adder seg w)"

lemma avoidance_bound:
  assumes "0 < w0" "w0 \<le> seg * seg" "w0 \<le> w"
  shows "w \<le> avoidance n seg w \<and> rat_of_int (avoidance n seg w) \<le> of_int w + of_nat n * (of_int (seg * seg) / of_int w0)"
  using assms(3)
proof (induction n arbitrary: w)
  case (Suc n)
  let ?a = "congestion_adder seg w"
  define q where "q = rat_of_int (seg * seg) / of_int w0"
  have "0 < w" using assms(1) Suc.prems by simp
  then have a: "1 \<le> ?a" "rat_of_int ?a \<le> max 1 (of_int (seg * seg) / of_int w)" using congestion_adder_bounds by auto
  have "rat_of_int w0 \<le> of_int (seg * seg)" using assms(2) by (simp only: of_int_le_iff)
  then have "1 \<le> q" using assms(1) by (simp add: q_def le_divide_eq)
  moreover have "rat_of_int (seg * seg) / of_int w \<le> q"
    unfolding q_def using assms(1) Suc.prems by (intro divide_left_mono) (simp_all add: zero_le_mult_iff)
  ultimately have "rat_of_int ?a \<le> q" using a(2) by (simp add: max_def split: if_splits)
  moreover have "w + ?a \<le> avoidance n seg (w + ?a)
      \<and> rat_of_int (avoidance n seg (w + ?a)) \<le> of_int (w + ?a) + of_nat n * q" using Suc.IH [of "w + ?a"] Suc.prems a(1) unfolding q_def by simp
  ultimately show ?case using a(1) unfolding q_def [symmetric] by (simp add: distrib_right)
qed simp

text \<open>Congestion avoidance is additive: while a window that is not larger than the square of the segment size is acknowledged segment by
  segment, New Reno adds at most one segment to it in all, and at least one byte for each.\<close>

theorem avoidance_one_segment:
  assumes "0 < seg" "0 < w" "w \<le> seg * seg"
  shows "w + int (nat (w div seg)) \<le> avoidance (nat (w div seg)) seg w \<and> avoidance (nat (w div seg)) seg w \<le> w + seg"
proof
  let ?n = "nat (w div seg)" and ?q = "rat_of_int (seg * seg) / of_int w"
  have lower: "v + int n \<le> avoidance n seg v" if "0 < v" for n v
    using that
  proof (induction n arbitrary: v)
    case (Suc n)
    have "1 \<le> congestion_adder seg v" using congestion_adder_bounds [OF Suc.prems] by simp
    then show ?case using Suc.IH [of "v + congestion_adder seg v"] Suc.prems by simp
  qed simp
  then show "w + int ?n \<le> avoidance ?n seg w" using assms(2) by blast
  have "int ?n * seg \<le> w" using assms(1,2) by (simp add: pos_imp_zdiv_nonneg_iff) (metis div_mult_mod_eq le_add_same_cancel1 pos_mod_sign)
  then have "int ?n * seg * seg \<le> w * seg" using assms(1) by (intro mult_right_mono) auto
  then have "rat_of_int (int ?n * (seg * seg)) \<le> of_int (seg * w)" by (simp only: of_int_le_iff) (simp add: mult.commute mult.assoc)
  then have "rat_of_int (int ?n) * ?q \<le> of_int seg" using assms(2) by (simp add: pos_divide_le_eq del: of_int_of_nat_eq int_nat_eq)
  then have "of_nat ?n * ?q \<le> of_int seg" by (simp only: of_int_of_nat_eq)
  then have "rat_of_int (avoidance ?n seg w) \<le> of_int (w + seg)"
    using avoidance_bound [OF assms(2,3) order_refl, of ?n] by simp
  then show "avoidance ?n seg w \<le> w + seg" by (simp only: of_int_le_iff)
qed

theorem avoidance_one_segment_witness: "avoidance 4 500 2000 \<le> 2500"
  using avoidance_one_segment [of 500 2000] by simp

text \<open>Without an acknowledged segment, as when only the threshold is asked for, the agent sets the window to a single byte.\<close>

theorem no_ack_collapses_window:
  assumes "9 \<le> length obs" "obs ! 7 = 0"
  shows "newreno_action obs = Inr (get_ss_thresh (obs ! 6) (obs ! 8), 1)"
  using assms by (simp add: newreno_action_def read_prefix increase_window_def)

text \<open>A socket keeps the agent it got first, whatever it reports later.\<close>

theorem agent_kept:
  assumes "get_agent obs agents = (Inr a, agents')" "obs' ! 0 = obs ! 0" "2 \<le> length obs" "2 \<le> length obs'"
  shows "get_agent obs' agents' = (Inr a, agents')"
proof -
  have "read_fields o' [0, 1] = Inr [o' ! 0, o' ! 1]" if "2 \<le> length o'" for o' :: "int list"
    using that by (auto simp: read_fields_result)
  then show ?thesis using assms by (auto simp: get_agent_def Let_def split: option.splits)
qed

section \<open>The script never plays\<close>

text \<open>The script calls \<^verbatim>\<open>reset\<close> on an environment that was never initialised, which raises: no message is exchanged, whatever the simulator
  sends, and the simulator that was started is left running.\<close>

theorem test_tcp_never_plays:
  assumes "bind 5555 = Some p"
  shows "\<exists>env b. test_tcp bind cod check startSim rs rest = (env, Raises AttributeError) \<and> e_bridge env = Some b
    \<and> sent b = [] \<and> ns3Process b = (if startSim then Some True else None)"
  using assms by (simp add: test_tcp_def new_env_def make_bridge_def new_bridge_def next_run_def env_reset_def env_bind_def)

end
