(* ===== verification/Spec2Isabelle.thy ===== *)
theory Spec2Isabelle
  imports Find_Cycles Module_Scan Test_Main Timeline_Widget Gym_Bridge Gym_Start Check_Style Rad_Bits Rad_Num Create_Module Viz_Hud Viz_Thread Viz_Plugins Scan_Hooks
    Flow_Results S1g_Rates Tcp_Agents
begin

text \<open>
  A verification development for the Python tools of this ns-3 repository: the sorting of modules
  for the Python bindings, the regression test driver \<^verbatim>\<open>test.py\<close> and the timeline viewer
  \<^verbatim>\<open>utils/grid.py\<close>, and the gym environment \<^verbatim>\<open>contrib/opengym\<close> through which a learning agent drives a
  simulation, the style checker \<^verbatim>\<open>utils/check-style.py\<close>, the module generator \<^verbatim>\<open>utils/create-module.py\<close>, and the
  visualizer \<^verbatim>\<open>src/visualizer/visualizer\<close> with its plugins, and three scripts: the reader of flow monitor results, the
  generator of the rate tables of IEEE 802.11ah and the TCP agents of the gym. Paths below are relative to \<^verbatim>\<open>src/\<close>.

  \<^bold>\<open>The program.\<close> \<^verbatim>\<open>bindings/python/ns3modulescan.py\<close> orders the modules of the simulator by
  their dependencies with \<^verbatim>\<open>topsort.py\<close>, which in turn uses the sequence functions of
  \<^verbatim>\<open>rad_util.py\<close>, and gives every module a section of the generated bindings. \<^verbatim>\<open>test.py\<close> reads the
  configuration of the build, asks the C++ test runner for the suites, reads the lists of examples
  with \<^verbatim>\<open>utils.py\<close>, hands one job per suite and example to worker threads through two queues,
  collects what comes back, and writes a summary, \<^verbatim>\<open>results.xml\<close> and reports. \<^verbatim>\<open>utils/grid.py\<close> shows
  ranges and events of a simulation on a time axis, of which the user selects a window. The classes of
  \<^verbatim>\<open>ns3env.py\<close> exchange messages with the simulator over a socket: a state is received, an action is
  sent. \<^verbatim>\<open>create-module.py\<close> writes the skeleton of a new module from templates. The visualizer runs the
  simulator in a thread of its own, a sample period at a time, and between the runs draws nodes, links, traffic and
  axes on a canvas; plugins listen to its signals and open windows with tables.

  \<^bold>\<open>The theories.\<close>
  \<^item> \<open>Py_Prelude\<close>: exceptions as values of a sum type (\<open>res\<close>), the version of the interpreter
    (\<open>python\<close>, an argument where the two versions differ), Python's indexing, slicing, string and
    path functions. \<open>Py_Numbers\<close>: truncation, remainder, ranges, the loop that steps through
    floats, reading and formatting decimal numbers.
  \<^item> \<open>Rad_Seq\<close> (\<^verbatim>\<open>rad_util.py\<close>: rotations, permutations, \<^verbatim>\<open>uniquify\<close>, common fixes), \<open>Topsort\<close>
    (\<^verbatim>\<open>topsort\<close>, \<^verbatim>\<open>topsort_levels\<close>; tables of parents and children as association lists in the
    order of insertion), \<open>Find_Cycles\<close> (\<^verbatim>\<open>find_cycles\<close> with its stack of paths), \<open>Module_Scan\<close>
    (\<^verbatim>\<open>ns3_module_scan\<close>, the classifier, \<^verbatim>\<open>get_ns3_relative_path\<close>). Shown: a returned order contains
    every item once with dependencies first, a cycle is reported exactly when there is one, the
    levels are the dependency levels, \<^verbatim>\<open>find_cycles\<close> returns every elementary cycle once up to
    rotation (both loops end), and the module scan under Python 2 gives sections that respect the
    dependencies, while under Python 3 it always raises.
  \<^item> \<open>Scan_Hooks\<close> (\<^verbatim>\<open>pre_scan_hook\<close> of \<^verbatim>\<open>ns3modulescan.py\<close>, \<^verbatim>\<open>PreScanHook\<close> of \<^verbatim>\<open>ns3modulescan-modular.py\<close> and the table of annotations, which they
    change). Shown: what a definition gets does not depend on what was scanned before, but for the notes on parameters, which are
    used up; that the first hook raises under Python 3 exactly where a function has notes on its parameters, and once; that the path function of the second file ends and agrees with the first.
  \<^item> \<open>Rad_Bits\<close> (\<^verbatim>\<open>rad_util.py\<close>: binary strings and numbers, Gray code) and \<open>Rad_Num\<close> (rounding to a grid, statistics,
    ranges of floats, polygons). Shown: conversions are inverse, counting in lists of bits refines the successor, the area
    of a polygon with integer corners is the shoelace formula when the halving is exact, quantiles are monotone, where the float loop does not end.
  \<^item> \<open>Config_Files\<close> (\<^verbatim>\<open>utils.py\<close>): lists and booleans read from configuration files; Python's
    \<^verbatim>\<open>eval\<close> of the text is a parameter.
  \<^item> \<open>Test_Job\<close> (options, the class \<^verbatim>\<open>Job\<close>, \<^verbatim>\<open>run_job_synchronously\<close>, the body of a worker),
    where starting a process may raise, \<open>Test_Pool\<close> (the threads and queues as a state machine of atomic actions, interrupts included;
    the locale \<open>job_executor\<close> states what the rest relies on), \<open>Test_Dispatch\<close> (which jobs are made
    from options, suites and examples), \<open>Test_Collect\<close> (counters, \<^verbatim>\<open>results.xml\<close>, summary, exit
    status), \<open>Markup\<close> and \<open>Test_Report\<close> (text and HTML reports, and a reader that decides whether
    markup is well nested), \<open>Test_Main\<close> (configuration, environment and \<^verbatim>\<open>run_tests\<close>). Shown: in
    every interleaving the pool comes to rest with an answer for each job, if there is a thread and
    no job raises; uninterrupted runs return the result of running each job, which is that of
    the command its kind asks for; without threads it hangs; the
    counters count, the summary does not depend on the order of results, and the exit status is
    zero exactly when every test passed or was skipped; where the reports are malformed.
  \<^item> \<open>Timelines\<close> (data model, binary searches, bounds, colours, data file), \<open>Timeline_View\<close> (the
    renderers: layout, and drawing as sequences of Cairo calls), \<open>Timeline_Widget\<close> (the callbacks of
    the widget, \<^verbatim>\<open>main\<close>, sessions as reachable states). The locale \<open>monotone_probe\<close> is the contract
    of the searches. Shown: what the searches return on every input, that the bounds enclose the
    data, that the legend fits, when a scale can be drawn at all, that the window never starts before or ends after the
    data, in which events it may turn over, and that it keeps its width when dragged.
  \<^item> \<open>Gym_Data\<close> (spaces, observations and actions as messages), \<open>Gym_Bridge\<close> (\<^verbatim>\<open>Ns3ZmqBridge\<close> and
    \<^verbatim>\<open>Ns3Env\<close>: a state machine over a socket that receives and sends in turn, with operations that
    return, raise or block), \<open>Gym_Start\<close> (\<^verbatim>\<open>start_sim.py\<close>). Shown: packing and reading an action are
    inverse for spaces of depth one and fail for nested ones, a step exchanges exactly one action
    for one state until the game is over and raises after it, when \<^verbatim>\<open>close\<close> kills the process it launched, when
    the search for \<^verbatim>\<open>ns3\<close> ends.
  \<^item> \<open>Check_Style\<close> (\<^verbatim>\<open>utils/check-style.py\<close>: patches as records, parser and writer, the white space
    pass on lines shared between the two sides of a chunk, the run over files). Shown: a written
    patch is read back, what the white space pass may change, that debugging output makes every
    file pass.
  \<^item> \<open>Module_Templates\<close> and \<open>Create_Module\<close> (\<^verbatim>\<open>utils/create-module.py\<close>: the templates, \<^verbatim>\<open>str.format\<close>, the generators over a map of
    files, \<^verbatim>\<open>make_module\<close>, \<^verbatim>\<open>main\<close>). Shown: the whole tree is made or nothing of it is left, wherever the system
    refuses; nothing that exists is touched; where a module name goes.
  \<^item> \<open>Viz_Base\<close> (\<^verbatim>\<open>base.py\<close>, \<^verbatim>\<open>svgitem.py\<close>: traits of devices, coordinates, plugins, images), \<open>Viz_Hud\<close> (\<^verbatim>\<open>hud.py\<close>: the axes),
    \<open>Viz_Nodes\<close> (\<^verbatim>\<open>core.py\<close>: nodes, channels, links, scanning the topology, selection, dragging, panning; sessions as reachable states),
    \<open>Viz_Traffic\<close> (\<^verbatim>\<open>core.py\<close>: samples, averages, arrows), \<open>Viz_Thread\<close> (\<^verbatim>\<open>core.py\<close>: the simulation thread and the handlers that
    share its lock, as interleaved steps; the locale \<open>ending_phase\<close> is the contract of a phase that ends on every path),
    \<open>Viz_Plugins\<close> (\<^verbatim>\<open>plugins/\<close> and the information windows). Shown: links always join the positions of their ends and exactly the
    selected node is marked; the topology gives exactly the wired links; arrows show exactly the pairs with traffic and their rates;
    an axis is divided exactly at the multiples of a round length, three to eight inside the visible range, and its labels are reused; the simulator never runs during a redraw, closing the window
    ends on every interleaving; Wi-Fi links follow the association of the stations; what the statistics are; that the windows refreshed are
    those opened and not closed, and how one whose first refresh raised stays for ever and stops every redraw at which it raises.
  \<^item> \<open>Flow_Results\<close> (\<^verbatim>\<open>flowmon-parse-results.py\<close>: elements and parser events, flows shared by a list and a dictionary, the printed text).
    Shown: only the root is read, the records of the probes reach their flows, the values of a flow are in range, where printing stops.
    \<open>S1g_Rates\<close> (\<^verbatim>\<open>generates_s1g_rate_code.py\<close>: the table of modes and six generated files). Shown: the text of the
    generated switch, read back, returns for every bandwidth and rate the mode asked for and has no case twice; the table of the repository is generated. \<open>Tcp_Agents\<close> (\<^verbatim>\<open>scratch/ns3-gym/rl-tcp\<close>: the agents,
    their table and the beginning of the script). Shown: how New Reno grows the window, for one acknowledgement and for a window of them;
    that the script never gets beyond the first reset of the environment of \<open>Gym_Bridge\<close>, so that its loop is not modelled.

  \<^bold>\<open>Parameters.\<close> What is not in the repository is an argument: the order in which a dictionary or
  set lists its keys (\<open>key_order\<close>, any permutation), processes (whether they start, and what they
  write) and decoding of their output, files,
  \<^verbatim>\<open>eval\<close>, the XML parser, the extents of text in Cairo, the checks of gym, the parsing of protobuf,
  \<^verbatim>\<open>uncrustify\<close>, \<^verbatim>\<open>patch\<close> and \<^verbatim>\<open>difflib\<close>; for the visualizer what the simulator reports (devices, channels, positions, samples, counters,
  routes, types), the layout of graphviz, the conversion of pixels, the clipping of lines and, at each moment, whether a window can be refreshed.

  \<^bold>\<open>Bounds.\<close> No definition uses fuel. Loops are structural recursions or functions with a measure:
  the number of items not yet sorted, the weight of the stack of paths, the interval of a search,
  the distance of the scale step to the range. The loops of \<^verbatim>\<open>get_ns3_relative_path\<close> and
  \<^verbatim>\<open>find_ns3_path\<close>, of float ranges and axes, and the walk up the parents of a type, which do not end on every input, are partial functions into \<open>option\<close>, with
  theorems on the inputs where they end and those where they do not. Integers are unbounded as in Python; floats are exact
  rationals. In \<^verbatim>\<open>utils/grid.py\<close> division is that of Python 3, which the script names, while the two
  library calls it still makes in the style of Python 2 (\<^verbatim>\<open>list.sort(cmp)\<close>, \<^verbatim>\<open>dict.has_key\<close>) have
  their meaning there.

  \<^bold>\<open>Not modelled.\<close> The parser behind \<^verbatim>\<open>ns3modulescan.py\<close> and the customizations of the bindings are
  calls on the package \<^verbatim>\<open>pybindgen\<close>; the files \<^verbatim>\<open>modulegen__gcc_*.py\<close> are generated by it. Of the
  visualizer the construction of widgets and menus, tooltips, screenshots and the IPython shell are left out: they are calls on
  GTK, Cairo and IPython. Of \<^verbatim>\<open>test.py\<close> the parsing of the command line
  (\<^verbatim>\<open>optparse\<close>), the notes on disabled tests and the removal of the temporary directory are
  left out. The other scripts of \<^verbatim>\<open>scratch/ns3-gym\<close> are calls on the gym environment with numpy or tensorflow. The tests of the build tool (\<^verbatim>\<open>utils/tests\<close>) and the settings of the documentation are not part of
  the program. The simulator itself is C++.
\<close>

end
